(* ===== verification/Prelude.thy ===== *)
theory Prelude
  imports Main "HOL-Library.AList" "HOL-Library.Sublist" "HOL-Library.Word"
    "HOL-Library.Char_ord" "HOL-Library.List_Lexorder"
begin

text \<open>
  What every component of the operator shares: the parts of Go and of its standard library that
  the sources use, and the lemmas about them.

  \<^item> Run-time panics and effects: \<open>outcome\<close> is the result of a call (a value or a panic) and
    \<open>prog\<close> a call that reads and writes a state. Go's error returns are ordinary values, so they
    are not part of the monad.
  \<^item> Errors: \<open>goerror\<close>, with the wrapping of \<open>fmt.Errorf("...: %w")\<close>.
  \<^item> Maps: \<open>gomap\<close>, an association list or nil; assigning to a nil map panics.
  \<^item> Strings: \<open>strings.Split\<close>, \<open>strings.Join\<close>, \<open>strings.HasPrefix\<close>, the verbs of \<open>fmt\<close>.

  A Go string is a sequence of bytes, so is a \<open>string\<close> (a \<open>char list\<close>).
\<close>

named_theorems go_simps \<open>unfolding rules for the Go runtime of the model\<close>
named_theorems keeps_intro \<open>introduction rules: a call keeps a predicate of the state\<close>

section \<open>Calls that may panic\<close>

datatype 'a outcome = Done 'a | Panic

type_synonym ('s, 'a) prog = "'s \<Rightarrow> 'a outcome \<times> 's"

definition ret :: "'a \<Rightarrow> ('s, 'a) prog" where
  "ret x = (\<lambda>s. (Done x, s))"

definition bnd :: "('s, 'a) prog \<Rightarrow> ('a \<Rightarrow> ('s, 'b) prog) \<Rightarrow> ('s, 'b) prog" where
  "bnd m f = (\<lambda>s. case m s of (Done x, s') \<Rightarrow> f x s' | (Panic, s') \<Rightarrow> (Panic, s'))"

definition panic :: "('s, 'a) prog" where
  "panic = (\<lambda>s. (Panic, s))"

definition lift_outcome :: "'a outcome \<Rightarrow> ('s, 'a) prog" where
  "lift_outcome r = (\<lambda>s. (r, s))"

fun map_outcome2 :: "('a \<Rightarrow> 'b outcome) \<Rightarrow> 'a outcome \<Rightarrow> 'b outcome" where
  "map_outcome2 f (Done x) = f x"
| "map_outcome2 f Panic = Panic"

lemma ret_apply [simp]: "ret x s = (Done x, s)"
  by (simp add: ret_def)

lemma panic_apply [simp]: "panic s = (Panic, s)"
  by (simp add: panic_def)

lemma lift_outcome_apply [simp]: "lift_outcome r s = (r, s)"
  by (simp add: lift_outcome_def)

lemma bnd_apply [go_simps]:
  "bnd m f s = (case m s of (Done x, s') \<Rightarrow> f x s' | (Panic, s') \<Rightarrow> (Panic, s'))"
  by (simp add: bnd_def)

lemma bnd_Done: "m s = (Done x, s') \<Longrightarrow> bnd m f s = f x s'"
  by (simp add: bnd_def)

lemma bnd_Panic: "m s = (Panic, s') \<Longrightarrow> bnd m f s = (Panic, s')"
  by (simp add: bnd_def)

lemma bnd_Done_iff:
  "bnd m f s = (Done y, t) \<longleftrightarrow> (\<exists>x s'. m s = (Done x, s') \<and> f x s' = (Done y, t))"
  by (auto simp: bnd_def split: prod.splits outcome.splits)

lemma bnd_Panic_iff:
  "bnd m f s = (Panic, t) \<longleftrightarrow>
     m s = (Panic, t) \<or> (\<exists>x s'. m s = (Done x, s') \<and> f x s' = (Panic, t))"
  by (auto simp: bnd_def split: prod.splits outcome.splits)

lemma bnd_ret [simp]: "bnd (ret x) f = f x"
  by (rule ext) (simp add: bnd_def)

lemma ret_Done_iff [simp]: "ret x s = (Done y, t) \<longleftrightarrow> y = x \<and> t = s"
  by auto

lemma bnd_assoc: "bnd (bnd m f) g = bnd m (\<lambda>x. bnd (f x) g)"
  by (rule ext) (simp add: bnd_def split: prod.splits outcome.splits)

text \<open>
  \<open>returns m s P\<close>: from the state \<open>s\<close> the call \<open>m\<close> does not panic, and \<open>P\<close> holds of the value and the
  state it returns. The rules compute it backwards through a call.

  \<open>keeps I m\<close>: whatever \<open>m\<close> returns, and also when it panics, it leads from a state with \<open>I\<close> to
  a state with \<open>I\<close>.
\<close>

definition returns :: "('s, 'a) prog \<Rightarrow> 's \<Rightarrow> ('a \<Rightarrow> 's \<Rightarrow> bool) \<Rightarrow> bool" where
  "returns m s P \<longleftrightarrow> (case m s of (Done x, t) \<Rightarrow> P x t | (Panic, t) \<Rightarrow> False)"

named_theorems wp \<open>rules that compute returns backwards\<close>

lemma returns_iff: "returns m s P \<longleftrightarrow> (\<exists>x t. m s = (Done x, t) \<and> P x t)"
  by (auto simp: returns_def split: prod.splits outcome.splits)

lemma returnsD: "returns m s P \<Longrightarrow> m s = (Done x, t) \<Longrightarrow> P x t"
  by (simp add: returns_def)

lemma returns_mono: "returns m s P \<Longrightarrow> (\<And>x t. P x t \<Longrightarrow> Q x t) \<Longrightarrow> returns m s Q"
  by (auto simp: returns_iff)

lemma returns_ret [wp]: "returns (ret x) s P \<longleftrightarrow> P x s"
  by (simp add: returns_def)

lemma returns_bnd [wp]: "returns (bnd m f) s P \<longleftrightarrow> returns m s (\<lambda>x t. returns (f x) t P)"
  by (auto simp: returns_def bnd_def split: prod.splits outcome.splits)

lemma returns_panic [wp]: "\<not> returns panic s P"
  by (simp add: returns_def)

text \<open>The simplifier may write \<open>ret x\<close> as \<open>Pair (Done x)\<close>.\<close>

lemma returns_Pair [wp]: "returns (Pair r) s P \<longleftrightarrow> (case r of Done x \<Rightarrow> P x s | Panic \<Rightarrow> False)"
  by (simp add: returns_def)

lemma bnd_Pair [simp]: "bnd (Pair (Done x)) f = f x" "bnd (Pair Panic) f = Pair Panic"
  by (simp_all add: bnd_def fun_eq_iff)

lemma returns_conj: "returns m s P \<Longrightarrow> returns m s Q \<Longrightarrow> returns m s (\<lambda>x t. P x t \<and> Q x t)"
  by (auto simp: returns_iff)

text \<open>\<open>yields m s Q\<close>: if \<open>m\<close> returns from the state \<open>s\<close>, then with \<open>Q\<close>; a panic is not excluded.\<close>

definition yields :: "('s, 'a) prog \<Rightarrow> 's \<Rightarrow> ('a \<Rightarrow> 's \<Rightarrow> bool) \<Rightarrow> bool" where
  "yields m s Q \<longleftrightarrow> (\<forall>x t. m s = (Done x, t) \<longrightarrow> Q x t)"

named_theorems yields_simps \<open>rules that compute yields backwards\<close>

lemma yieldsD: "yields m s Q \<Longrightarrow> m s = (Done x, t) \<Longrightarrow> Q x t"
  by (simp add: yields_def)

lemma yieldsI: "(\<And>x t. m s = (Done x, t) \<Longrightarrow> Q x t) \<Longrightarrow> yields m s Q"
  by (simp add: yields_def)

lemma yields_mono: "yields m s Q \<Longrightarrow> (\<And>x t. Q x t \<Longrightarrow> R x t) \<Longrightarrow> yields m s R"
  by (auto simp: yields_def)

lemma yields_conj: "yields m s Q \<Longrightarrow> yields m s R \<Longrightarrow> yields m s (\<lambda>x t. Q x t \<and> R x t)"
  by (auto simp: yields_def)

lemma yields_ret [yields_simps]: "yields (ret x) s Q \<longleftrightarrow> Q x s"
  by (simp add: yields_def)

lemma yields_Pair [yields_simps]: "yields (Pair (Done x)) s Q \<longleftrightarrow> Q x s" "yields (Pair Panic) s Q"
  by (simp_all add: yields_def)

lemma yields_bnd [yields_simps]: "yields (bnd m f) s Q \<longleftrightarrow> yields m s (\<lambda>x t. yields (f x) t Q)"
  by (auto simp: yields_def bnd_Done_iff)

lemma returns_yields: "returns m s Q \<Longrightarrow> yields m s Q"
  by (auto simp: returns_iff yields_def)

lemma yields_sum:
  "(\<And>e. v = Inl e \<Longrightarrow> yields (f e) s Q) \<Longrightarrow> (\<And>x. v = Inr x \<Longrightarrow> yields (g x) s Q) \<Longrightarrow>
     yields (case v of Inl e \<Rightarrow> f e | Inr x \<Rightarrow> g x) s Q"
  by (cases v) simp_all

lemma yields_option:
  "yields m s Q \<Longrightarrow> (\<And>x. v = Some x \<Longrightarrow> yields (f x) s Q) \<Longrightarrow> yields (case v of None \<Rightarrow> m | Some x \<Rightarrow> f x) s Q"
  by (cases v) simp_all

lemma yields_if: "(b \<Longrightarrow> yields m s Q) \<Longrightarrow> (\<not> b \<Longrightarrow> yields n s Q) \<Longrightarrow> yields (if b then m else n) s Q"
  by simp

lemma yields_any: "yields m s (\<lambda>x t. True)"
  by (simp add: yields_def)

definition keeps :: "('s \<Rightarrow> bool) \<Rightarrow> ('s, 'a) prog \<Rightarrow> bool" where
  "keeps I m \<longleftrightarrow> (\<forall>s. I s \<longrightarrow> I (snd (m s)))"

lemma keepsI: "(\<And>s. I s \<Longrightarrow> I (snd (m s))) \<Longrightarrow> keeps I m"
  by (simp add: keeps_def)

lemma keepsD: "keeps I m \<Longrightarrow> I s \<Longrightarrow> m s = (r, t) \<Longrightarrow> I t"
  unfolding keeps_def by (metis snd_conv)

lemma keeps_ret [keeps_intro]: "keeps I (ret x)"
  by (simp add: keeps_def)

lemma keeps_Pair [keeps_intro]: "keeps I (Pair r)"
  by (simp add: keeps_def)

lemma keeps_panic [keeps_intro]: "keeps I panic"
  by (simp add: keeps_def)

lemma keeps_lift_outcome [keeps_intro]: "keeps I (lift_outcome r)"
  by (simp add: keeps_def)

lemma keeps_bnd [keeps_intro]:
  "keeps I m \<Longrightarrow> (\<And>x. keeps I (f x)) \<Longrightarrow> keeps I (bnd m f)"
  unfolding keeps_def bnd_def
  by (clarsimp split: prod.split outcome.split) (metis snd_conv)

lemma keeps_if [keeps_intro]:
  "(b \<Longrightarrow> keeps I m) \<Longrightarrow> (\<not> b \<Longrightarrow> keeps I n) \<Longrightarrow> keeps I (if b then m else n)"
  by simp

lemma keeps_option [keeps_intro]:
  "keeps I m \<Longrightarrow> (\<And>x. keeps I (f x)) \<Longrightarrow> keeps I (case v of None \<Rightarrow> m | Some x \<Rightarrow> f x)"
  by (cases v) simp_all

lemma keeps_sum [keeps_intro]:
  "(\<And>e. keeps I (f e)) \<Longrightarrow> (\<And>x. keeps I (g x)) \<Longrightarrow>
     keeps I (case v of Inl e \<Rightarrow> f e | Inr x \<Rightarrow> g x)"
  by (cases v) simp_all

lemma keeps_prod [keeps_intro]:
  "(\<And>a b. keeps I (f a b)) \<Longrightarrow> keeps I (case v of (a, b) \<Rightarrow> f a b)"
  by (cases v) simp

lemma keeps_let [keeps_intro]: "keeps I (f v) \<Longrightarrow> keeps I (let x = v in f x)"
  by simp

section \<open>Errors\<close>

text \<open>
  The reason of an API status error; \<open>APIError\<close> is an error of the Kubernetes API machinery,
  \<open>IgnoredMissing\<close> the marker error of \<^verbatim>\<open>pkg/handlers/handler.go\<close>, \<open>ErrorString\<close> the result of
  \<open>fmt.Errorf\<close> without \<open>%w\<close> and \<open>Wrap msg e\<close> the result of \<open>fmt.Errorf("msg: %w", e)\<close>.
\<close>

datatype reason = NotFound | ConflictReason | OtherReason string

datatype goerror =
    APIError reason string
  | IgnoredMissing
  | ErrorString string
  | Wrap string goerror

fun ErrorMsg :: "goerror \<Rightarrow> string" where
  "ErrorMsg (APIError r m) = m"
| "ErrorMsg IgnoredMissing = ''Ignored Missing Resource''"
| "ErrorMsg (ErrorString m) = m"
| "ErrorMsg (Wrap m e) = m @ '': '' @ ErrorMsg e"

text \<open>\<open>errors.As\<close> unwraps: the API reason, and the marker, are found through any wrapping.\<close>

fun ReasonForError :: "goerror \<Rightarrow> reason option" where
  "ReasonForError (APIError r m) = Some r"
| "ReasonForError (Wrap m e) = ReasonForError e"
| "ReasonForError _ = None"

definition IsNotFound :: "goerror \<Rightarrow> bool" where
  "IsNotFound e \<longleftrightarrow> ReasonForError e = Some NotFound"

definition IsConflict :: "goerror option \<Rightarrow> bool" where
  "IsConflict e \<longleftrightarrow> (case e of None \<Rightarrow> False | Some e \<Rightarrow> ReasonForError e = Some ConflictReason)"

fun AsIgnoredMissing :: "goerror \<Rightarrow> bool" where
  "AsIgnoredMissing IgnoredMissing = True"
| "AsIgnoredMissing (Wrap m e) = AsIgnoredMissing e"
| "AsIgnoredMissing _ = False"

lemma IsNotFound_Wrap [simp]: "IsNotFound (Wrap m e) = IsNotFound e"
  by (simp add: IsNotFound_def)

lemma IsConflict_Wrap [simp]: "IsConflict (Some (Wrap m e)) = IsConflict (Some e)"
  by (simp add: IsConflict_def)

lemma IsConflict_None [simp]: "\<not> IsConflict None"
  by (simp add: IsConflict_def)

section \<open>Maps\<close>

type_synonym 'v gomap = "(string \<times> 'v) list option"

definition gm_list :: "'v gomap \<Rightarrow> (string \<times> 'v) list" where
  "gm_list m = (case m of None \<Rightarrow> [] | Some al \<Rightarrow> al)"

definition gm_lookup :: "'v gomap \<Rightarrow> string \<Rightarrow> 'v option" where
  "gm_lookup m k = map_of (gm_list m) k"

definition gm_get :: "'v \<Rightarrow> 'v gomap \<Rightarrow> string \<Rightarrow> 'v" where
  \<comment> \<open>\<open>m[k]\<close>: the zero value for a missing key\<close>
  "gm_get zero m k = (case gm_lookup m k of None \<Rightarrow> zero | Some v \<Rightarrow> v)"

definition gm_keys :: "'v gomap \<Rightarrow> string list" where
  "gm_keys m = map fst (gm_list m)"

definition gm_len :: "'v gomap \<Rightarrow> nat" where
  "gm_len m = length (gm_list m)"

definition gm_make :: "'v gomap" where
  "gm_make = Some []"

definition gm_put :: "string \<Rightarrow> 'v \<Rightarrow> 'v gomap \<Rightarrow> 'v gomap" where
  \<comment> \<open>assignment to an entry of a map that is not nil\<close>
  "gm_put k v m = Some (AList.update k v (gm_list m))"

definition gm_assign :: "'v gomap \<Rightarrow> string \<Rightarrow> 'v \<Rightarrow> 'v gomap outcome" where
  \<comment> \<open>\<open>m[k] = v\<close>: assignment to an entry of a nil map panics\<close>
  "gm_assign m k v = (case m of None \<Rightarrow> Panic | Some _ \<Rightarrow> Done (gm_put k v m))"

definition gm_delete :: "string \<Rightarrow> 'v gomap \<Rightarrow> 'v gomap" where
  "gm_delete k m = map_option (AList.delete k) m"

definition gm_ok :: "'v gomap \<Rightarrow> bool" where
  \<comment> \<open>a Go map holds a key once\<close>
  "gm_ok m \<longleftrightarrow> distinct (gm_keys m)"

definition gm_eq :: "('v \<Rightarrow> 'v \<Rightarrow> bool) \<Rightarrow> 'v gomap \<Rightarrow> 'v gomap \<Rightarrow> bool" where
  \<comment> \<open>\<open>reflect.DeepEqual\<close> on maps: both nil or both not, same keys, equal values\<close>
  "gm_eq eq m n \<longleftrightarrow> (m = None \<longleftrightarrow> n = None) \<and> gm_len m = gm_len n \<and>
     list_all (\<lambda>k. case (gm_lookup m k, gm_lookup n k) of
                     (Some u, Some v) \<Rightarrow> eq u v | _ \<Rightarrow> False) (gm_keys m)"

text \<open>\<open>for k, v := range m2 { m1[k] = v }\<close> on a map that is not nil.\<close>

definition gm_put_all :: "(string \<times> 'v) list \<Rightarrow> 'v gomap \<Rightarrow> 'v gomap" where
  "gm_put_all kvs m = fold (\<lambda>(k, v). gm_put k v) kvs m"

lemma gm_list_simps [simp]: "gm_list None = []" "gm_list (Some al) = al"
  by (simp_all add: gm_list_def)

lemma gm_lookup_None [simp]: "gm_lookup None k = None"
  by (simp add: gm_lookup_def)

lemma gm_lookup_Some [simp]: "gm_lookup (Some al) k = map_of al k"
  by (simp add: gm_lookup_def)

lemma gm_lookup_make [simp]: "gm_lookup gm_make k = None"
  by (simp add: gm_make_def)

lemma gm_lookup_put [simp]: "gm_lookup (gm_put k v m) k' = (if k' = k then Some v else gm_lookup m k')"
  by (simp add: gm_put_def gm_lookup_def update_conv')

lemma gm_put_not_nil [simp]: "gm_put k v m \<noteq> None"
  by (simp add: gm_put_def)

lemma gm_keys_put [simp]: "set (gm_keys (gm_put k v m)) = insert k (set (gm_keys m))"
  by (simp add: gm_keys_def gm_put_def dom_update)

lemma gm_lookup_delete [simp]:
  "gm_lookup (gm_delete k m) k' = (if k' = k then None else gm_lookup m k')"
  by (cases m) (simp_all add: gm_delete_def delete_conv')

lemma gm_keys_delete [simp]: "set (gm_keys (gm_delete k m)) = set (gm_keys m) - {k}"
  by (cases m) (auto simp: gm_delete_def gm_keys_def delete_keys)

lemma gm_ok_make [simp]: "gm_ok gm_make" "gm_ok None"
  by (simp_all add: gm_ok_def gm_make_def gm_keys_def)

lemma gm_ok_put [simp]: "gm_ok m \<Longrightarrow> gm_ok (gm_put k v m)"
  by (simp add: gm_ok_def gm_put_def gm_keys_def distinct_update)

lemma gm_ok_delete [simp]: "gm_ok m \<Longrightarrow> gm_ok (gm_delete k m)"
  by (cases m) (simp_all add: gm_ok_def gm_delete_def gm_keys_def distinct_delete)

lemma gm_keys_lookup: "k \<in> set (gm_keys m) \<longleftrightarrow> gm_lookup m k \<noteq> None"
  by (cases m) (auto simp: gm_keys_def map_of_eq_None_iff)

lemma gm_get_put [simp]: "gm_get z (gm_put k v m) k' = (if k' = k then v else gm_get z m k')"
  by (simp add: gm_get_def)

lemma gm_assign_Done [simp]: "m \<noteq> None \<Longrightarrow> gm_assign m k v = Done (gm_put k v m)"
  by (auto simp: gm_assign_def)

lemma gm_assign_nil [simp]: "gm_assign None k v = Panic"
  by (simp add: gm_assign_def)

lemma gm_delete_nil [simp]: "gm_delete k m = None \<longleftrightarrow> m = None"
  by (simp add: gm_delete_def)

lemma gm_put_all_Nil [simp]: "gm_put_all [] m = m"
  by (simp add: gm_put_all_def)

lemma gm_put_all_Cons [simp]: "gm_put_all ((k, v) # kvs) m = gm_put_all kvs (gm_put k v m)"
  by (simp add: gm_put_all_def)

lemma gm_put_all_keys [simp]: "set (gm_keys (gm_put_all kvs m)) = fst ` set kvs \<union> set (gm_keys m)"
  by (induction kvs arbitrary: m) force+

lemma gm_put_all_ok [simp]: "gm_ok m \<Longrightarrow> gm_ok (gm_put_all kvs m)"
  by (induction kvs arbitrary: m) auto

lemma gm_len_zero: "gm_len m = 0 \<longleftrightarrow> gm_keys m = []"
  by (simp add: gm_len_def gm_keys_def)

lemma gm_len_card: "gm_ok m \<Longrightarrow> gm_len m = card (set (gm_keys m))"
  using distinct_card [of "gm_keys m"] by (simp add: gm_ok_def gm_len_def gm_keys_def)

subsection \<open>The map interface\<close>

text \<open>
  What the components use of a map: what a lookup finds after an assignment and after a deletion.
  The laws on a key that is assigned twice, and on loops that assign many keys, follow from these.
\<close>

locale go_map =
  fixes lookup :: "'m \<Rightarrow> string \<Rightarrow> 'v option"
    and put :: "string \<Rightarrow> 'v \<Rightarrow> 'm \<Rightarrow> 'm"
    and del :: "string \<Rightarrow> 'm \<Rightarrow> 'm"
  assumes lookup_put_law: "lookup (put k v m) k' = (if k' = k then Some v else lookup m k')"
    and lookup_del_law: "lookup (del k m) k' = (if k' = k then None else lookup m k')"
begin

lemma put_loop_notin:
  "k \<notin> fst ` set kvs \<Longrightarrow> lookup (fold (\<lambda>(k, v). put k v) kvs m) k = lookup m k"
  by (induction kvs arbitrary: m) (auto simp: lookup_put_law)

lemma put_loop:
  "distinct (map fst kvs) \<Longrightarrow>
   lookup (fold (\<lambda>(k, v). put k v) kvs m) k =
     (case map_of kvs k of Some v \<Rightarrow> Some v | None \<Rightarrow> lookup m k)"
proof (induction kvs arbitrary: m)
  case (Cons kv kvs)
  obtain k' v' where kv: "kv = (k', v')" by (cases kv)
  show ?case
  proof (cases "k = k'")
    case True
    with Cons.prems kv have "k \<notin> fst ` set kvs" by auto
    with True kv show ?thesis by (simp add: put_loop_notin lookup_put_law)
  next
    case False
    with Cons kv show ?thesis by (simp add: lookup_put_law split: option.split)
  qed
qed simp

lemma del_loop:
  "lookup (fold del ks m) k = (if k \<in> set ks then None else lookup m k)"
  by (induction ks arbitrary: m) (auto simp: lookup_del_law)

lemma put_loop_order:
  assumes "distinct (map fst kvs)" and "distinct (map fst kvs')" and "set kvs = set kvs'"
  shows "lookup (fold (\<lambda>(k, v). put k v) kvs m) k = lookup (fold (\<lambda>(k, v). put k v) kvs' m) k"
proof -
  from assms have "map_of kvs = map_of kvs'"
    by (metis map_of_inject_set)
  with assms(1,2) show ?thesis by (simp add: put_loop)
qed

end

interpretation gm: go_map gm_lookup gm_put gm_delete
  by unfold_locales simp_all

lemma gm_lookup_put_all:
  "distinct (map fst kvs) \<Longrightarrow>
   gm_lookup (gm_put_all kvs m) k =
     (case map_of kvs k of Some v \<Rightarrow> Some v | None \<Rightarrow> gm_lookup m k)"
  unfolding gm_put_all_def by (rule gm.put_loop)

lemma gm_put_all_not_nil: "m \<noteq> None \<Longrightarrow> gm_put_all kvs m \<noteq> None"
  by (induction kvs arbitrary: m) (auto simp: gm_put_all_def gm_put_def)

lemma map_outcome2_Done: "map_outcome2 f r = Done y \<longleftrightarrow> (\<exists>x. r = Done x \<and> f x = Done y)"
  by (cases r) auto

lemma map_outcome2_Panic: "map_outcome2 f r = Panic \<longleftrightarrow> r = Panic \<or> (\<exists>x. r = Done x \<and> f x = Panic)"
  by (cases r) auto

lemma gm_assign_iff: "gm_assign m k v = Done m' \<longleftrightarrow> m \<noteq> None \<and> m' = gm_put k v m"
  by (auto simp: gm_assign_def split: option.split)

lemma gm_assign_Panic: "gm_assign m k v = Panic \<longleftrightarrow> m = None"
  by (auto simp: gm_assign_def split: option.split)

lemmas outcome_iffs = map_outcome2_Done map_outcome2_Panic gm_assign_iff gm_assign_Panic

section \<open>Strings\<close>

definition HasPrefix :: "string \<Rightarrow> string \<Rightarrow> bool" where
  "HasPrefix s p \<longleftrightarrow> length p \<le> length s \<and> take (length p) s = p"

lemma HasPrefix_prefix: "HasPrefix s p \<longleftrightarrow> prefix p s"
  by (auto simp: HasPrefix_def prefix_def) (metis append_take_drop_id)

lemma HasPrefix_append [simp]: "HasPrefix (p @ s) p"
  by (simp add: HasPrefix_def)

lemma HasPrefix_trans: "HasPrefix s q \<Longrightarrow> HasPrefix q p \<Longrightarrow> HasPrefix s p"
  by (auto simp: HasPrefix_prefix)

text \<open>\<open>strings.Split\<close> with a separator of one byte, and \<open>strings.Join\<close>.\<close>

fun Split :: "char \<Rightarrow> string \<Rightarrow> string list" where
  "Split c [] = [[]]"
| "Split c (x # xs) =
     (if x = c then [] # Split c xs
      else case Split c xs of [] \<Rightarrow> [[x]] | p # ps \<Rightarrow> (x # p) # ps)"

fun Join :: "char \<Rightarrow> string list \<Rightarrow> string" where
  "Join c [] = []"
| "Join c [s] = s"
| "Join c (s # t # ts) = s @ c # Join c (t # ts)"

text \<open>\<open>strings.SplitN(s, sep, 2)\<close>: at most one split, at the first separator.\<close>

fun SplitN2 :: "char \<Rightarrow> string \<Rightarrow> string list" where
  "SplitN2 c s = (if c \<in> set s
     then [takeWhile (\<lambda>x. x \<noteq> c) s, tl (dropWhile (\<lambda>x. x \<noteq> c) s)] else [s])"

lemma Split_nonempty [simp]: "Split c s \<noteq> []"
  by (induction s) (auto split: list.splits)

lemma Join_Cons: "ts \<noteq> [] \<Longrightarrow> Join c (s # ts) = s @ c # Join c ts"
  by (cases ts) simp_all

lemma Join_Split [simp]: "Join c (Split c s) = s"
proof (induction s)
  case (Cons x s)
  obtain p ps where ps: "Split c s = p # ps"
    using Split_nonempty [of c s] by (cases "Split c s") auto
  with Cons show ?case by (cases ps) (auto simp: Join_Cons)
qed simp

lemma Split_no_sep: "c \<notin> set s \<Longrightarrow> Split c s = [s]"
  by (induction s) auto

lemma Split_append_sep: "c \<notin> set s \<Longrightarrow> Split c (s @ c # t) = s # Split c t"
  by (induction s) auto

lemma Split_Join: "ts \<noteq> [] \<Longrightarrow> \<forall>t \<in> set ts. c \<notin> set t \<Longrightarrow> Split c (Join c ts) = ts"
proof (induction ts rule: induct_list012)
  case (3 s t ts)
  then have "Split c (Join c (t # ts)) = t # ts" by simp
  with 3 show ?case by (simp add: Split_append_sep)
qed (auto simp: Split_no_sep)

lemma Split_parts: "t \<in> set (Split c s) \<Longrightarrow> c \<notin> set t"
proof (induction s arbitrary: t)
  case (Cons x s)
  obtain p ps where "Split c s = p # ps"
    using Split_nonempty [of c s] by (cases "Split c s") auto
  with Cons show ?case by (auto split: if_splits)
qed simp

lemma SplitN2_append: "c \<notin> set s \<Longrightarrow> SplitN2 c (s @ c # t) = [s, t]"
  by (simp add: takeWhile_append)

text \<open>
  Names joined by a separator that the first part does not contain can be told apart.
\<close>

lemma sep_inject:
  fixes a b :: string
  assumes "c \<notin> set a" and "c \<notin> set a'" and "a @ c # b = a' @ c # b'"
  shows "a = a' \<and> b = b'"
  using assms SplitN2_append [of c a b] SplitN2_append [of c a' b'] by simp

text \<open>The verbs of \<open>fmt\<close>: \<open>%d\<close> on a length, \<open>%s\<close> on a slice, \<open>%q\<close> on printable ASCII.\<close>

fun show_nat :: "nat \<Rightarrow> string" where
  "show_nat n = (if n < 10 then [char_of (48 + n)]
     else show_nat (n div 10) @ [char_of (48 + n mod 10)])"

declare show_nat.simps [simp del]

definition show_slice :: "string list \<Rightarrow> string" where
  "show_slice xs = ''['' @ Join (CHR '' '') xs @ '']''"

definition go_quote :: "string \<Rightarrow> string" where
  "go_quote s = CHR 0x22 # concat (map (\<lambda>c. if c = CHR 0x22 \<or> c = CHR 0x5C then [CHR 0x5C, c] else [c]) s)
     @ [CHR 0x22]"

section \<open>Slices\<close>

text \<open>\<open>slices.Contains\<close> of \<^verbatim>\<open>k8s.io/utils/strings/slices\<close> on a slice of strings.\<close>

abbreviation Contains :: "string list \<Rightarrow> string \<Rightarrow> bool" where
  "Contains xs x \<equiv> x \<in> set xs"

end
