(* ===== verification/API_Types.thy ===== *)
theory API_Types
  imports Prelude
begin

text \<open>
  The custom resource of \<^verbatim>\<open>api/v1alpha1/dynamicenv_types.go\<close> and the constants of
  \<^verbatim>\<open>pkg/names/constants.go\<close>: the statuses and their string forms, the spec, the status and the
  messages collected during a reconcile loop. Field names carry a prefix for their struct.
  Timestamps are integers. \<open>metav1.Now()\<close> is an argument of the operations that call it.
\<close>

section \<open>Constants\<close>

definition DynamicEnvLabel :: string where "DynamicEnvLabel = ''dynamic-env''"
definition DeleteDeployments :: string where "DeleteDeployments = ''DeleteDeployments''"
definition DeleteDestinationRules :: string where "DeleteDestinationRules = ''DeleteDestinationRules''"
definition CleanupVirtualServices :: string where "CleanupVirtualServices = ''CleanupVirtualServices''"
definition VirtualServiceRoutePrefix :: string where
  "VirtualServiceRoutePrefix = ''dynamic-environment''"

lemmas names_defs = DynamicEnvLabel_def DeleteDeployments_def DeleteDestinationRules_def
  CleanupVirtualServices_def VirtualServiceRoutePrefix_def

section \<open>Statuses\<close>

text \<open>
  \<open>LifeCycleStatus\<close> and \<open>GlobalReadyStatus\<close> are string types: besides the named constants every
  string is a value, the zero value (the empty string) in particular.
\<close>

type_synonym LifeCycleStatus = string
type_synonym GlobalReadyStatus = string

definition Unknown :: LifeCycleStatus where "Unknown = ''unknown''"
definition Initializing :: LifeCycleStatus where "Initializing = ''initializing''"
definition Running :: LifeCycleStatus where "Running = ''running''"
definition Failed :: LifeCycleStatus where "Failed = ''failed''"
definition Missing :: LifeCycleStatus where "Missing = ''missing''"
definition Updating :: LifeCycleStatus where "Updating = ''updating''"
definition Removing :: LifeCycleStatus where "Removing = ''removing''"
definition IgnoredMissingDR :: LifeCycleStatus where
  "IgnoredMissingDR = ''ignored-missing-destination-rule''"
definition IgnoredMissingVS :: LifeCycleStatus where
  "IgnoredMissingVS = ''ignored-missing-virtual-service''"

definition Degraded :: GlobalReadyStatus where "Degraded = ''degraded''"
definition Ready :: GlobalReadyStatus where "Ready = ''ready''"
definition Processing :: GlobalReadyStatus where "Processing = ''processing''"

lemmas lifecycle_defs = Unknown_def Initializing_def Running_def Failed_def Missing_def
  Updating_def Removing_def IgnoredMissingDR_def IgnoredMissingVS_def
lemmas global_defs = Degraded_def Ready_def Processing_def

datatype SubsetOrConsumer = SUBSET | CONSUMER

definition LifeCycleStatus_String :: "LifeCycleStatus \<Rightarrow> string" where
  "LifeCycleStatus_String s =
     (let defaultResult = Unknown in
      if s = Unknown then defaultResult
      else if s = Initializing then Initializing
      else if s = Running then Running
      else if s = Failed then Failed
      else if s = Missing then Missing
      else if s = Updating then Updating
      else if s = Removing then Removing
      else if s = IgnoredMissingDR then IgnoredMissingDR
      else if s = IgnoredMissingVS then IgnoredMissingVS
      else defaultResult)"

definition ParseLifeCycleStatus :: "string \<Rightarrow> LifeCycleStatus" where
  "ParseLifeCycleStatus s =
     (if s = Initializing then Initializing
      else if s = Running then Running
      else if s = Failed then Failed
      else if s = Missing then Missing
      else if s = Updating then Updating
      else if s = Removing then Removing
      else if s = IgnoredMissingDR then IgnoredMissingDR
      else if s = IgnoredMissingVS then IgnoredMissingVS
      else Unknown)"

definition IsFailedStatus :: "LifeCycleStatus \<Rightarrow> bool" where
  "IsFailedStatus s \<longleftrightarrow> s = Missing \<or> s = Failed"

definition GlobalReadyStatus_String :: "GlobalReadyStatus \<Rightarrow> string" where
  "GlobalReadyStatus_String s =
     (if s = Degraded then Degraded
      else if s = Processing then Processing
      else if s = Ready then Ready
      else Processing)"

definition ParseGlobalReadyStatus :: "string \<Rightarrow> GlobalReadyStatus" where
  "ParseGlobalReadyStatus s =
     (if s = ''degraded'' then Degraded else if s = ''ready'' then Ready else Processing)"

text \<open>
  The JSON codec of both types: \<open>encode\<close> and \<open>decode\<close> are \<open>json.Marshal\<close> and \<open>json.Unmarshal\<close>
  on a string. Unmarshalling returns the new value of the receiver and the error.
\<close>

definition LifeCycleStatus_MarshalJSON :: "(string \<Rightarrow> string) \<Rightarrow> LifeCycleStatus \<Rightarrow> string" where
  "LifeCycleStatus_MarshalJSON encode s = encode (LifeCycleStatus_String s)"

definition LifeCycleStatus_UnmarshalJSON ::
  "(string \<Rightarrow> goerror + string) \<Rightarrow> LifeCycleStatus \<Rightarrow> string \<Rightarrow> LifeCycleStatus \<times> goerror option" where
  "LifeCycleStatus_UnmarshalJSON decode s data =
     (case decode data of
        Inl err \<Rightarrow> (s, Some err)
      | Inr status \<Rightarrow> (ParseLifeCycleStatus status, None))"

definition GlobalReadyStatus_MarshalJSON :: "(string \<Rightarrow> string) \<Rightarrow> GlobalReadyStatus \<Rightarrow> string" where
  "GlobalReadyStatus_MarshalJSON encode s = encode (GlobalReadyStatus_String s)"

definition GlobalReadyStatus_UnmarshalJSON ::
  "(string \<Rightarrow> goerror + string) \<Rightarrow> GlobalReadyStatus \<Rightarrow> string \<Rightarrow> GlobalReadyStatus \<times> goerror option" where
  "GlobalReadyStatus_UnmarshalJSON decode s data =
     (case decode data of
        Inl err \<Rightarrow> (s, Some err)
      | Inr status \<Rightarrow> (ParseGlobalReadyStatus status, None))"

section \<open>The spec\<close>

record NamespacedName =
  nn_Namespace :: string
  nn_Name :: string

record StringMatch =
  sm_Exact :: string
  sm_Prefix :: string
  sm_Regex :: string

record IstioMatch =
  im_Headers :: "StringMatch gomap"
  im_SourceLabels :: "string gomap"

text \<open>
  \<open>v1.EnvVar\<close>: \<open>ValueFrom\<close> is a pointer, and \<open>==\<close> on two variables compares the pointers. A
  pointer is its address together with what it points to.
\<close>

type_synonym EnvVarSource_ptr = "nat \<times> string"

record EnvVar =
  ev_Name :: string
  ev_Value :: string
  ev_ValueFrom :: "EnvVarSource_ptr option"

record ContainerOverrides =
  co_ContainerName :: string
  co_Image :: string
  co_Command :: "string list"
  co_Env :: "EnvVar list"

record Subset =
  sub_Name :: string
  sub_Namespace :: string
  sub_PodLabels :: "string gomap"
  sub_Replicas :: "int option"
  sub_Containers :: "ContainerOverrides list"
  sub_InitContainers :: "ContainerOverrides list"
  sub_DefaultVersion :: string

text \<open>\<open>IstioMatches\<close> is compared by \<open>reflect.DeepEqual\<close>, which tells a nil slice from an empty one.\<close>

record DynamicEnvSpec =
  spec_IstioMatches :: "IstioMatch list option"
  spec_Subsets :: "Subset list"
  spec_Consumers :: "Subset list"

definition IstioMatches_list :: "DynamicEnvSpec \<Rightarrow> IstioMatch list" where
  "IstioMatches_list sp = (case spec_IstioMatches sp of None \<Rightarrow> [] | Some ms \<Rightarrow> ms)"

section \<open>The status\<close>

record ResourceStatus =
  rs_Name :: string
  rs_Namespace :: string
  rs_Status :: LifeCycleStatus

definition ResourceStatus_zero :: ResourceStatus where
  "ResourceStatus_zero = \<lparr>rs_Name = [], rs_Namespace = [], rs_Status = []\<rparr>"

record StatusError =
  se_Error :: string
  se_LastOccurrence :: int

record SubsetErrors =
  errs_Deployment :: "StatusError list"
  errs_DestinationRule :: "StatusError list"
  errs_VirtualServices :: "StatusError list"
  errs_Subset :: "StatusError list"

definition SubsetErrors_zero :: SubsetErrors where
  "SubsetErrors_zero = \<lparr>errs_Deployment = [], errs_DestinationRule = [], errs_VirtualServices = [],
     errs_Subset = []\<rparr>"

text \<open>\<open>Hash\<close> is an \<open>int64\<close>, kept as its integer value.\<close>

record SubsetStatus =
  ss_Deployment :: ResourceStatus
  ss_DestinationRules :: "ResourceStatus list"
  ss_VirtualServices :: "ResourceStatus list"
  ss_Errors :: "SubsetErrors option"
  ss_Hash :: int

definition SubsetStatus_zero :: SubsetStatus where
  "SubsetStatus_zero = \<lparr>ss_Deployment = ResourceStatus_zero, ss_DestinationRules = [],
     ss_VirtualServices = [], ss_Errors = None, ss_Hash = 0\<rparr>"

record ConsumerStatus =
  cs_ResourceStatus :: ResourceStatus
  cs_Hash :: int
  cs_Errors :: "StatusError list"

definition ConsumerStatus_zero :: ConsumerStatus where
  "ConsumerStatus_zero = \<lparr>cs_ResourceStatus = ResourceStatus_zero, cs_Hash = 0, cs_Errors = []\<rparr>"

record DynamicEnvStatus =
  st_SubsetsStatus :: "SubsetStatus gomap"
  st_ConsumersStatus :: "ConsumerStatus gomap"
  st_State :: GlobalReadyStatus
  st_TotalCount :: int
  st_TotalReady :: int

text \<open>
  The custom resource. \<open>de_rest\<close> is what the operator carries along and never reads: the type
  meta and the remaining object meta (resource version, generation, labels and so on).
\<close>

record DynamicEnv =
  de_Name :: string
  de_Namespace :: string
  de_Finalizers :: "string list"
  de_DeletionTimestamp :: "int option"
  de_rest :: string
  de_Spec :: DynamicEnvSpec
  de_Status :: DynamicEnvStatus

definition ResourceStatus_IsEqual :: "ResourceStatus \<Rightarrow> ResourceStatus \<Rightarrow> bool" where
  "ResourceStatus_IsEqual rs other \<longleftrightarrow>
     rs_Name rs = rs_Name other \<and> rs_Namespace rs = rs_Namespace other \<and> rs_Status rs = rs_Status other"

definition NewStatusError :: "int \<Rightarrow> string \<Rightarrow> StatusError" where
  "NewStatusError now err = \<lparr>se_Error = err, se_LastOccurrence = now\<rparr>"

definition SameError :: "StatusError \<Rightarrow> StatusError \<Rightarrow> bool" where
  "SameError se other \<longleftrightarrow> se_Error se = se_Error other"

definition UpdateTime :: "int \<Rightarrow> StatusError \<Rightarrow> StatusError" where
  "UpdateTime now se = se\<lparr>se_LastOccurrence := now\<rparr>"

section \<open>Messages of one reconcile loop\<close>

record SubsetMessages =
  msgs_Deployment :: "string list"
  msgs_DestinationRule :: "string list"
  msgs_VirtualService :: "string list"
  msgs_GlobalErrors :: "string list"

definition SubsetMessages_zero :: SubsetMessages where
  "SubsetMessages_zero = \<lparr>msgs_Deployment = [], msgs_DestinationRule = [], msgs_VirtualService = [],
     msgs_GlobalErrors = []\<rparr>"

text \<open>The receiver is a value, and \<open>append\<close> on it yields the message list one longer.\<close>

definition AppendDeploymentMsg :: "SubsetMessages \<Rightarrow> string \<Rightarrow> SubsetMessages" where
  "AppendDeploymentMsg rls msg = rls\<lparr>msgs_Deployment := msgs_Deployment rls @ [msg]\<rparr>"

definition AppendDestinationRuleMsg :: "SubsetMessages \<Rightarrow> string \<Rightarrow> SubsetMessages" where
  "AppendDestinationRuleMsg rls msg = rls\<lparr>msgs_DestinationRule := msgs_DestinationRule rls @ [msg]\<rparr>"

definition AppendVirtualServiceMsg :: "SubsetMessages \<Rightarrow> string \<Rightarrow> SubsetMessages" where
  "AppendVirtualServiceMsg rls msg = rls\<lparr>msgs_VirtualService := msgs_VirtualService rls @ [msg]\<rparr>"

definition AppendGlobalMsg :: "SubsetMessages \<Rightarrow> string \<Rightarrow> SubsetMessages" where
  "AppendGlobalMsg rls msg = rls\<lparr>msgs_GlobalErrors := msgs_GlobalErrors rls @ [msg]\<rparr>"

section \<open>Lemmas\<close>

definition known_statuses :: "LifeCycleStatus list" where
  "known_statuses = [Unknown, Initializing, Running, Failed, Missing, Updating, Removing,
     IgnoredMissingDR, IgnoredMissingVS]"

lemma statuses_distinct: "distinct known_statuses"
  by (simp add: known_statuses_def lifecycle_defs)

lemma statuses_neq [simp]:
  "Unknown \<noteq> Initializing" "Unknown \<noteq> Running" "Unknown \<noteq> Failed" "Unknown \<noteq> Missing" "Unknown \<noteq> Updating"
  "Running \<noteq> Initializing" "Running \<noteq> Failed" "Running \<noteq> Missing" "Running \<noteq> Updating"
  "Initializing \<noteq> Failed" "Initializing \<noteq> Missing" "Updating \<noteq> Failed" "Updating \<noteq> Missing"
  "IgnoredMissingDR \<noteq> Failed" "IgnoredMissingDR \<noteq> Missing" "IgnoredMissingDR \<noteq> Running"
  "IgnoredMissingVS \<noteq> Failed" "IgnoredMissingVS \<noteq> Missing" "IgnoredMissingVS \<noteq> Running"
  "Removing \<noteq> Running" "Missing \<noteq> Running" "Failed \<noteq> Running"
  by (simp_all add: lifecycle_defs)

lemmas statuses_neq_sym [simp] = statuses_neq [THEN not_sym]

lemma in_known:
  assumes "s \<in> set known_statuses"
  obtains "s = Unknown" | "s = Initializing" | "s = Running" | "s = Failed" | "s = Missing"
    | "s = Updating" | "s = Removing" | "s = IgnoredMissingDR" | "s = IgnoredMissingVS"
  using assms unfolding known_statuses_def by auto

lemma LifeCycleStatus_String_known:
  "LifeCycleStatus_String s = (if s \<in> set known_statuses then s else Unknown)"
  proof (cases "s \<in> set known_statuses")
  case True
  then show ?thesis
    by (elim in_known) (simp_all add: LifeCycleStatus_String_def known_statuses_def)
next
  case False
  then show ?thesis by (simp add: LifeCycleStatus_String_def known_statuses_def)
qed

lemma ParseLifeCycleStatus_known:
  "ParseLifeCycleStatus s = (if s \<in> set known_statuses then s else Unknown)"
  proof (cases "s \<in> set known_statuses")
  case True
  then show ?thesis
    by (elim in_known) (simp_all add: ParseLifeCycleStatus_def known_statuses_def)
next
  case False
  then show ?thesis by (simp add: ParseLifeCycleStatus_def known_statuses_def)
qed

lemma GlobalReadyStatus_String_known:
  "GlobalReadyStatus_String s = (if s \<in> {Degraded, Ready} then s else Processing)"
  by (auto simp: GlobalReadyStatus_String_def)

lemma ParseGlobalReadyStatus_known:
  "ParseGlobalReadyStatus s = (if s \<in> {Degraded, Ready} then s else Processing)"
  by (auto simp: ParseGlobalReadyStatus_def global_defs)

lemma ResourceStatus_eta [simp]:
  "\<lparr>rs_Name = rs_Name r, rs_Namespace = rs_Namespace r, rs_Status = rs_Status r\<rparr> = r"
  by simp

lemma ResourceStatus_IsEqual_iff [simp]: "ResourceStatus_IsEqual a b \<longleftrightarrow> a = b"
  by (auto simp: ResourceStatus_IsEqual_def)

end
