(* ===== verification/Sha256.thy ===== *)
theory Sha256
  imports Prelude "HOL-Library.Word"
begin

unbundle bit_operations_syntax

text \<open>
  \<open>AsSha256\<close> of \<^verbatim>\<open>pkg/helpers/helpers.go\<close>, with what it uses of the standard library: \<open>crypto/sha256\<close> (FIPS 180-4) on 32-bit
  words, where addition wraps, and the verb \<open>%x\<close>. The text that \<open>%v\<close> renders of a value is the argument.
\<close>

section \<open>SHA-256\<close>

type_synonym byte = "8 word"
type_synonym w32 = "32 word"

text \<open>
  The constants are the first 32 bits of the fractional parts of roots of the first primes: cube roots for the rounds, square
  roots for the initial state. \<open>root_bits e b r n\<close> finds the lower \<open>b\<close> bits of the integer part of the \<open>e\<close>-th root of \<open>n\<close>.
\<close>

fun root_bits :: "nat \<Rightarrow> nat \<Rightarrow> int \<Rightarrow> int \<Rightarrow> int" where
  "root_bits e 0 r n = r"
| "root_bits e (Suc b) r n = root_bits e b (if (r + 2 ^ b) ^ e \<le> n then r + 2 ^ b else r) n"

definition fraction :: "nat \<Rightarrow> int \<Rightarrow> w32" where
  "fraction e p = of_int (root_bits e 37 0 (p * 2 ^ (32 * e)))"

definition sha_primes :: "int list" where
  "sha_primes = [2, 3, 5, 7, 11, 13, 17, 19, 23, 29, 31, 37, 41, 43, 47, 53, 59, 61, 67, 71, 73, 79,
     83, 89, 97, 101, 103, 107, 109, 113, 127, 131, 137, 139, 149, 151, 157, 163, 167, 173, 179, 181, 191, 193,
     197, 199, 211, 223, 227, 229, 233, 239, 241, 251, 257, 263, 269, 271, 277, 281, 283, 293, 307, 311]"

definition sha_K :: "w32 list" where
  "sha_K = map (fraction 3) sha_primes"

record sha_state =
  sha_a :: w32
  sha_b :: w32
  sha_c :: w32
  sha_d :: w32
  sha_e :: w32
  sha_f :: w32
  sha_g :: w32
  sha_h :: w32

definition sha_init :: sha_state where
  "sha_init = \<lparr>sha_a = fraction 2 2, sha_b = fraction 2 3, sha_c = fraction 2 5, sha_d = fraction 2 7,
     sha_e = fraction 2 11, sha_f = fraction 2 13, sha_g = fraction 2 17, sha_h = fraction 2 19\<rparr>"

definition rotr :: "nat \<Rightarrow> w32 \<Rightarrow> w32" where
  "rotr n x = drop_bit n x OR push_bit (32 - n) x"

definition sha_pad :: "byte list \<Rightarrow> byte list" where
  "sha_pad msg = msg @ [0x80] @ replicate ((119 - length msg mod 64) mod 64) 0 @
     map (\<lambda>i. ucast (drop_bit (8 * i) (of_nat (8 * length msg) :: 64 word))) (rev [0..<8])"

fun sha_words :: "byte list \<Rightarrow> w32 list" where
  "sha_words (a # b # c # d # bs) =
     (push_bit 24 (ucast a) OR push_bit 16 (ucast b) OR push_bit 8 (ucast c) OR ucast d) # sha_words bs"
| "sha_words _ = []"

fun sha_extend :: "nat \<Rightarrow> w32 list \<Rightarrow> w32 list" where
  \<comment> \<open>the list holds the last 16 words, the most recent one first\<close>
  "sha_extend 0 ws = []"
| "sha_extend (Suc n) ws =
     (let w15 = ws ! 14; w2 = ws ! 1;
          s0 = rotr 7 w15 XOR rotr 18 w15 XOR drop_bit 3 w15;
          s1 = rotr 17 w2 XOR rotr 19 w2 XOR drop_bit 10 w2;
          w = ws ! 15 + s0 + ws ! 6 + s1
      in w # sha_extend n (w # butlast ws))"

definition sha_schedule :: "w32 list \<Rightarrow> w32 list" where
  "sha_schedule ws = ws @ sha_extend 48 (rev ws)"

definition sha_round :: "w32 \<times> w32 \<Rightarrow> sha_state \<Rightarrow> sha_state" where
  "sha_round kw s =
     (let e = sha_e s; a = sha_a s;
          S1 = rotr 6 e XOR rotr 11 e XOR rotr 25 e;
          ch = (e AND sha_f s) XOR (NOT e AND sha_g s);
          t1 = sha_h s + S1 + ch + fst kw + snd kw;
          S0 = rotr 2 a XOR rotr 13 a XOR rotr 22 a;
          maj = (a AND sha_b s) XOR (a AND sha_c s) XOR (sha_b s AND sha_c s)
      in \<lparr>sha_a = t1 + (S0 + maj), sha_b = a, sha_c = sha_b s, sha_d = sha_c s,
          sha_e = sha_d s + t1, sha_f = e, sha_g = sha_f s, sha_h = sha_g s\<rparr>)"

definition sha_block :: "sha_state \<Rightarrow> w32 list \<Rightarrow> sha_state" where
  "sha_block s ws =
     (let t = fold sha_round (zip sha_K (sha_schedule ws)) s
      in \<lparr>sha_a = sha_a s + sha_a t, sha_b = sha_b s + sha_b t, sha_c = sha_c s + sha_c t, sha_d = sha_d s + sha_d t,
          sha_e = sha_e s + sha_e t, sha_f = sha_f s + sha_f t, sha_g = sha_g s + sha_g t, sha_h = sha_h s + sha_h t\<rparr>)"

function sha_blocks :: "sha_state \<Rightarrow> w32 list \<Rightarrow> sha_state" where
  "sha_blocks s ws = (if ws = [] then s else sha_blocks (sha_block s (take 16 ws)) (drop 16 ws))"
  by auto
termination by (relation "measure (\<lambda>(s, ws). length ws)") auto

declare sha_blocks.simps [simp del]

definition sha_digest :: "sha_state \<Rightarrow> w32 list" where
  "sha_digest s = [sha_a s, sha_b s, sha_c s, sha_d s, sha_e s, sha_f s, sha_g s, sha_h s]"

definition Sum256 :: "byte list \<Rightarrow> w32 list" where
  \<comment> \<open>the 32 bytes of the digest, as eight big-endian words\<close>
  "Sum256 msg = sha_digest (sha_blocks sha_init (sha_words (sha_pad msg)))"

section \<open>AsSha256\<close>

definition hex_digit :: "nat \<Rightarrow> char" where
  "hex_digit d = ''0123456789abcdef'' ! d"

definition hex_word :: "w32 \<Rightarrow> string" where
  "hex_word w = map (\<lambda>i. hex_digit (unat (take_bit 4 (drop_bit (4 * i) w)))) (rev [0..<8])"

definition AsSha256 :: "string \<Rightarrow> string" where
  "AsSha256 text = concat (map hex_word (Sum256 (map of_char text)))"

text \<open>The one-block test vector of the standard.\<close>

lemma AsSha256_abc: "AsSha256 ''abc'' = ''ba7816bf8f01cfea414140de5dae2223b00361a396177a9cb410ff61f20015ad''"
  by code_simp

text \<open>Evaluation takes the test vector from here instead of computing it again.\<close>

lemma AsSha256_code [code]:
  "AsSha256 text =
     (if text = ''abc'' then ''ba7816bf8f01cfea414140de5dae2223b00361a396177a9cb410ff61f20015ad''
      else concat (map hex_word (Sum256 (map of_char text))))"
  by (simp add: AsSha256_abc) (simp add: AsSha256_def)

lemma hex_word_form: "length (hex_word w) = 8 \<and> set (hex_word w) \<subseteq> set ''0123456789abcdef''"
proof -
  have "hex_digit (unat (take_bit 4 v)) \<in> set ''0123456789abcdef''" for v :: w32
  proof -
    have "unat (take_bit 4 v) < 2 ^ 4" by (simp add: unsigned_take_bit_eq take_bit_nat_less_exp del: power_numeral)
    then show ?thesis unfolding hex_digit_def by (intro nth_mem) simp
  qed
  then show ?thesis by (auto simp: hex_word_def)
qed

text \<open>The digest is 64 hexadecimal digits, whatever the text is.\<close>

lemma AsSha256_form: "length (AsSha256 text) = 64 \<and> set (AsSha256 text) \<subseteq> set ''0123456789abcdef''"
  using hex_word_form by (auto simp: AsSha256_def Sum256_def sha_digest_def)

end
