(* ===== verification/Helpers.thy ===== *)
theory Helpers
  imports API_Types Sha256
begin

text \<open>
  The helpers of \<^verbatim>\<open>pkg/helpers\<close>: names and prefixes (\<^verbatim>\<open>helpers.go\<close>), host matching and the merge
  of environment variables (\<^verbatim>\<open>k8s_helpers.go\<close>). \<open>AsSha256\<close> is in the theory \<open>Sha256\<close>.

  The lemmas say which names can be told apart, which cannot, and what the merge keeps.
\<close>

section \<open>Slices and names\<close>

fun RemoveItemFromStringSlice :: "string \<Rightarrow> string list \<Rightarrow> string list" where
  "RemoveItemFromStringSlice s [] = []"
| "RemoveItemFromStringSlice s (item # slc) =
     (if s \<noteq> item then item # RemoveItemFromStringSlice s slc else RemoveItemFromStringSlice s slc)"

definition Shorten :: "string \<Rightarrow> nat \<Rightarrow> string" where
  "Shorten msg len = (if length msg \<le> len then msg else take len msg)"

definition UniqueDynamicEnvName :: "NamespacedName \<Rightarrow> string" where
  "UniqueDynamicEnvName ident =
     (let name = nn_Name ident;
          ns = nn_Namespace ident;
          name = (if length name > 40 then take 40 name else name);
          ns = (if length ns > 20 then take 20 ns else ns)
      in ns @ ''-'' @ name)"

fun CommonValueExists :: "string list \<Rightarrow> string list \<Rightarrow> bool" where
  "CommonValueExists l1 [] = False"
| "CommonValueExists l1 (s # l2) = (if Contains l1 s then True else CommonValueExists l1 l2)"

definition MKSubsetName :: "Subset \<Rightarrow> string" where
  "MKSubsetName sbst = sub_Namespace sbst @ ''/'' @ sub_Name sbst"

definition MkResourceName :: "NamespacedName \<Rightarrow> string" where
  "MkResourceName ident = nn_Namespace ident @ ''/'' @ nn_Name ident"

definition MkSubsetUniqueName :: "string \<Rightarrow> string \<Rightarrow> string" where
  "MkSubsetUniqueName name version = name @ ''-'' @ version"

section \<open>Hosts and prefixes\<close>

definition MatchNamespacedHost :: "string \<Rightarrow> string \<Rightarrow> string \<Rightarrow> string \<Rightarrow> bool" where
  "MatchNamespacedHost hostname namespace matchedHost inNamespace \<longleftrightarrow>
     (let shortNameEqual = (hostname = matchedHost \<and> namespace = inNamespace);
          fqdnEqual = (hostname @ ''.'' @ namespace @ ''.svc.cluster.local'' = matchedHost)
      in shortNameEqual \<or> fqdnEqual)"

definition CalculateVirtualServicePrefix :: "string \<Rightarrow> string \<Rightarrow> string" where
  "CalculateVirtualServicePrefix version sbst =
     (let subsetPart = (if length sbst > 0 then sbst else [])
      in VirtualServiceRoutePrefix @ ''-'' @ version @ ''-'' @ subsetPart)"

section \<open>Environment variables\<close>

text \<open>
  \<open>DeepCopy\<close> allocates: the copy's pointer has a new address. \<open>next_addr\<close> is an address above all
  those of the given variables, and the merge takes one new address per copy it makes.
\<close>

definition EnvVar_DeepCopy :: "nat \<Rightarrow> EnvVar \<Rightarrow> EnvVar" where
  "EnvVar_DeepCopy a env = env\<lparr>ev_ValueFrom := map_option (\<lambda>(_, src). (a, src)) (ev_ValueFrom env)\<rparr>"

fun ptr_addr :: "EnvVar \<Rightarrow> nat" where
  "ptr_addr env = (case ev_ValueFrom env of None \<Rightarrow> 0 | Some (a, _) \<Rightarrow> a)"

definition next_addr :: "EnvVar list \<Rightarrow> nat" where
  "next_addr envs = Suc (foldr max (map ptr_addr envs) 0)"

fun fetchEnvVar :: "nat \<Rightarrow> EnvVar list \<Rightarrow> string \<Rightarrow> bool \<times> EnvVar" where
  "fetchEnvVar a [] name = (False, \<lparr>ev_Name = [], ev_Value = [], ev_ValueFrom = None\<rparr>)"
| "fetchEnvVar a (env # envs) name =
     (if ev_Name env = name then (True, EnvVar_DeepCopy a env) else fetchEnvVar a envs name)"

fun EnvVarContains :: "EnvVar list \<Rightarrow> EnvVar \<Rightarrow> bool" where
  "EnvVarContains [] env = False"
| "EnvVarContains (e # envs) env = (if e = env then True else EnvVarContains envs env)"

fun merge_current :: "nat \<Rightarrow> EnvVar list \<Rightarrow> EnvVar list \<Rightarrow> EnvVar list" where
  "merge_current a overrides [] = []"
| "merge_current a overrides (env # current) =
     (let (exists, overridingEnv) = fetchEnvVar a overrides (ev_Name env)
      in (if exists then overridingEnv else EnvVar_DeepCopy a env)
           # merge_current (Suc a) overrides current)"

fun append_overrides :: "nat \<Rightarrow> EnvVar list \<Rightarrow> EnvVar list \<Rightarrow> EnvVar list" where
  "append_overrides a newEnv [] = newEnv"
| "append_overrides a newEnv (env # overrides) =
     (if \<not> EnvVarContains newEnv env
      then append_overrides (Suc a) (newEnv @ [EnvVar_DeepCopy a env]) overrides
      else append_overrides a newEnv overrides)"

definition MergeEnvVars :: "EnvVar list \<Rightarrow> EnvVar list \<Rightarrow> EnvVar list" where
  "MergeEnvVars current overrides =
     (let a = next_addr (current @ overrides)
      in append_overrides (a + length current) (merge_current a overrides current) overrides)"

section \<open>Lemmas on names and hosts\<close>

lemma RemoveItem_filter: "RemoveItemFromStringSlice s slc = filter (\<lambda>item. item \<noteq> s) slc"
  by (induction slc) auto

lemma CommonValueExists_iff: "CommonValueExists l1 l2 \<longleftrightarrow> set l1 \<inter> set l2 \<noteq> {}"
  by (induction l2) auto

lemma Shorten_take: "Shorten msg len = take len msg"
  by (simp add: Shorten_def)

lemma UniqueDynamicEnvName_take:
  "UniqueDynamicEnvName ident = take 20 (nn_Namespace ident) @ ''-'' @ take 40 (nn_Name ident)"
  by (simp add: UniqueDynamicEnvName_def Let_def)

lemma Prefix_append:
  "CalculateVirtualServicePrefix version sbst = VirtualServiceRoutePrefix @ ''-'' @ version @ ''-'' @ sbst"
  by (simp add: CalculateVirtualServicePrefix_def)

lemma Prefix_subset_of_env:
  "HasPrefix (CalculateVirtualServicePrefix version sbst) (CalculateVirtualServicePrefix version [])"
  by (simp add: Prefix_append HasPrefix_prefix)

lemma MatchNamespacedHost_iff:
  "MatchNamespacedHost hostname namespace matchedHost inNamespace \<longleftrightarrow>
     (matchedHost = hostname \<and> inNamespace = namespace) \<or>
     matchedHost = hostname @ ''.'' @ namespace @ ''.svc.cluster.local''"
  by (auto simp: MatchNamespacedHost_def)

lemma MKSubsetName_inject:
  assumes "CHR ''/'' \<notin> set (sub_Namespace s)" and "CHR ''/'' \<notin> set (sub_Namespace t)"
  shows "MKSubsetName s = MKSubsetName t \<longleftrightarrow>
           sub_Namespace s = sub_Namespace t \<and> sub_Name s = sub_Name t"
  using sep_inject [OF assms, of "sub_Name s" "sub_Name t"] by (auto simp: MKSubsetName_def)

section \<open>Lemmas on the merge\<close>

text \<open>What is left of a variable when the address of its pointer is forgotten.\<close>

definition env_content :: "EnvVar \<Rightarrow> string \<times> string \<times> string option" where
  "env_content e = (ev_Name e, ev_Value e, map_option snd (ev_ValueFrom e))"

lemma DeepCopy_Name [simp]: "ev_Name (EnvVar_DeepCopy a e) = ev_Name e"
  by (simp add: EnvVar_DeepCopy_def)

lemma DeepCopy_content [simp]: "env_content (EnvVar_DeepCopy a e) = env_content e"
  by (cases "ev_ValueFrom e") (auto simp: EnvVar_DeepCopy_def env_content_def)

lemma DeepCopy_plain: "ev_ValueFrom e = None \<Longrightarrow> EnvVar_DeepCopy a e = e"
  by (simp add: EnvVar_DeepCopy_def)

lemma content_Name: "env_content e = env_content e' \<Longrightarrow> ev_Name e = ev_Name e'"
  by (simp add: env_content_def)

lemma fetchEnvVar_find:
  "fetchEnvVar a envs name =
     (case find (\<lambda>e. ev_Name e = name) envs of
        None \<Rightarrow> (False, \<lparr>ev_Name = [], ev_Value = [], ev_ValueFrom = None\<rparr>)
      | Some e \<Rightarrow> (True, EnvVar_DeepCopy a e))"
  by (induction envs) auto

lemma EnvVarContains_set [simp]: "EnvVarContains envs env \<longleftrightarrow> env \<in> set envs"
  by (induction envs) auto

lemma find_name: "find (\<lambda>e. ev_Name e = n) es = Some e \<Longrightarrow> ev_Name e = n \<and> e \<in> set es"
  by (auto simp: find_Some_iff)

lemma merge_current_Cons:
  "merge_current a ov (e # cur) =
     EnvVar_DeepCopy a (case find (\<lambda>o'. ev_Name o' = ev_Name e) ov of None \<Rightarrow> e | Some o' \<Rightarrow> o')
       # merge_current (Suc a) ov cur"
  by (auto simp: fetchEnvVar_find split: option.splits)

declare merge_current.simps(2) [simp del]

lemma merge_current_names [simp]: "map ev_Name (merge_current a ov cur) = map ev_Name cur"
  by (induction cur arbitrary: a) (auto simp: merge_current_Cons split: option.splits dest: find_name)

lemma merge_current_content:
  "map env_content (merge_current a ov cur) =
     map (\<lambda>e. env_content (case find (\<lambda>o'. ev_Name o' = ev_Name e) ov of None \<Rightarrow> e | Some o' \<Rightarrow> o')) cur"
  by (induction cur arbitrary: a) (auto simp: merge_current_Cons)

lemma append_overrides_prefix: "\<exists>ys. append_overrides a new ov = new @ ys \<and> set (map ev_Name ys) \<subseteq> ev_Name ` set ov"
proof (induction ov arbitrary: a new)
  case (Cons e ov)
  show ?case
  proof (cases "e \<in> set new")
    case True
    with Cons.IH [of a new] show ?thesis by auto
  next
    case False
    obtain ys where "append_overrides (Suc a) (new @ [EnvVar_DeepCopy a e]) ov
        = (new @ [EnvVar_DeepCopy a e]) @ ys" "set (map ev_Name ys) \<subseteq> ev_Name ` set ov"
      using Cons.IH [of "Suc a" "new @ [EnvVar_DeepCopy a e]"] by auto
    with False show ?thesis by (intro exI [of _ "EnvVar_DeepCopy a e # ys"]) auto
  qed
qed simp

lemma append_overrides_has:
  "e \<in> set ov \<Longrightarrow> env_content e \<in> env_content ` set (append_overrides a new ov)"
proof (induction ov arbitrary: a new)
  case (Cons e' ov)
  let ?new = "if e' \<in> set new then new else new @ [EnvVar_DeepCopy a e']"
  let ?a = "if e' \<in> set new then a else Suc a"
  have step: "append_overrides a new (e' # ov) = append_overrides ?a ?new ov" by simp
  obtain ys where ys: "append_overrides ?a ?new ov = ?new @ ys"
    using append_overrides_prefix by blast
  have "env_content e' \<in> env_content ` set ?new" by (auto simp: image_iff)
  with step ys have "env_content e' \<in> env_content ` set (append_overrides a new (e' # ov))"
    by (metis image_Un set_append UnI1)
  with Cons step show ?case by auto
qed simp

lemma append_overrides_from:
  "e \<in> set (append_overrides a new ov) \<Longrightarrow> e \<in> set new \<or> env_content e \<in> env_content ` set ov"
  by (induction ov arbitrary: a new) (fastforce split: if_splits)+

text \<open>With plain overrides (no \<open>valueFrom\<close>) an override that is already there is recognised.\<close>

lemma append_overrides_distinct:
  assumes "distinct (map ev_Name new)" and "distinct (map ev_Name ov)"
    and "\<forall>e \<in> set ov. ev_ValueFrom e = None"
    and "\<forall>e \<in> set ov. ev_Name e \<in> ev_Name ` set new \<longrightarrow> e \<in> set new"
  shows "distinct (map ev_Name (append_overrides a new ov))"
  using assms
proof (induction ov arbitrary: a new)
  case (Cons e ov)
  show ?case
  proof (cases "e \<in> set new")
    case True
    with Cons show ?thesis by simp
  next
    case False
    with Cons.prems have new: "ev_Name e \<notin> ev_Name ` set new" by auto
    with Cons.prems False
    have "distinct (map ev_Name (append_overrides (Suc a) (new @ [EnvVar_DeepCopy a e]) ov))"
      by (intro Cons.IH) (auto simp: DeepCopy_plain intro: rev_image_eqI)
    with False show ?thesis by simp
  qed
qed simp

lemma merge_current_plain_has:
  assumes "e \<in> set ov" and "distinct (map ev_Name ov)" and "ev_ValueFrom e = None"
    and "ev_Name e \<in> ev_Name ` set cur"
  shows "e \<in> set (merge_current a ov cur)"
  using assms(4)
proof (induction cur arbitrary: a)
  case (Cons c cur)
  have found: "find (\<lambda>o'. ev_Name o' = ev_Name e) ov = Some e"
    using assms(1,2) by (induction ov) (auto simp: image_iff)
  with Cons assms(3) show ?case
    by (cases "ev_Name c = ev_Name e") (auto simp: merge_current_Cons DeepCopy_plain)
qed simp

lemma MergeEnvVars_has_override:
  "e \<in> set ov \<Longrightarrow> env_content e \<in> env_content ` set (MergeEnvVars cur ov)"
  by (simp add: MergeEnvVars_def Let_def append_overrides_has)

lemma find_none_name: "find (\<lambda>o'. ev_Name o' = n) ov = None \<longleftrightarrow> n \<notin> ev_Name ` set ov"
  by (auto simp: find_None_iff)

lemma merge_current_keeps:
  assumes "e \<in> set cur" and "ev_Name e \<notin> ev_Name ` set ov"
  shows "env_content e \<in> env_content ` set (merge_current a ov cur)"
proof -
  from assms(2) have "find (\<lambda>o'. ev_Name o' = ev_Name e) ov = None"
    by (simp add: find_none_name)
  with assms(1) have "env_content e \<in> set (map env_content (merge_current a ov cur))"
    unfolding merge_current_content by force
  then show ?thesis by simp
qed

lemma merge_current_from:
  assumes "e \<in> set (merge_current a ov cur)"
  shows "env_content e \<in> env_content ` set ov \<or>
    (env_content e \<in> env_content ` set cur \<and> ev_Name e \<notin> ev_Name ` set ov)"
proof -
  from assms have "env_content e \<in> set (map env_content (merge_current a ov cur))" by simp
  then obtain c where c: "c \<in> set cur" and
    e: "env_content e = env_content (case find (\<lambda>o'. ev_Name o' = ev_Name c) ov of None \<Rightarrow> c | Some o' \<Rightarrow> o')"
    unfolding merge_current_content by auto
  show ?thesis
  proof (cases "find (\<lambda>o'. ev_Name o' = ev_Name c) ov")
    case None
    with e have "env_content e = env_content c" by simp
    with None c show ?thesis by (auto simp: find_none_name dest: content_Name)
  next
    case (Some o')
    with e show ?thesis by (auto dest: find_name)
  qed
qed

lemma merge_prefix:
  obtains ys where "MergeEnvVars cur ov = merge_current (next_addr (cur @ ov)) ov cur @ ys"
  using append_overrides_prefix unfolding MergeEnvVars_def Let_def by blast

text \<open>A pointer of the merged list that comes from a copy is none of the pointers that were given.\<close>

lemma addr_below: "e \<in> set es \<Longrightarrow> ptr_addr e < next_addr es"
  by (induction es) (auto simp: next_addr_def less_Suc_eq_le max.coboundedI2)

lemma merge_current_addr:
  "e \<in> set (merge_current a ov cur) \<Longrightarrow> ev_ValueFrom e = Some (b, src) \<Longrightarrow> a \<le> b"
  by (induction cur arbitrary: a)
    (auto simp: merge_current_Cons EnvVar_DeepCopy_def dest: Suc_leD)

lemma append_overrides_appends:
  assumes "e \<in> set ov" and "ev_ValueFrom e = Some (b, src)" and "b < a"
    and "\<forall>x \<in> set new. \<forall>b' src'. ev_ValueFrom x = Some (b', src') \<longrightarrow> b < b'"
  shows "\<exists>ys. append_overrides a new ov = new @ ys \<and> env_content e \<in> env_content ` set ys"
  using assms
proof (induction ov arbitrary: a new)
  case (Cons x ov)
  let ?c = "EnvVar_DeepCopy a x"
  show ?case
  proof (cases "x \<in> set new")
    case True
    with Cons.prems have "x \<noteq> e" by fastforce
    with True Cons show ?thesis by simp
  next
    case False
    show ?thesis
    proof (cases "x = e")
      case True
      obtain ys where "append_overrides (Suc a) (new @ [?c]) ov = (new @ [?c]) @ ys"
        using append_overrides_prefix by blast
      with False True show ?thesis by (intro exI [of _ "?c # ys"]) auto
    next
      case neq: False
      have "\<forall>y \<in> set (new @ [?c]). \<forall>b' src'. ev_ValueFrom y = Some (b', src') \<longrightarrow> b < b'"
        using Cons.prems(3,4) by (auto simp: EnvVar_DeepCopy_def)
      with Cons.IH [of "Suc a" "new @ [?c]"] Cons.prems neq obtain ys
        where "append_overrides (Suc a) (new @ [?c]) ov = (new @ [?c]) @ ys"
          and "env_content e \<in> env_content ` set ys" by auto
      with False show ?thesis by (intro exI [of _ "?c # ys"]) auto
    qed
  qed
qed simp

section \<open>Properties\<close>



text \<open>
  An override with a \<open>valueFrom\<close> is not recognised as already merged, because \<open>EnvVarContains\<close>
  compares pointers and the merged entry is a copy: a container variable that such an override
  replaces ends up twice in the result.
\<close>

theorem MergeEnvVars_valueFrom_repeats:
  assumes "o' \<in> set ov" and "ev_ValueFrom o' \<noteq> None" and "ev_Name o' \<in> ev_Name ` set cur"
  shows "\<not> distinct (map ev_Name (MergeEnvVars cur ov))"
proof -
  let ?a = "next_addr (cur @ ov)"
  let ?new = "merge_current ?a ov cur"
  obtain b src where vf: "ev_ValueFrom o' = Some (b, src)" using assms(2) by auto
  have "b < ?a" using addr_below [of o' "cur @ ov"] assms(1) vf by simp
  then have "\<forall>x \<in> set ?new. \<forall>b' src'. ev_ValueFrom x = Some (b', src') \<longrightarrow> b < b'"
    using merge_current_addr by fastforce
  with \<open>b < ?a\<close> obtain ys where ys: "MergeEnvVars cur ov = ?new @ ys"
    and "env_content o' \<in> env_content ` set ys"
    using append_overrides_appends [OF assms(1) vf, of "?a + length cur" ?new]
    unfolding MergeEnvVars_def Let_def by auto
  then have "ev_Name o' \<in> ev_Name ` set ys" by (auto dest: content_Name)
  with assms(3) show ?thesis by (auto simp: ys)
qed

theorem MergeEnvVars_valueFrom_repeats_witness:
  "\<not> distinct (map ev_Name (MergeEnvVars
     [\<lparr>ev_Name = ''TOKEN'', ev_Value = ''t'', ev_ValueFrom = None\<rparr>]
     [\<lparr>ev_Name = ''TOKEN'', ev_Value = [], ev_ValueFrom = Some (1, ''secret'')\<rparr>]))"
  by (rule MergeEnvVars_valueFrom_repeats
      [of "\<lparr>ev_Name = ''TOKEN'', ev_Value = [], ev_ValueFrom = Some (1, ''secret'')\<rparr>"]) simp_all

text \<open>
  C36: the version of a dynamic environment, which becomes a label value, has at most 61 bytes
  (Kubernetes allows 63), and short names without a dash in the namespace get different versions.
\<close>

theorem UniqueDynamicEnvName_bound_inject:
  "length (UniqueDynamicEnvName i) \<le> 61 \<and>
   (CHR ''-'' \<notin> set (nn_Namespace i) \<and> CHR ''-'' \<notin> set (nn_Namespace j) \<and>
    length (nn_Namespace i) \<le> 20 \<and> length (nn_Namespace j) \<le> 20 \<and>
    length (nn_Name i) \<le> 40 \<and> length (nn_Name j) \<le> 40 \<and>
    UniqueDynamicEnvName i = UniqueDynamicEnvName j \<longrightarrow> i = j)"
  using sep_inject [of "CHR ''-''" "nn_Namespace i" "nn_Namespace j" "nn_Name i" "nn_Name j"]
  by (auto simp: UniqueDynamicEnvName_take)

theorem UniqueDynamicEnvName_bound_inject_witness:
  "UniqueDynamicEnvName \<lparr>nn_Namespace = ''team'', nn_Name = ''env-1''\<rparr>
     \<noteq> UniqueDynamicEnvName \<lparr>nn_Namespace = ''team'', nn_Name = ''env-2''\<rparr>"
  using UniqueDynamicEnvName_bound_inject
    [of "\<lparr>nn_Namespace = ''team'', nn_Name = ''env-1''\<rparr>" "\<lparr>nn_Namespace = ''team'', nn_Name = ''env-2''\<rparr>"]
  by auto

text \<open>
  With a dash in the namespace the version is ambiguous: an environment \<open>c\<close> in namespace
  \<open>a-b\<close> and an environment \<open>b-c\<close> in namespace \<open>a\<close> share one version.
\<close>

theorem UniqueDynamicEnvName_ambiguous:
  assumes "length a + length b < 20" and "length b + length c < 40"
  shows "UniqueDynamicEnvName \<lparr>nn_Namespace = a @ ''-'' @ b, nn_Name = c\<rparr>
       = UniqueDynamicEnvName \<lparr>nn_Namespace = a, nn_Name = b @ ''-'' @ c\<rparr>"
  using assms by (simp add: UniqueDynamicEnvName_take)

theorem UniqueDynamicEnvName_ambiguous_witness:
  "UniqueDynamicEnvName \<lparr>nn_Namespace = ''a'' @ ''-'' @ ''b'', nn_Name = ''c''\<rparr>
     = UniqueDynamicEnvName \<lparr>nn_Namespace = ''a'', nn_Name = ''b'' @ ''-'' @ ''c''\<rparr>"
  by (rule UniqueDynamicEnvName_ambiguous) simp_all

end
