(* ===== verification/Watches.thy ===== *)
theory Watches
  imports Helpers
begin

text \<open>
  \<^verbatim>\<open>pkg/watches/enqueue_annotations.go\<close>: the annotation that records which dynamic environments use
  a resource, and the event handler that turns it into reconcile requests. An object is its map of
  annotations here. The work queue is the list of the requests added to it, in order.

  The locale \<open>owner_registry\<close> is what the handlers rely on: the annotation is a set of owners with
  insertion and deletion.
\<close>

definition NamespacedNameAnnotation :: string where
  "NamespacedNameAnnotation = ''riskified.com/dynamic-environment''"

section \<open>Writing the annotation\<close>

definition AddToAnnotation :: "NamespacedName \<Rightarrow> string gomap \<Rightarrow> string gomap" where
  "AddToAnnotation owner obj =
     (let annotations = (case obj of None \<Rightarrow> gm_make | Some _ \<Rightarrow> obj);
          existingDynamicEnvs = Split (CHR '','') (gm_get [] annotations NamespacedNameAnnotation);
          currentDynamicEnv = nn_Namespace owner @ ''/'' @ nn_Name owner;
          existingDynamicEnvs =
            (if length existingDynamicEnvs = 1 \<and> existingDynamicEnvs ! 0 = []
             then existingDynamicEnvs[0 := currentDynamicEnv]
             else if \<not> Contains existingDynamicEnvs currentDynamicEnv
             then existingDynamicEnvs @ [currentDynamicEnv]
             else existingDynamicEnvs)
      in gm_put NamespacedNameAnnotation (Join (CHR '','') existingDynamicEnvs) annotations)"

definition RemoveFromAnnotation :: "NamespacedName \<Rightarrow> string gomap \<Rightarrow> string gomap" where
  "RemoveFromAnnotation owner obj =
     (let annotations = (case obj of None \<Rightarrow> gm_make | Some _ \<Rightarrow> obj);
          existingDynamicEnvs = Split (CHR '','') (gm_get [] annotations NamespacedNameAnnotation);
          currentDynamicEnv = nn_Namespace owner @ ''/'' @ nn_Name owner;
          existingDynamicEnvs = RemoveItemFromStringSlice currentDynamicEnv existingDynamicEnvs
      in gm_put NamespacedNameAnnotation (Join (CHR '','') existingDynamicEnvs) annotations)"

section \<open>Reading it: the event handler\<close>

text \<open>\<open>values[1]\<close> panics when the entry has no slash.\<close>

fun enqueue_envs :: "string list \<Rightarrow> NamespacedName list \<Rightarrow> NamespacedName list outcome" where
  "enqueue_envs [] q = Done q"
| "enqueue_envs (env # dynamicEnvs) q =
     (if env \<noteq> [] then
        let values = SplitN2 (CHR ''/'') env
        in if length values \<le> 1 then Panic
           else enqueue_envs dynamicEnvs (q @ [\<lparr>nn_Namespace = values ! 0, nn_Name = values ! 1\<rparr>])
      else enqueue_envs dynamicEnvs q)"

definition addToQueue :: "string gomap \<Rightarrow> NamespacedName list \<Rightarrow> NamespacedName list outcome" where
  "addToQueue obj q =
     (case obj of
        None \<Rightarrow> Done q
      | Some _ \<Rightarrow> enqueue_envs (Split (CHR '','') (gm_get [] obj NamespacedNameAnnotation)) q)"

datatype event =
    CreateEvent "string gomap"
  | UpdateEvent "string gomap" "string gomap" \<comment> \<open>the new object, the old object\<close>
  | DeleteEvent "string gomap"
  | GenericEvent "string gomap"

fun EnqueueRequestForAnnotation :: "event \<Rightarrow> NamespacedName list \<Rightarrow> NamespacedName list outcome" where
  "EnqueueRequestForAnnotation (CreateEvent obj) q = addToQueue obj q"
| "EnqueueRequestForAnnotation (UpdateEvent objNew objOld) q =
     map_outcome2 (addToQueue objOld) (addToQueue objNew q)"
| "EnqueueRequestForAnnotation (DeleteEvent obj) q = addToQueue obj q"
| "EnqueueRequestForAnnotation (GenericEvent obj) q = addToQueue obj q"

section \<open>The annotation as a list of owners\<close>

definition annotated :: "string gomap \<Rightarrow> string list" where
  "annotated obj = filter (\<lambda>e. e \<noteq> []) (Split (CHR '','') (gm_get [] obj NamespacedNameAnnotation))"

definition owner_ok :: "NamespacedName \<Rightarrow> bool" where
  \<comment> \<open>names of Kubernetes objects and namespaces hold neither separator\<close>
  "owner_ok owner \<longleftrightarrow> CHR '','' \<notin> set (nn_Namespace owner) \<and> CHR '','' \<notin> set (nn_Name owner) \<and>
     CHR ''/'' \<notin> set (nn_Namespace owner)"

lemma MkResourceName_no_comma: "owner_ok i \<Longrightarrow> CHR '','' \<notin> set (MkResourceName i)"
  by (simp add: owner_ok_def MkResourceName_def)

lemma MkResourceName_inject: "owner_ok i \<Longrightarrow> owner_ok j \<Longrightarrow> MkResourceName i = MkResourceName j \<longleftrightarrow> i = j"
  using sep_inject [of "CHR ''/''" "nn_Namespace i" "nn_Namespace j" "nn_Name i" "nn_Name j"]
  by (auto simp: owner_ok_def MkResourceName_def)

lemma MkResourceName_not_Nil [simp]: "MkResourceName i \<noteq> []"
  by (simp add: MkResourceName_def)

lemma gm_get_make [simp]: "gm_get z (case obj of None \<Rightarrow> gm_make | Some _ \<Rightarrow> obj) k = gm_get z obj k"
  by (cases obj) (simp_all add: gm_get_def)

lemma annotated_put:
  "ts \<noteq> [] \<Longrightarrow> \<forall>t \<in> set ts. CHR '','' \<notin> set t \<Longrightarrow>
   annotated (gm_put NamespacedNameAnnotation (Join (CHR '','') ts) m) = filter (\<lambda>e. e \<noteq> []) ts"
  by (simp add: annotated_def Split_Join)

lemma annotated_add:
  assumes "owner_ok owner"
  shows "annotated (AddToAnnotation owner obj) =
    (if MkResourceName owner \<in> set (annotated obj) then annotated obj
     else annotated obj @ [MkResourceName owner])"
proof -
  let ?es = "Split (CHR '','') (gm_get [] obj NamespacedNameAnnotation)"
  have parts: "\<forall>t \<in> set ?es. CHR '','' \<notin> set t" by (auto dest: Split_parts)
  have len: "length ?es = 1 \<and> ?es ! 0 = [] \<longleftrightarrow> ?es = [[]]"
    by (cases ?es) auto
  have cur: "nn_Namespace owner @ ''/'' @ nn_Name owner = MkResourceName owner"
    by (simp add: MkResourceName_def)
  show ?thesis
    unfolding AddToAnnotation_def Let_def gm_get_make len cur
    using parts MkResourceName_no_comma [OF assms]
    by (auto simp: annotated_put annotated_def [of obj] Split_Join)
qed

lemma annotated_remove:
  "annotated (RemoveFromAnnotation owner obj) = filter (\<lambda>e. e \<noteq> MkResourceName owner) (annotated obj)"
proof -
  let ?es = "Split (CHR '','') (gm_get [] obj NamespacedNameAnnotation)"
  let ?rs = "filter (\<lambda>e. e \<noteq> MkResourceName owner) ?es"
  have parts: "\<forall>t \<in> set ?rs. CHR '','' \<notin> set t" by (auto dest: Split_parts)
  have eq: "annotated (RemoveFromAnnotation owner obj)
      = filter (\<lambda>e. e \<noteq> []) (Split (CHR '','') (Join (CHR '','') ?rs))"
    by (simp add: RemoveFromAnnotation_def RemoveItem_filter annotated_def MkResourceName_def Let_def)
  show ?thesis
  proof (cases "?rs = []")
    case True
    have "filter (\<lambda>e. e \<noteq> MkResourceName owner) (annotated obj) = filter (\<lambda>e. e \<noteq> []) ?rs"
      unfolding annotated_def filter_filter by (rule filter_cong) auto
    with True eq show ?thesis by simp
  next
    case False
    with parts eq show ?thesis
      by (simp add: Split_Join annotated_def conj_commute)
  qed
qed

lemma annotation_frame:
  "k \<noteq> NamespacedNameAnnotation \<Longrightarrow> gm_lookup (AddToAnnotation owner obj) k = gm_lookup obj k"
  "k \<noteq> NamespacedNameAnnotation \<Longrightarrow> gm_lookup (RemoveFromAnnotation owner obj) k = gm_lookup obj k"
  by (cases obj; simp add: AddToAnnotation_def RemoveFromAnnotation_def Let_def)+

text \<open>
  The contract: owners are inserted and deleted one by one, and nothing else is touched. Two
  different owners do not disturb each other, whatever the order of their steps.
\<close>

locale owner_registry =
  fixes owners :: "'m \<Rightarrow> string list"
    and ok :: "'o \<Rightarrow> bool"
    and key :: "'o \<Rightarrow> string"
    and add :: "'o \<Rightarrow> 'm \<Rightarrow> 'm"
    and remove :: "'o \<Rightarrow> 'm \<Rightarrow> 'm"
  assumes owners_add_law:
      "ok i \<Longrightarrow> owners (add i m) = (if key i \<in> set (owners m) then owners m else owners m @ [key i])"
    and owners_remove_law: "owners (remove i m) = filter (\<lambda>e. e \<noteq> key i) (owners m)"
begin

lemma add_idem: "ok i \<Longrightarrow> owners (add i (add i m)) = owners (add i m)"
  by (simp add: owners_add_law)

lemma remove_add: "ok i \<Longrightarrow> key i \<notin> set (owners m) \<Longrightarrow> owners (remove i (add i m)) = owners m"
  by (auto simp: owners_add_law owners_remove_law filter_id_conv)

lemma remove_other: "key j \<noteq> key i \<Longrightarrow> key j \<in> set (owners (remove i m)) \<longleftrightarrow> key j \<in> set (owners m)"
  by (auto simp: owners_remove_law)

lemma set_add: "ok i \<Longrightarrow> set (owners (add i m)) = insert (key i) (set (owners m))"
  by (auto simp: owners_add_law)

end

interpretation ann: owner_registry annotated owner_ok MkResourceName AddToAnnotation RemoveFromAnnotation
  by unfold_locales (simp_all add: annotated_add annotated_remove)

section \<open>What the event handler enqueues\<close>

definition request_of :: "string \<Rightarrow> NamespacedName" where
  "request_of e = \<lparr>nn_Namespace = takeWhile (\<lambda>c. c \<noteq> CHR ''/'') e,
     nn_Name = tl (dropWhile (\<lambda>c. c \<noteq> CHR ''/'') e)\<rparr>"

lemma request_of_owner: "owner_ok i \<Longrightarrow> request_of (MkResourceName i) = i"
  using SplitN2_append [of "CHR ''/''" "nn_Namespace i" "nn_Name i"]
  by (simp add: request_of_def MkResourceName_def owner_ok_def)

lemma enqueue_envs_spec:
  "enqueue_envs es q =
     (if \<forall>e \<in> set es. e \<noteq> [] \<longrightarrow> CHR ''/'' \<in> set e
      then Done (q @ map request_of (filter (\<lambda>e. e \<noteq> []) es)) else Panic)"
  by (induction es arbitrary: q) (auto simp: request_of_def Let_def)

lemma addToQueue_spec:
  "addToQueue obj q =
     (if \<forall>e \<in> set (annotated obj). CHR ''/'' \<in> set e
      then Done (q @ map request_of (annotated obj)) else Panic)"
proof (cases obj)
  case None
  then show ?thesis by (simp add: addToQueue_def annotated_def gm_get_def)
next
  case (Some al)
  then show ?thesis by (auto simp: addToQueue_def enqueue_envs_spec annotated_def)
qed

section \<open>Properties\<close>

text \<open>
  C34: a resource that an environment has been added to wakes that environment, and every
  environment that was recorded before, on each event of the resource.
\<close>

theorem add_then_enqueue:
  assumes "owner_ok owner" and "\<forall>e \<in> set (annotated obj). CHR ''/'' \<in> set e"
  shows "\<exists>q'. addToQueue (AddToAnnotation owner obj) q = Done (q @ q') \<and>
           set q' = insert owner (request_of ` set (annotated obj))"
proof -
  have "set (annotated (AddToAnnotation owner obj)) = insert (MkResourceName owner) (set (annotated obj))"
    using assms(1) by (rule ann.set_add)
  moreover have "CHR ''/'' \<in> set (MkResourceName owner)" by (simp add: MkResourceName_def)
  ultimately show ?thesis
    using assms request_of_owner [OF assms(1)] by (auto simp: addToQueue_spec)
qed

theorem add_then_enqueue_witness:
  "\<exists>q'. addToQueue (AddToAnnotation \<lparr>nn_Namespace = ''ns'', nn_Name = ''de''\<rparr> None) [] = Done ([] @ q') \<and>
     set q' = insert \<lparr>nn_Namespace = ''ns'', nn_Name = ''de''\<rparr> (request_of ` set (annotated None))"
  by (rule add_then_enqueue) (simp_all add: owner_ok_def annotated_def gm_get_def)

text \<open>
  Removing an environment from the annotation undoes adding it: the other environments stay
  recorded, in their order, and no other annotation of the object changes.
\<close>

theorem remove_undoes_add:
  assumes "owner_ok owner" and "MkResourceName owner \<notin> set (annotated obj)"
  shows "annotated (RemoveFromAnnotation owner (AddToAnnotation owner obj)) = annotated obj \<and>
         (\<forall>k. k \<noteq> NamespacedNameAnnotation \<longrightarrow>
            gm_lookup (RemoveFromAnnotation owner (AddToAnnotation owner obj)) k = gm_lookup obj k)"
  using ann.remove_add [OF assms] by (simp add: annotation_frame)

theorem remove_undoes_add_witness:
  "annotated (RemoveFromAnnotation \<lparr>nn_Namespace = ''ns'', nn_Name = ''de''\<rparr>
     (AddToAnnotation \<lparr>nn_Namespace = ''ns'', nn_Name = ''de''\<rparr>
       (Some [(NamespacedNameAnnotation, ''ns/other''), (''x'', ''y'')]))) = [''ns/other'']"
proof -
  let ?o = "\<lparr>nn_Namespace = ''ns'', nn_Name = ''de''\<rparr>"
  let ?m = "Some [(NamespacedNameAnnotation, ''ns/other''), (''x'', ''y'')]"
  have m: "annotated ?m = [''ns/other'']"
    by (simp add: annotated_def gm_get_def)
  have "owner_ok ?o" by (simp add: owner_ok_def)
  moreover have "MkResourceName ?o \<notin> set (annotated ?m)" by (simp add: m MkResourceName_def)
  ultimately show ?thesis using remove_undoes_add [of ?o ?m] m by simp
qed

text \<open>
  The event handler panics exactly on an object whose annotation has a non-empty entry
  without a slash; otherwise each entry becomes one request, split at its first slash.
\<close>

theorem addToQueue_panics_iff:
  "(addToQueue obj q = Panic \<longleftrightarrow> (\<exists>e \<in> set (annotated obj). CHR ''/'' \<notin> set e)) \<and>
   (addToQueue obj q \<noteq> Panic \<longrightarrow> addToQueue obj q = Done (q @ map request_of (annotated obj)))"
  by (auto simp: addToQueue_spec)

theorem addToQueue_panics_iff_witness:
  "addToQueue (Some [(NamespacedNameAnnotation, ''no-separator'')]) [] = Panic \<and>
   addToQueue (Some [(NamespacedNameAnnotation, ''ns/de'')]) []
     = Done [\<lparr>nn_Namespace = ''ns'', nn_Name = ''de''\<rparr>]"
  using addToQueue_panics_iff [of "Some [(NamespacedNameAnnotation, ''no-separator'')]" "[]"]
    addToQueue_panics_iff [of "Some [(NamespacedNameAnnotation, ''ns/de'')]" "[]"]
  by (simp add: annotated_def gm_get_def request_of_def)

end
