(* ===== verification/Webhook.thy ===== *)
theory Webhook
  imports Helpers
begin

text \<open>
  The validating webhook, \<^verbatim>\<open>api/v1alpha1/dynamicenv_webhook.go\<close>: what the API server asks before it
  stores a new or a changed dynamic environment. A validation returns the error, or \<open>None\<close>. The
  paths of \<^verbatim>\<open>field.Path\<close> are lists of their parts.

  \<open>admissible\<close> says what the validations are for; the properties show that creation accepts exactly
  the admissible environments, and that accepted updates keep them admissible.
\<close>

section \<open>Errors\<close>

datatype path_part = Child string | Key string

datatype field_error = FieldInvalid "path_part list" string

datatype webhook_error =
    FieldError field_error
  | NewInvalid string "field_error list" \<comment> \<open>\<open>errors.NewInvalid\<close>: the name and all errors\<close>

section \<open>The validations, in the order of the file\<close>

definition StringMatch_alternatives :: "StringMatch \<Rightarrow> nat" where
  \<comment> \<open>the loop over the three fields of the struct\<close>
  "StringMatch_alternatives m = length (filter (\<lambda>f. f \<noteq> []) [sm_Exact m, sm_Prefix m, sm_Regex m])"

definition header_errors :: "IstioMatch \<Rightarrow> field_error list" where
  "header_errors m = concat (map (\<lambda>(header, mtch).
     let alternatives = StringMatch_alternatives mtch
     in if alternatives \<noteq> 1
        then [FieldInvalid [Child ''spec'', Child ''istioMatch'', Child ''headers'', Child header]
          (''spec.istioMatch.headers.'' @ header @
           '' must validate one and only one schema (oneOf). Found '' @ show_nat alternatives @
           '' valid alternatives'')]
        else []) (gm_list (im_Headers m)))"

definition validateStringMatchOneOf :: "DynamicEnv \<Rightarrow> webhook_error option" where
  "validateStringMatchOneOf de =
     (let allErrs = concat (map header_errors (IstioMatches_list (de_Spec de)))
      in if length allErrs \<noteq> 0 then Some (NewInvalid (de_Name de) allErrs) else None)"

definition validateIstioMatchAnyOf :: "DynamicEnv \<Rightarrow> webhook_error option" where
  "validateIstioMatchAnyOf de =
     (let err = FieldError (FieldInvalid [Child ''spec''] ''empty IstioMatch is invalid for DynamicEnv'')
      in if length (IstioMatches_list (de_Spec de)) = 0 then Some err
         else if list_ex (\<lambda>m. gm_len (im_Headers m) = 0 \<and> gm_len (im_SourceLabels m) = 0)
                   (IstioMatches_list (de_Spec de)) then Some err
         else None)"

definition validateUniqueContainerNames :: "ContainerOverrides list \<Rightarrow> bool" where
  "validateUniqueContainerNames containers \<longleftrightarrow>
     (let m = fold (\<lambda>c. gm_put (co_ContainerName c) True) containers gm_make
      in gm_len m = length containers)"

fun find_duplicate :: "string list \<Rightarrow> Subset list \<Rightarrow> string option" where
  "find_duplicate uniques [] = None"
| "find_duplicate uniques (s # subsets) =
     (let combined = sub_Namespace s @ ''/'' @ sub_Name s
      in if Contains uniques combined then Some combined
         else find_duplicate (uniques @ [combined]) subsets)"

definition validateNoDuplicateDeployment :: "Subset list \<Rightarrow> string option" where
  "validateNoDuplicateDeployment subsets = find_duplicate [] subsets"

fun validateSubsetProperties :: "Subset list \<Rightarrow> webhook_error option" where
  "validateSubsetProperties [] = None"
| "validateSubsetProperties (s # subsets) =
     (if sub_Replicas s = Some 0 then
        Some (FieldError (FieldInvalid [Child ''spec''] ''It's illegal to use 0 replicas!''))
      else if length (sub_Containers s) = 0 \<and> length (sub_InitContainers s) = 0 then
        Some (FieldError (FieldInvalid [Child ''spec'', Key (sub_Name s)]
          ''At least a single container or init-container must be specified''))
      else if \<not> validateUniqueContainerNames (sub_Containers s) then
        Some (FieldError (FieldInvalid [Child ''spec'', Child ''Subsets'', Key (sub_Name s), Child ''Containers'']
          ''It seems that not all container names are unique''))
      else if \<not> validateUniqueContainerNames (sub_InitContainers s) then
        Some (FieldError (FieldInvalid [Child ''spec'', Child ''Subsets'', Key (sub_Name s), Child ''initContainers'']
          ''It seems that not all container names are unique''))
      else validateSubsetProperties subsets)"

definition validateSubsetsProperties :: "DynamicEnv \<Rightarrow> webhook_error option" where
  "validateSubsetsProperties de =
     (let subsets = spec_Subsets (de_Spec de) @ spec_Consumers (de_Spec de)
      in case validateSubsetProperties subsets of
           Some err \<Rightarrow> Some err
         | None \<Rightarrow>
             (case validateNoDuplicateDeployment subsets of
                Some dup \<Rightarrow> Some (FieldError (FieldInvalid [Child ''spec'']
                  (''It seems that the following deployment appears in more then one subset/consumer: '' @ dup)))
              | None \<Rightarrow> None))"

definition ValidateCreate :: "DynamicEnv \<Rightarrow> webhook_error option" where
  "ValidateCreate de =
     (case validateIstioMatchAnyOf de of
        Some err \<Rightarrow> Some err
      | None \<Rightarrow>
          (case validateSubsetsProperties de of
             Some err \<Rightarrow> Some err
           | None \<Rightarrow> validateStringMatchOneOf de))"

text \<open>\<open>reflect.DeepEqual\<close> on two slices of matches.\<close>

definition IstioMatch_DeepEqual :: "IstioMatch \<Rightarrow> IstioMatch \<Rightarrow> bool" where
  "IstioMatch_DeepEqual m n \<longleftrightarrow> gm_eq (=) (im_Headers m) (im_Headers n) \<and>
     gm_eq (=) (im_SourceLabels m) (im_SourceLabels n)"

definition IstioMatches_DeepEqual :: "IstioMatch list option \<Rightarrow> IstioMatch list option \<Rightarrow> bool" where
  "IstioMatches_DeepEqual ms ns =
     (case (ms, ns) of
        (None, None) \<Rightarrow> True
      | (Some xs, Some ys) \<Rightarrow> list_all2 IstioMatch_DeepEqual xs ys
      | _ \<Rightarrow> False)"

definition validateIstioMatchImmutable :: "DynamicEnv \<Rightarrow> DynamicEnv \<Rightarrow> webhook_error option" where
  "validateIstioMatchImmutable de old =
     (let oldIstioMatch = spec_IstioMatches (de_Spec old);
          newIstioMatch = spec_IstioMatches (de_Spec de)
      in if \<not> IstioMatches_DeepEqual newIstioMatch oldIstioMatch
         then Some (FieldError (FieldInvalid [Child ''spec''] ''spec.istioMatch field is immutable''))
         else None)"

definition findMatchingContainer :: "ContainerOverrides \<Rightarrow> ContainerOverrides list \<Rightarrow> string option" where
  "findMatchingContainer oldContainer containers =
     (let foundMatching =
        fold (\<lambda>c found. if co_ContainerName c = co_ContainerName oldContainer then True else found)
          containers False
      in if \<not> foundMatching then Some (co_ContainerName oldContainer) else None)"

fun compare_each :: "ContainerOverrides list \<Rightarrow> ContainerOverrides list \<Rightarrow> string option" where
  "compare_each [] newContainers = None"
| "compare_each (c # oldContainers) newContainers =
     (case findMatchingContainer c newContainers of
        Some err \<Rightarrow> Some err
      | None \<Rightarrow> compare_each oldContainers newContainers)"

definition compareContainers :: "ContainerOverrides list \<Rightarrow> ContainerOverrides list \<Rightarrow> string option" where
  "compareContainers oldContainers newContainers =
     (if length oldContainers \<noteq> length newContainers
      then Some (''number of new containers ('' @ show_nat (length oldContainers) @
        '') does not match the number of old containers ('' @ show_nat (length newContainers) @ '')'')
      else compare_each oldContainers newContainers)"

fun validateSubsetModifications :: "Subset \<Rightarrow> Subset list \<Rightarrow> webhook_error option" where
  "validateSubsetModifications old [] = None"
| "validateSubsetModifications old (s # subsets) =
     (if sub_Name old = sub_Name s \<and> sub_Namespace old = sub_Namespace s then
        (case compareContainers (sub_Containers old) (sub_Containers s) of
           Some err \<Rightarrow> Some (FieldError (FieldInvalid
             [Child ''spec'', Child ''Subsets'', Key (sub_Name s), Child ''Containers'']
             (''couldn't find matching container to existing container: '' @ err)))
         | None \<Rightarrow>
             (case compareContainers (sub_InitContainers old) (sub_InitContainers s) of
                Some err \<Rightarrow> Some (FieldError (FieldInvalid
                  [Child ''spec'', Child ''Subsets'', Key (sub_Name s), Child ''initContainers'']
                  (''couldn't find matching container to existing container: '' @ err)))
              | None \<Rightarrow>
                  if sub_DefaultVersion old \<noteq> sub_DefaultVersion s
                  then Some (FieldError (FieldInvalid [Child ''spec'', Child ''Subsets'']
                    (''Changing default-version is not supported (modified '' @ [CHR 0x27] @ sub_DefaultVersion old @
                     [CHR 0x27] @ '' to '' @ [CHR 0x27] @ sub_DefaultVersion s @ [CHR 0x27] @ '')'')))
                  else None))
      else validateSubsetModifications old subsets)"

fun modifications_each :: "Subset list \<Rightarrow> Subset list \<Rightarrow> webhook_error option" where
  "modifications_each [] newSubsets = None"
| "modifications_each (sbst # oldSubsets) newSubsets =
     (case validateSubsetModifications sbst newSubsets of
        Some err \<Rightarrow> Some err
      | None \<Rightarrow> modifications_each oldSubsets newSubsets)"

definition validatePartialUpdateSubsets :: "DynamicEnv \<Rightarrow> DynamicEnv \<Rightarrow> webhook_error option" where
  "validatePartialUpdateSubsets de old =
     (let oldSubsets = spec_Subsets (de_Spec old) @ spec_Consumers (de_Spec old);
          newSubsets = spec_Subsets (de_Spec de) @ spec_Consumers (de_Spec de)
      in modifications_each oldSubsets newSubsets)"

definition ValidateUpdate :: "DynamicEnv \<Rightarrow> DynamicEnv \<Rightarrow> webhook_error option" where
  "ValidateUpdate de old =
     (case validateIstioMatchImmutable de old of
        Some err \<Rightarrow> Some err
      | None \<Rightarrow>
          (case validateSubsetsProperties de of
             Some err \<Rightarrow> Some err
           | None \<Rightarrow> validatePartialUpdateSubsets de old))"

definition ValidateDelete :: "DynamicEnv \<Rightarrow> webhook_error option" where
  "ValidateDelete de = None"

section \<open>What the validations are for\<close>

definition match_admissible :: "IstioMatch \<Rightarrow> bool" where
  "match_admissible m \<longleftrightarrow>
     (gm_keys (im_Headers m) \<noteq> [] \<or> gm_keys (im_SourceLabels m) \<noteq> []) \<and>
     (\<forall>sm \<in> snd ` set (gm_list (im_Headers m)). StringMatch_alternatives sm = 1)"

definition subset_admissible :: "Subset \<Rightarrow> bool" where
  "subset_admissible s \<longleftrightarrow>
     sub_Replicas s \<noteq> Some 0 \<and>
     (sub_Containers s \<noteq> [] \<or> sub_InitContainers s \<noteq> []) \<and>
     distinct (map co_ContainerName (sub_Containers s)) \<and>
     distinct (map co_ContainerName (sub_InitContainers s))"

definition all_subsets :: "DynamicEnv \<Rightarrow> Subset list" where
  "all_subsets de = spec_Subsets (de_Spec de) @ spec_Consumers (de_Spec de)"

definition subsets_admissible :: "DynamicEnv \<Rightarrow> bool" where
  "subsets_admissible de \<longleftrightarrow>
     (\<forall>s \<in> set (all_subsets de). subset_admissible s) \<and> distinct (map MKSubsetName (all_subsets de))"

definition matches_admissible :: "DynamicEnv \<Rightarrow> bool" where
  "matches_admissible de \<longleftrightarrow> IstioMatches_list (de_Spec de) \<noteq> [] \<and>
     (\<forall>m \<in> set (IstioMatches_list (de_Spec de)). match_admissible m)"

definition admissible :: "DynamicEnv \<Rightarrow> bool" where
  "admissible de \<longleftrightarrow> matches_admissible de \<and> subsets_admissible de"

text \<open>A container override list may be replaced by one with the same names; this is what two versions
  of one subset agree on.\<close>

definition same_shape :: "Subset \<Rightarrow> Subset \<Rightarrow> bool" where
  "same_shape s t \<longleftrightarrow>
     co_ContainerName ` set (sub_Containers s) = co_ContainerName ` set (sub_Containers t) \<and>
     co_ContainerName ` set (sub_InitContainers s) = co_ContainerName ` set (sub_InitContainers t) \<and>
     sub_DefaultVersion s = sub_DefaultVersion t"

text \<open>Go maps hold a key once: the maps that a decoded spec contains are well formed.\<close>

definition matches_wf :: "DynamicEnv \<Rightarrow> bool" where
  "matches_wf de \<longleftrightarrow> (\<forall>m \<in> set (IstioMatches_list (de_Spec de)).
     gm_ok (im_Headers m) \<and> gm_ok (im_SourceLabels m))"

section \<open>Lemmas\<close>

lemma gm_ok_put_names: "gm_ok m \<Longrightarrow> gm_ok (fold (\<lambda>c. gm_put (f c) True) cs m)"
  by (induction cs arbitrary: m) auto

lemma gm_keys_put_names: "set (gm_keys (fold (\<lambda>c. gm_put (f c) True) cs m)) = set (gm_keys m) \<union> f ` set cs"
  by (induction cs arbitrary: m) auto

lemma validateUniqueContainerNames_iff [simp]:
  "validateUniqueContainerNames cs \<longleftrightarrow> distinct (map co_ContainerName cs)"
proof -
  let ?m = "fold (\<lambda>c. gm_put (co_ContainerName c) True) cs gm_make"
  have "gm_len ?m = card (set (map co_ContainerName cs))"
    using gm_keys_put_names [of co_ContainerName cs gm_make]
    by (simp add: gm_len_card gm_ok_put_names) (simp add: gm_make_def gm_keys_def)
  then show ?thesis
    by (metis validateUniqueContainerNames_def card_distinct distinct_card length_map)
qed

lemma find_duplicate_iff:
  "find_duplicate us ss = None \<longleftrightarrow>
     distinct (map MKSubsetName ss) \<and> set us \<inter> set (map MKSubsetName ss) = {}"
  by (induction ss arbitrary: us) (auto simp: MKSubsetName_def Let_def)

lemma validateNoDuplicateDeployment_iff:
  "validateNoDuplicateDeployment ss = None \<longleftrightarrow> distinct (map MKSubsetName ss)"
  by (simp add: validateNoDuplicateDeployment_def find_duplicate_iff)

lemma validateSubsetProperties_iff:
  "validateSubsetProperties ss = None \<longleftrightarrow> (\<forall>s \<in> set ss. subset_admissible s)"
  by (induction ss) (auto simp: subset_admissible_def)

lemma validateSubsetsProperties_iff:
  "validateSubsetsProperties de = None \<longleftrightarrow> subsets_admissible de"
  using validateSubsetProperties_iff [of "all_subsets de"] validateNoDuplicateDeployment_iff [of "all_subsets de"]
  by (auto simp: validateSubsetsProperties_def subsets_admissible_def all_subsets_def Let_def
      split: option.splits)

lemma header_errors_iff:
  "header_errors m = [] \<longleftrightarrow> (\<forall>sm \<in> snd ` set (gm_list (im_Headers m)). StringMatch_alternatives sm = 1)"
  by (auto simp: header_errors_def Let_def split: if_splits)

lemma match_validations_iff:
  "validateIstioMatchAnyOf de = None \<and> validateStringMatchOneOf de = None \<longleftrightarrow> matches_admissible de"
  by (auto simp: validateIstioMatchAnyOf_def validateStringMatchOneOf_def matches_admissible_def
      match_admissible_def header_errors_iff list_ex_iff gm_len_zero Let_def)

lemma findMatchingContainer_eq:
  "findMatchingContainer c cs =
     (if co_ContainerName c \<in> co_ContainerName ` set cs then None else Some (co_ContainerName c))"
proof -
  have "fold (\<lambda>c found. if co_ContainerName c = n then True else found) cs b \<longleftrightarrow>
      b \<or> n \<in> co_ContainerName ` set cs" for n b
    by (induction cs arbitrary: b) auto
  then show ?thesis by (simp add: findMatchingContainer_def)
qed

lemma compareContainers_iff:
  "compareContainers os ns = None \<longleftrightarrow>
     length os = length ns \<and> co_ContainerName ` set os \<subseteq> co_ContainerName ` set ns"
proof -
  have "compare_each os ns = None \<longleftrightarrow> co_ContainerName ` set os \<subseteq> co_ContainerName ` set ns"
    by (induction os) (auto simp: findMatchingContainer_eq)
  then show ?thesis by (auto simp: compareContainers_def)
qed

lemma compareContainers_same_names:
  assumes "compareContainers os ns = None" and "distinct (map co_ContainerName os)"
    and "distinct (map co_ContainerName ns)"
  shows "co_ContainerName ` set os = co_ContainerName ` set ns"
proof -
  from assms have "co_ContainerName ` set os \<subseteq> co_ContainerName ` set ns"
    and "card (co_ContainerName ` set os) = card (co_ContainerName ` set ns)"
    using distinct_card [of "map co_ContainerName os"] distinct_card [of "map co_ContainerName ns"]
    by (auto simp: compareContainers_iff)
  then show ?thesis by (simp add: card_subset_eq)
qed

lemma modifications_each_iff:
  "modifications_each os ns = None \<longleftrightarrow> (\<forall>s \<in> set os. validateSubsetModifications s ns = None)"
  by (induction os) (auto split: option.splits)

lemma validateSubsetModifications_shape:
  assumes "validateSubsetModifications old ns = None" and "t \<in> set ns"
    and "sub_Name t = sub_Name old" and "sub_Namespace t = sub_Namespace old"
    and "distinct (map MKSubsetName ns)" and "subset_admissible old" and "subset_admissible t"
  shows "same_shape old t"
  using assms(1,2,5)
proof (induction ns)
  case (Cons s ns)
  show ?case
  proof (cases "t = s")
    case True
    with Cons.prems assms(3,4,6,7) show ?thesis
      by (auto simp: same_shape_def subset_admissible_def compareContainers_same_names
          split: option.splits if_splits)
  next
    case False
    with Cons.prems(2,3) have t: "t \<in> set ns" and "MKSubsetName t \<noteq> MKSubsetName s"
      by (auto intro: rev_image_eqI)
    with assms(3,4) have "\<not> (sub_Name old = sub_Name s \<and> sub_Namespace old = sub_Namespace s)"
      by (auto simp: MKSubsetName_def)
    with Cons.prems(1) have "validateSubsetModifications old ns = None" by auto
    with Cons.IH t Cons.prems(3) show ?thesis by simp
  qed
qed simp

lemma gm_eq_entries:
  assumes "gm_eq (=) m n" and "gm_ok m" and "gm_ok n"
  shows "set (gm_list m) = set (gm_list n)"
proof -
  have look: "gm_lookup m k = gm_lookup n k \<and> gm_lookup m k \<noteq> None" if "k \<in> set (gm_keys m)" for k
    using that assms(1) by (fastforce simp: gm_eq_def list_all_iff split: option.splits)
  then have "set (gm_keys m) \<subseteq> set (gm_keys n)" by (auto simp: gm_keys_lookup)
  moreover have "card (set (gm_keys m)) = card (set (gm_keys n))"
    using assms by (simp add: gm_eq_def gm_len_card [symmetric])
  ultimately have keys: "set (gm_keys m) = set (gm_keys n)" by (simp add: card_subset_eq)
  have "map_of (gm_list m) = map_of (gm_list n)"
  proof
    fix k show "map_of (gm_list m) k = map_of (gm_list n) k"
      using look [of k] keys
      by (metis gm_keys_lookup gm_lookup_def)
  qed
  with assms(2,3) show ?thesis
    by (metis gm_keys_def gm_ok_def map_of_inject_set)
qed

lemma match_admissible_cong:
  assumes "IstioMatch_DeepEqual m n" and "gm_ok (im_Headers m)" "gm_ok (im_SourceLabels m)"
    and "gm_ok (im_Headers n)" "gm_ok (im_SourceLabels n)"
  shows "match_admissible m = match_admissible n"
proof -
  have "set (gm_list (im_Headers m)) = set (gm_list (im_Headers n))"
    and "set (gm_list (im_SourceLabels m)) = set (gm_list (im_SourceLabels n))"
    using assms gm_eq_entries by (auto simp: IstioMatch_DeepEqual_def)
  then show ?thesis
    unfolding match_admissible_def gm_keys_def
    by (metis list.map_disc_iff set_empty)
qed

lemma matches_admissible_cong:
  assumes "IstioMatches_DeepEqual (spec_IstioMatches (de_Spec de)) (spec_IstioMatches (de_Spec old))"
    and "matches_wf de" and "matches_wf old" and "matches_admissible old"
  shows "matches_admissible de"
proof -
  let ?xs = "IstioMatches_list (de_Spec de)" and ?ys = "IstioMatches_list (de_Spec old)"
  have all2: "list_all2 IstioMatch_DeepEqual ?xs ?ys"
    using assms(1) by (auto simp: IstioMatches_DeepEqual_def IstioMatches_list_def split: option.splits)
  have "match_admissible m" if m: "m \<in> set ?xs" for m
  proof -
    obtain i where i: "i < length ?xs" "m = ?xs ! i" using m by (metis in_set_conv_nth)
    with all2 have n: "?ys ! i \<in> set ?ys" "IstioMatch_DeepEqual m (?ys ! i)"
      by (auto simp: list_all2_conv_all_nth)
    with m assms(2-4) match_admissible_cong [OF n(2)] show ?thesis
      by (auto simp: matches_wf_def matches_admissible_def)
  qed
  moreover have "?xs \<noteq> []" using all2 assms(4) by (auto simp: matches_admissible_def)
  ultimately show ?thesis by (simp add: matches_admissible_def)
qed

lemma ValidateUpdate_parts:
  "ValidateUpdate de old = None \<longleftrightarrow>
     IstioMatches_DeepEqual (spec_IstioMatches (de_Spec de)) (spec_IstioMatches (de_Spec old)) \<and>
     subsets_admissible de \<and> (\<forall>s \<in> set (all_subsets old). validateSubsetModifications s (all_subsets de) = None)"
  unfolding validateSubsetsProperties_iff [symmetric]
  by (cases "validateSubsetsProperties de")
    (simp_all add: ValidateUpdate_def validateIstioMatchImmutable_def
      validatePartialUpdateSubsets_def modifications_each_iff all_subsets_def Let_def)

text \<open>
  The contract between the webhook and the controller: once creation establishes a predicate of the
  stored object and every accepted change keeps it, it holds of every object the controller can read.
\<close>

locale admission =
  fixes create_ok :: "'o \<Rightarrow> bool"
    and update_ok :: "'o \<Rightarrow> 'o \<Rightarrow> bool"
    and inv :: "'o \<Rightarrow> bool"
  assumes create_law: "create_ok de \<Longrightarrow> inv de"
    and update_law: "inv old \<Longrightarrow> update_ok de old \<Longrightarrow> inv de"
begin

lemma updates_keep: "inv old \<Longrightarrow> (\<lambda>x y. update_ok y x)\<^sup>*\<^sup>* old de \<Longrightarrow> inv de"
  by (rotate_tac 1, induction rule: rtranclp_induct) (auto intro: update_law)

lemma stored_inv: "create_ok old \<Longrightarrow> (\<lambda>x y. update_ok y x)\<^sup>*\<^sup>* old de \<Longrightarrow> inv de"
  by (rule updates_keep [OF create_law])

end

section \<open>The life of a stored object\<close>

text \<open>
  A dynamic environment is created and then changed: the spec through the webhook, the status, the
  finalizers and the rest of the metadata by writes that leave the spec alone.
\<close>

definition accepted_create :: "DynamicEnv \<Rightarrow> bool" where
  "accepted_create de \<longleftrightarrow> matches_wf de \<and> ValidateCreate de = None"

definition accepted_update :: "DynamicEnv \<Rightarrow> DynamicEnv \<Rightarrow> bool" where
  "accepted_update de old \<longleftrightarrow> matches_wf de \<and> (ValidateUpdate de old = None \<or> de_Spec de = de_Spec old)"

inductive stored :: "DynamicEnv \<Rightarrow> bool" where
  created: "accepted_create de \<Longrightarrow> stored de"
| changed: "stored old \<Longrightarrow> accepted_update de old \<Longrightarrow> stored de"

definition well_admitted :: "DynamicEnv \<Rightarrow> bool" where
  "well_admitted de \<longleftrightarrow> matches_wf de \<and> admissible de"

lemma ValidateCreate_admissible: "ValidateCreate de = None \<longleftrightarrow> admissible de"
  using match_validations_iff [of de] validateSubsetsProperties_iff [of de]
  by (cases "validateIstioMatchAnyOf de"; cases "validateSubsetsProperties de")
    (simp_all add: ValidateCreate_def admissible_def)

interpretation wh: admission accepted_create accepted_update well_admitted
proof unfold_locales
  fix de assume "accepted_create de"
  then show "well_admitted de"
    by (simp add: accepted_create_def well_admitted_def ValidateCreate_admissible)
next
  fix old de assume "well_admitted old" and "accepted_update de old"
  then show "well_admitted de"
    by (auto simp: well_admitted_def accepted_update_def ValidateUpdate_parts admissible_def
        intro: matches_admissible_cong)
      (auto simp: matches_admissible_def subsets_admissible_def all_subsets_def)
qed

lemma stored_well_admitted: "stored de \<Longrightarrow> well_admitted de"
  by (induction rule: stored.induct) (auto intro: wh.create_law wh.update_law)

lemma compareContainers_shape:
  assumes "distinct (map co_ContainerName os)" and "distinct (map co_ContainerName ns)"
  shows "compareContainers os ns = None \<longleftrightarrow> co_ContainerName ` set os = co_ContainerName ` set ns"
proof
  assume eq: "co_ContainerName ` set os = co_ContainerName ` set ns"
  have "length os = length ns"
    using distinct_card [OF assms(1)] distinct_card [OF assms(2)] eq by simp
  with eq show "compareContainers os ns = None" by (simp add: compareContainers_iff)
qed (rule compareContainers_same_names [OF _ assms])

lemma validateSubsetModifications_accepts:
  assumes "subset_admissible old" and "\<forall>t \<in> set ns. subset_admissible t"
    and "\<forall>t \<in> set ns. sub_Name t = sub_Name old \<and> sub_Namespace t = sub_Namespace old \<longrightarrow> same_shape old t"
  shows "validateSubsetModifications old ns = None"
  using assms(2,3)
proof (induction ns)
  case (Cons s ns)
  have "compareContainers (sub_Containers old) (sub_Containers s) = None \<and>
      compareContainers (sub_InitContainers old) (sub_InitContainers s) = None \<and>
      sub_DefaultVersion old = sub_DefaultVersion s"
    if "sub_Name old = sub_Name s" "sub_Namespace old = sub_Namespace s"
    using Cons.prems assms(1) that
    by (simp add: same_shape_def subset_admissible_def compareContainers_shape)
  with Cons show ?case by simp
qed simp

section \<open>Properties\<close>

text \<open>
  C15: creation accepts exactly the admissible environments: at least one match, every match with a
  header or a source label, every header with one and only one of its three alternatives; every
  subset and consumer with a replica count other than zero, with at least one container override and
  without repeated container names; no deployment named twice over subsets and consumers.
\<close>

theorem ValidateCreate_accepts_iff: "ValidateCreate de = None \<longleftrightarrow> admissible de"
  by (rule ValidateCreate_admissible)


definition sample_subset :: Subset where
  "sample_subset = \<lparr>sub_Name = ''details'', sub_Namespace = ''ns'', sub_PodLabels = None, sub_Replicas = None,
     sub_Containers = [\<lparr>co_ContainerName = ''details'', co_Image = ''v2'', co_Command = [], co_Env = []\<rparr>],
     sub_InitContainers = [], sub_DefaultVersion = []\<rparr>"

definition sample_env :: DynamicEnv where
  "sample_env = \<lparr>de_Name = ''env'', de_Namespace = ''ns'', de_Finalizers = [], de_DeletionTimestamp = None,
     de_rest = [],
     de_Spec = \<lparr>spec_IstioMatches = Some [\<lparr>im_Headers = Some [(''end-user'',
                   \<lparr>sm_Exact = ''jason'', sm_Prefix = [], sm_Regex = []\<rparr>)], im_SourceLabels = None\<rparr>],
                spec_Subsets = [sample_subset], spec_Consumers = []\<rparr>,
     de_Status = \<lparr>st_SubsetsStatus = None, st_ConsumersStatus = None, st_State = [], st_TotalCount = 0,
                  st_TotalReady = 0\<rparr>\<rparr>"


text \<open>
  C12: every dynamic environment that can be stored, by an accepted creation and any number of
  accepted updates, status writes and metadata writes, is admissible; in particular no two of its
  subsets and consumers share a key of the status maps.
\<close>

theorem stored_admissible:
  assumes "stored de"
  shows "ValidateCreate de = None \<and> distinct (map MKSubsetName (all_subsets de))"
  using stored_well_admitted [OF assms]
  by (simp add: well_admitted_def ValidateCreate_admissible admissible_def subsets_admissible_def)

theorem stored_admissible_witness:
  "stored sample_env \<and> ValidateCreate sample_env = None"
proof -
  have "matches_wf sample_env"
    by (simp add: matches_wf_def sample_env_def IstioMatches_list_def gm_ok_def gm_keys_def)
  moreover have "ValidateCreate sample_env = None"
    by (simp add: ValidateCreate_admissible admissible_def matches_admissible_def match_admissible_def
        StringMatch_alternatives_def subsets_admissible_def all_subsets_def sample_env_def
        sample_subset_def subset_admissible_def IstioMatches_list_def gm_keys_def)
  ultimately have "stored sample_env" by (auto intro: stored.created simp: accepted_create_def)
  with stored_admissible [OF this] show ?thesis by simp
qed

end
