(* ===== verification/Cluster.thy ===== *)
theory Cluster
  imports Watches
begin

text \<open>
  The Kubernetes and Istio objects the operator reads and writes, and its environment.

  Of each object the model has the fields that the sources touch; a field \<open>..._rest\<close> stands for all the
  others, which are copied along. Slices of pointers are lists of the objects they point to, except
  where the sources keep several pointers to one object (the virtual service handler).

  \<open>Env\<close> is what is not part of the repository: the controller-runtime client, the clock, the order in
  which a \<open>range\<close> loop visits a map, the text that the Istio types print of themselves, and the hash and selector packages. It is an argument of
  every operation that uses it, over an arbitrary type of worlds: a call may change the world, and what
  other clients of the API server do between two calls is part of that change. Nothing is assumed of
  it here; a property that relies on documented behaviour names that behaviour as a hypothesis.
\<close>

section \<open>Objects\<close>

record ObjectMeta =
  om_Name :: string
  om_Namespace :: string
  om_Labels :: "string gomap"
  om_Annotations :: "string gomap"
  om_rest :: string

record Container =
  ctr_Name :: string
  ctr_Image :: string
  ctr_Command :: "string list"
  ctr_Env :: "EnvVar list"
  ctr_rest :: string

record PodTemplate =
  pt_Labels :: "string gomap"
  pt_Containers :: "Container list"
  pt_InitContainers :: "Container list"
  pt_rest :: string

record LabelSelector =
  sel_MatchLabels :: "string gomap"
  sel_rest :: string

record DeploymentSpec =
  dsp_Replicas :: "int option"
  dsp_Selector :: "LabelSelector option"
  dsp_Template :: PodTemplate
  dsp_rest :: string

record DeploymentCondition =
  dc_Type :: string
  dc_Status :: string
  dc_Reason :: string
  dc_LastUpdateTime :: int
  dc_rest :: string

record Deployment =
  dep_Meta :: ObjectMeta
  dep_Spec :: DeploymentSpec
  dep_Conditions :: "DeploymentCondition list"

record Service =
  svc_Name :: string
  svc_Selector :: "string gomap"

record Destination =
  dst_Host :: string
  dst_Subset :: string
  dst_rest :: string

record HeaderOperations =
  ho_Add :: "string gomap"
  ho_rest :: string

record Headers =
  hd_Response :: "HeaderOperations option"
  hd_rest :: string

record HTTPRouteDestination =
  rd_Destination :: "Destination option"
  rd_Weight :: int
  rd_Headers :: "Headers option"

datatype IstioStringMatch = ExactMatch string | PrefixMatch string | RegexMatch string | UnsetMatch

record HTTPMatchRequest =
  mr_Headers :: "IstioStringMatch gomap"
  mr_SourceLabels :: "string gomap"
  mr_rest :: string

record Delegate =
  dg_Name :: string
  dg_Namespace :: string

record HTTPRoute =
  hr_Name :: string
  hr_Match :: "HTTPMatchRequest list"
  hr_Route :: "HTTPRouteDestination list"
  hr_Delegate :: "Delegate option"
  hr_rest :: string

record VirtualService =
  vs_Meta :: ObjectMeta
  vs_Hosts :: "string list"
  vs_Http :: "HTTPRoute list"
  vs_rest :: string

record IstioSubset =
  is_Name :: string
  is_Labels :: "string gomap"
  is_rest :: string

record DestinationRule =
  dr_Meta :: ObjectMeta
  dr_Host :: string
  dr_Subsets :: "IstioSubset list"
  dr_rest :: string

abbreviation dep_Name :: "Deployment \<Rightarrow> string" where "dep_Name d \<equiv> om_Name (dep_Meta d)"
abbreviation vs_Name :: "VirtualService \<Rightarrow> string" where "vs_Name v \<equiv> om_Name (vs_Meta v)"
abbreviation vs_Namespace :: "VirtualService \<Rightarrow> string" where "vs_Namespace v \<equiv> om_Namespace (vs_Meta v)"
abbreviation dr_Namespace :: "DestinationRule \<Rightarrow> string" where "dr_Namespace d \<equiv> om_Namespace (dr_Meta d)"

section \<open>The environment\<close>

text \<open>
  A \<open>Get\<close> or \<open>List\<close> returns the object or the error. An \<open>Update\<close> writes the server's answer into the
  object it is given: where the sources use the object afterwards, the call returns it next to the
  error. \<open>RangeOrder\<close> is the order in which a loop visits the keys of a map.
\<close>

record 'w Env =
  GetDynamicEnv :: "NamespacedName \<Rightarrow> 'w \<Rightarrow> (goerror + DynamicEnv) \<times> 'w"
  GetDeployment :: "NamespacedName \<Rightarrow> 'w \<Rightarrow> (goerror + Deployment) \<times> 'w"
  GetVirtualService :: "NamespacedName \<Rightarrow> 'w \<Rightarrow> (goerror + VirtualService) \<times> 'w"
  GetDestinationRule :: "NamespacedName \<Rightarrow> 'w \<Rightarrow> (goerror + DestinationRule) \<times> 'w"
  ListDynamicEnvs :: "'w \<Rightarrow> (goerror + DynamicEnv list) \<times> 'w"
  ListVirtualServices :: "'w \<Rightarrow> (goerror + VirtualService list) \<times> 'w"
  ListDestinationRules :: "string \<Rightarrow> 'w \<Rightarrow> (goerror + DestinationRule list) \<times> 'w"
  ListServices :: "string \<Rightarrow> 'w \<Rightarrow> (goerror + Service list) \<times> 'w"
  CreateDeployment :: "Deployment \<Rightarrow> 'w \<Rightarrow> goerror option \<times> 'w"
  CreateDestinationRule :: "DestinationRule \<Rightarrow> 'w \<Rightarrow> goerror option \<times> 'w"
  UpdateDeployment :: "Deployment \<Rightarrow> 'w \<Rightarrow> goerror option \<times> 'w"
  UpdateVirtualService :: "VirtualService \<Rightarrow> 'w \<Rightarrow> (goerror option \<times> VirtualService) \<times> 'w"
  UpdateDynamicEnv :: "DynamicEnv \<Rightarrow> 'w \<Rightarrow> (goerror option \<times> DynamicEnv) \<times> 'w"
  UpdateDynamicEnvStatus :: "DynamicEnv \<Rightarrow> 'w \<Rightarrow> (goerror option \<times> DynamicEnv) \<times> 'w"
  DeleteDeployment :: "Deployment \<Rightarrow> 'w \<Rightarrow> goerror option \<times> 'w"
  DeleteDestinationRule :: "DestinationRule \<Rightarrow> 'w \<Rightarrow> goerror option \<times> 'w"
  RangeOrder :: "string list \<Rightarrow> 'w \<Rightarrow> string list \<times> 'w"
  TimeNow :: "'w \<Rightarrow> int \<times> 'w"
  HashStructure :: "Subset \<Rightarrow> goerror + 64 word"
  RouteText :: "HTTPRoute \<Rightarrow> string" \<comment> \<open>what \<open>%v\<close> prints of a route\<close>
  AsValidatedSelector :: "string gomap \<Rightarrow> goerror + (string gomap \<Rightarrow> bool)"
  LabelsString :: "string gomap \<Rightarrow> string"

section \<open>The state of a reconcile loop\<close>

text \<open>
  The dynamic environment is one object in memory that the reconciler, the status manager, the cleanup
  manager and the handlers share through a pointer; it is part of the state, next to the world.
\<close>

record 'w loop_state =
  cur_de :: DynamicEnv
  world :: 'w

type_synonym ('w, 'a) go = "('w loop_state, 'a) prog"

definition call :: "('w \<Rightarrow> 'a \<times> 'w) \<Rightarrow> ('w, 'a) go" where
  "call f = (\<lambda>s. case f (world s) of (x, w) \<Rightarrow> (Done x, s\<lparr>world := w\<rparr>))"

definition readDE :: "('w, DynamicEnv) go" where
  "readDE = (\<lambda>s. (Done (cur_de s), s))"

definition writeDE :: "DynamicEnv \<Rightarrow> ('w, unit) go" where
  "writeDE de = (\<lambda>s. (Done (), s\<lparr>cur_de := de\<rparr>))"

definition write_back :: "(DynamicEnv \<Rightarrow> 'w \<Rightarrow> (goerror option \<times> DynamicEnv) \<times> 'w) \<Rightarrow> ('w, goerror option) go" where
  "write_back f = (\<lambda>s. case f (cur_de s) (world s) of ((err, de), w) \<Rightarrow>
     (Done err, s\<lparr>cur_de := de, world := w\<rparr>))"

definition StatusUpdate :: "'w Env \<Rightarrow> ('w, goerror option) go" where
  \<comment> \<open>\<open>Status().Update(ctx, de)\<close>\<close>
  "StatusUpdate c = write_back (UpdateDynamicEnvStatus c)"

definition UpdateDE :: "'w Env \<Rightarrow> ('w, goerror option) go" where
  \<comment> \<open>\<open>Update(ctx, de)\<close>\<close>
  "UpdateDE c = write_back (UpdateDynamicEnv c)"

definition modifyStatus :: "(DynamicEnvStatus \<Rightarrow> DynamicEnvStatus) \<Rightarrow> ('w, unit) go" where
  "modifyStatus f = (\<lambda>s. (Done (), s\<lparr>cur_de := (cur_de s)\<lparr>de_Status := f (de_Status (cur_de s))\<rparr>\<rparr>))"

lemma readDE_apply [simp]: "readDE s = (Done (cur_de s), s)"
  by (simp add: readDE_def)

lemma writeDE_apply [simp]: "writeDE de s = (Done (), s\<lparr>cur_de := de\<rparr>)"
  by (simp add: writeDE_def)

lemma modifyStatus_apply [simp]:
  "modifyStatus f s = (Done (), s\<lparr>cur_de := (cur_de s)\<lparr>de_Status := f (de_Status (cur_de s))\<rparr>\<rparr>)"
  by (simp add: modifyStatus_def)

lemma call_apply [go_simps]: "call f s = (case f (world s) of (x, w) \<Rightarrow> (Done x, s\<lparr>world := w\<rparr>))"
  by (simp add: call_def)

lemma write_back_apply [go_simps]:
  "write_back f s = (case f (cur_de s) (world s) of ((err, de), w) \<Rightarrow>
     (Done err, s\<lparr>cur_de := de, world := w\<rparr>))"
  by (simp add: write_back_def)

lemma call_Done_iff:
  "call f s = (Done x, t) \<longleftrightarrow> f (world s) = (x, world t) \<and> t = s\<lparr>world := world t\<rparr>"
  by (auto simp: call_def split: prod.splits)

lemma call_not_Panic [simp]: "call f s \<noteq> (Panic, t)"
  by (simp add: call_def split: prod.splits)

lemma write_back_not_Panic [simp]: "write_back f s \<noteq> (Panic, t)"
  by (simp add: write_back_def split: prod.splits)

lemma readDE_iff [simp]: "readDE s = (r, t) \<longleftrightarrow> r = Done (cur_de s) \<and> t = s"
  by auto

lemma modifyStatus_iff:
  "modifyStatus f s = (r, t) \<longleftrightarrow>
     r = Done () \<and> t = s\<lparr>cur_de := (cur_de s)\<lparr>de_Status := f (de_Status (cur_de s))\<rparr>\<rparr>"
  by auto

lemma returns_call [wp]:
  "returns (call f) s P \<longleftrightarrow> (case f (world s) of (x, w) \<Rightarrow> P x (s\<lparr>world := w\<rparr>))"
  by (simp add: returns_def call_def split: prod.splits)

lemma returns_readDE [wp]: "returns readDE s P \<longleftrightarrow> P (cur_de s) s"
  by (simp add: returns_def)

lemma returns_writeDE [wp]: "returns (writeDE de) s P \<longleftrightarrow> P () (s\<lparr>cur_de := de\<rparr>)"
  by (simp add: returns_def)

lemma returns_lift_outcome [wp]:
  "returns (lift_outcome r) s P \<longleftrightarrow> (case r of Done x \<Rightarrow> P x s | Panic \<Rightarrow> False)"
  by (simp add: returns_def)

lemma returns_modifyStatus [wp]:
  "returns (modifyStatus f) s P \<longleftrightarrow>
     P () (s\<lparr>cur_de := (cur_de s)\<lparr>de_Status := f (de_Status (cur_de s))\<rparr>\<rparr>)"
  by (simp add: returns_def)

lemma returns_write_back [wp]:
  "returns (write_back f) s P \<longleftrightarrow>
     (case f (cur_de s) (world s) of ((err, de), w) \<Rightarrow> P err (s\<lparr>cur_de := de, world := w\<rparr>))"
  by (simp add: returns_def write_back_def split: prod.splits)

lemma yields_call [yields_simps]:
  "yields (call f) s Q \<longleftrightarrow> (case f (world s) of (x, w) \<Rightarrow> Q x (s\<lparr>world := w\<rparr>))"
  by (auto simp: yields_def call_def split: prod.splits)

lemma yields_readDE [yields_simps]: "yields readDE s Q \<longleftrightarrow> Q (cur_de s) s"
  by (simp add: yields_def)

lemma yields_writeDE [yields_simps]: "yields (writeDE de) s Q \<longleftrightarrow> Q () (s\<lparr>cur_de := de\<rparr>)"
  by (simp add: yields_def)

lemma yields_modifyStatus [yields_simps]:
  "yields (modifyStatus f) s Q \<longleftrightarrow> Q () (s\<lparr>cur_de := (cur_de s)\<lparr>de_Status := f (de_Status (cur_de s))\<rparr>\<rparr>)"
  by (simp add: yields_def)

section \<open>Frame rules\<close>

text \<open>
  \<open>world_pred P\<close> lifts a predicate of the world; a call of the environment keeps it when the
  environment's function does. These are the rules that prove what an operation leaves alone.
\<close>

definition keepsW :: "('w \<Rightarrow> bool) \<Rightarrow> ('w \<Rightarrow> 'a \<times> 'w) \<Rightarrow> bool" where
  "keepsW P f \<longleftrightarrow> (\<forall>w. P w \<longrightarrow> P (snd (f w)))"

abbreviation world_pred :: "('w \<Rightarrow> bool) \<Rightarrow> 'w loop_state \<Rightarrow> bool" where
  "world_pred P \<equiv> (\<lambda>s. P (world s))"

lemma keeps_call: "keepsW P f \<Longrightarrow> keeps (world_pred P) (call f)"
  unfolding keeps_def keepsW_def call_def by (auto split: prod.split)

lemma keeps_write_back: "(\<And>de. keepsW P (f de)) \<Longrightarrow> keeps (world_pred P) (write_back f)"
  unfolding keeps_def keepsW_def write_back_def by (auto split: prod.split) (metis snd_conv)

lemma keeps_readDE [keeps_intro]: "keeps I readDE"
  by (simp add: keeps_def)

lemma keeps_writeDE [keeps_intro]: "keeps (world_pred P) (writeDE de)"
  by (simp add: keeps_def)

lemma keeps_modifyStatus [keeps_intro]: "keeps (world_pred P) (modifyStatus f)"
  by (simp add: keeps_def)

text \<open>An operation that keeps the shared object as it is.\<close>

abbreviation de_is :: "DynamicEnv \<Rightarrow> 'w loop_state \<Rightarrow> bool" where
  "de_is de \<equiv> (\<lambda>s. cur_de s = de)"

lemma keeps_call_de [keeps_intro]: "keeps (de_is de) (call f)"
  by (simp add: keeps_def call_def split: prod.splits)

end
