(* ===== verification/Memory_Env.thy ===== *)
theory Memory_Env
  imports Cluster
begin

text \<open>
  A concrete environment: an API server that keeps its objects in lists, in one process and without
  other clients. It is an executable instance of \<open>Env\<close>, on which the witnesses of the properties
  evaluate the operations; no property is restricted to it.
\<close>

record mem =
  m_des :: "DynamicEnv list"
  m_deps :: "Deployment list"
  m_vss :: "VirtualService list"
  m_drs :: "DestinationRule list"
  m_svcs :: "(string \<times> Service) list"
  m_clock :: int

definition not_found :: goerror where
  "not_found = APIError NotFound ''not found''"

definition already_exists :: goerror where
  "already_exists = APIError (OtherReason ''AlreadyExists'') ''already exists''"

abbreviation meta_key :: "ObjectMeta \<Rightarrow> NamespacedName" where
  "meta_key m \<equiv> \<lparr>nn_Namespace = om_Namespace m, nn_Name = om_Name m\<rparr>"

abbreviation de_key :: "DynamicEnv \<Rightarrow> NamespacedName" where
  "de_key de \<equiv> \<lparr>nn_Namespace = de_Namespace de, nn_Name = de_Name de\<rparr>"

fun fetch :: "('a \<Rightarrow> NamespacedName) \<Rightarrow> NamespacedName \<Rightarrow> 'a list \<Rightarrow> goerror + 'a" where
  "fetch key nn [] = Inl not_found"
| "fetch key nn (x # xs) = (if key x = nn then Inr x else fetch key nn xs)"

definition replace :: "('a \<Rightarrow> NamespacedName) \<Rightarrow> 'a \<Rightarrow> 'a list \<Rightarrow> 'a list" where
  "replace key x xs = map (\<lambda>y. if key y = key x then x else y) xs"

definition erase :: "('a \<Rightarrow> NamespacedName) \<Rightarrow> 'a \<Rightarrow> 'a list \<Rightarrow> 'a list" where
  "erase key x xs = filter (\<lambda>y. key y \<noteq> key x) xs"

definition absent :: "('a \<Rightarrow> NamespacedName) \<Rightarrow> 'a \<Rightarrow> 'a list \<Rightarrow> goerror option" where
  "absent key x xs = (if list_ex (\<lambda>y. key y = key x) xs then None else Some not_found)"

definition present :: "('a \<Rightarrow> NamespacedName) \<Rightarrow> 'a \<Rightarrow> 'a list \<Rightarrow> goerror option" where
  "present key x xs = (if list_ex (\<lambda>y. key y = key x) xs then Some already_exists else None)"

definition insert_new :: "('a \<Rightarrow> NamespacedName) \<Rightarrow> 'a \<Rightarrow> 'a list \<Rightarrow> 'a list" where
  "insert_new key x xs = (if list_ex (\<lambda>y. key y = key x) xs then xs else xs @ [x])"

definition labels_match :: "string gomap \<Rightarrow> string gomap \<Rightarrow> bool" where
  "labels_match sel ls = list_all (\<lambda>(k, v). gm_lookup ls k = Some v) (gm_list sel)"

definition mem_env :: "mem Env" where
  "mem_env = \<lparr>
     GetDynamicEnv = (\<lambda>nn w. (fetch de_key nn (m_des w), w)),
     GetDeployment = (\<lambda>nn w. (fetch (\<lambda>d. meta_key (dep_Meta d)) nn (m_deps w), w)),
     GetVirtualService = (\<lambda>nn w. (fetch (\<lambda>d. meta_key (vs_Meta d)) nn (m_vss w), w)),
     GetDestinationRule = (\<lambda>nn w. (fetch (\<lambda>d. meta_key (dr_Meta d)) nn (m_drs w), w)),
     ListDynamicEnvs = (\<lambda>w. (Inr (m_des w), w)),
     ListVirtualServices = (\<lambda>w. (Inr (m_vss w), w)),
     ListDestinationRules = (\<lambda>ns w. (Inr (filter (\<lambda>d. dr_Namespace d = ns) (m_drs w)), w)),
     ListServices = (\<lambda>ns w. (Inr (map snd (filter (\<lambda>(n, _). n = ns) (m_svcs w))), w)),
     CreateDeployment = (\<lambda>d w. (present (\<lambda>d. meta_key (dep_Meta d)) d (m_deps w),
        w\<lparr>m_deps := insert_new (\<lambda>d. meta_key (dep_Meta d)) d (m_deps w)\<rparr>)),
     CreateDestinationRule = (\<lambda>d w. (present (\<lambda>d. meta_key (dr_Meta d)) d (m_drs w),
        w\<lparr>m_drs := insert_new (\<lambda>d. meta_key (dr_Meta d)) d (m_drs w)\<rparr>)),
     UpdateDeployment = (\<lambda>d w. (absent (\<lambda>d. meta_key (dep_Meta d)) d (m_deps w),
        w\<lparr>m_deps := replace (\<lambda>d. meta_key (dep_Meta d)) d (m_deps w)\<rparr>)),
     UpdateVirtualService = (\<lambda>d w. ((absent (\<lambda>d. meta_key (vs_Meta d)) d (m_vss w), d),
        w\<lparr>m_vss := replace (\<lambda>d. meta_key (vs_Meta d)) d (m_vss w)\<rparr>)),
     UpdateDynamicEnv = (\<lambda>d w. ((absent de_key d (m_des w), d), w\<lparr>m_des := replace de_key d (m_des w)\<rparr>)),
     UpdateDynamicEnvStatus = (\<lambda>d w. ((absent de_key d (m_des w), d), w\<lparr>m_des := replace de_key d (m_des w)\<rparr>)),
     DeleteDeployment = (\<lambda>d w. (absent (\<lambda>d. meta_key (dep_Meta d)) d (m_deps w),
        w\<lparr>m_deps := erase (\<lambda>d. meta_key (dep_Meta d)) d (m_deps w)\<rparr>)),
     DeleteDestinationRule = (\<lambda>d w. (absent (\<lambda>d. meta_key (dr_Meta d)) d (m_drs w),
        w\<lparr>m_drs := erase (\<lambda>d. meta_key (dr_Meta d)) d (m_drs w)\<rparr>)),
     RangeOrder = (\<lambda>ks w. (ks, w)),
     TimeNow = (\<lambda>w. (m_clock w, w\<lparr>m_clock := m_clock w + 1\<rparr>)),
     HashStructure = (\<lambda>s. Inr (of_nat (7 + length (concat (map co_Image (sub_Containers s)))))),
     RouteText = (\<lambda>r. ''abc''),
     AsValidatedSelector = (\<lambda>sel. Inr (labels_match sel)),
     LabelsString = (\<lambda>ls. ''labels'')\<rparr>"

definition empty_mem :: mem where
  "empty_mem = \<lparr>m_des = [], m_deps = [], m_vss = [], m_drs = [], m_svcs = [], m_clock = 0\<rparr>"

lemmas mem_defs = mem_env_def empty_mem_def replace_def erase_def absent_def present_def insert_new_def
  not_found_def already_exists_def labels_match_def

end
