(* ===== verification/Model_Types.thy ===== *)
theory Model_Types
  imports Cluster
begin

text \<open>
  The data passed between the reconciler, the managers and the handlers, \<^verbatim>\<open>pkg/model/types.go\<close>, the
  result of a reconcile call, and the trace of what is asked of the API server.

  The \<open>StatusManager\<close> field of \<open>DynamicEnvReconcileData\<close> is a pointer to a manager that holds the client
  and the shared dynamic environment. Both are part of the model's context: the client is the \<open>Env\<close>
  argument and the environment is \<open>cur_de\<close>.
\<close>

record DynamicEnvReconcileData =
  rd_Identifier :: NamespacedName
  rd_BaseDeployment :: Deployment
  rd_Subset :: Subset
  rd_Matches :: "IstioMatch list"

record SubsetType =
  sbt_Type :: SubsetOrConsumer
  sbt_Subset :: Subset

text \<open>\<open>ctrl.Result\<close>; the sources set no other field.\<close>

record Result =
  Requeue :: bool

definition Result_zero :: Result where
  "Result_zero = \<lparr>Requeue = False\<rparr>"

section \<open>Errors that do not mask each other\<close>

record NonMaskingError =
  nme_error :: "goerror option"

definition SetIfNotMasking :: "NonMaskingError \<Rightarrow> goerror option \<Rightarrow> NonMaskingError" where
  "SetIfNotMasking err e = (if nme_error err = None then err\<lparr>nme_error := e\<rparr> else err)"

definition ForceError :: "NonMaskingError \<Rightarrow> goerror option \<Rightarrow> NonMaskingError" where
  "ForceError err e = err\<lparr>nme_error := e\<rparr>"

definition NonMaskingError_Get :: "NonMaskingError \<Rightarrow> goerror option" where
  "NonMaskingError_Get err = nme_error err"

definition NonMaskingError_IsNil :: "NonMaskingError \<Rightarrow> bool" where
  "NonMaskingError_IsNil err \<longleftrightarrow> nme_error err = None"

lemma SetIfNotMasking_error [simp]:
  "nme_error (SetIfNotMasking err e) = (case nme_error err of None \<Rightarrow> e | Some x \<Rightarrow> Some x)"
  by (simp add: SetIfNotMasking_def split: option.split)

lemma ForceError_error [simp]: "nme_error (ForceError err e) = e"
  by (simp add: ForceError_def)

section \<open>Traces\<close>

text \<open>
  \<open>traced c\<close> is the environment \<open>c\<close> with a log next to the world: every request for a single object
  or change of one is appended with the server's answer. The environment behaves as before, so what is
  proved of a run in \<open>traced c\<close> speaks of the requests that the operator makes in \<open>c\<close>.
\<close>

datatype effect =
    GotDynamicEnv NamespacedName "goerror + DynamicEnv"
  | GotDeployment NamespacedName "goerror + Deployment"
  | GotVirtualService NamespacedName "goerror + VirtualService"
  | GotDestinationRule NamespacedName "goerror + DestinationRule"
  | CreatedDeployment Deployment "goerror option"
  | CreatedDestinationRule DestinationRule "goerror option"
  | UpdatedDeployment Deployment "goerror option"
  | UpdatedVirtualService VirtualService "goerror option"
  | UpdatedDynamicEnv DynamicEnv "goerror option"
  | UpdatedStatus DynamicEnv "goerror option"
  | DeletedDeployment Deployment "goerror option"
  | DeletedDestinationRule DestinationRule "goerror option"

definition log_call :: "('a \<Rightarrow> effect) \<Rightarrow> ('w \<Rightarrow> 'a \<times> 'w) \<Rightarrow> 'w \<times> effect list \<Rightarrow> 'a \<times> 'w \<times> effect list" where
  "log_call e f = (\<lambda>(w, es). case f w of (x, w') \<Rightarrow> (x, w', es @ [e x]))"

definition silent :: "('w \<Rightarrow> 'a \<times> 'w) \<Rightarrow> 'w \<times> effect list \<Rightarrow> 'a \<times> 'w \<times> effect list" where
  "silent f = (\<lambda>(w, es). case f w of (x, w') \<Rightarrow> (x, w', es))"

definition traced :: "'w Env \<Rightarrow> ('w \<times> effect list) Env" where
  "traced c = \<lparr>
     GetDynamicEnv = (\<lambda>nn. log_call (GotDynamicEnv nn) (GetDynamicEnv c nn)),
     GetDeployment = (\<lambda>nn. log_call (GotDeployment nn) (GetDeployment c nn)),
     GetVirtualService = (\<lambda>nn. log_call (GotVirtualService nn) (GetVirtualService c nn)),
     GetDestinationRule = (\<lambda>nn. log_call (GotDestinationRule nn) (GetDestinationRule c nn)),
     ListDynamicEnvs = silent (ListDynamicEnvs c),
     ListVirtualServices = silent (ListVirtualServices c),
     ListDestinationRules = (\<lambda>ns. silent (ListDestinationRules c ns)),
     ListServices = (\<lambda>ns. silent (ListServices c ns)),
     CreateDeployment = (\<lambda>d. log_call (CreatedDeployment d) (CreateDeployment c d)),
     CreateDestinationRule = (\<lambda>d. log_call (CreatedDestinationRule d) (CreateDestinationRule c d)),
     UpdateDeployment = (\<lambda>d. log_call (UpdatedDeployment d) (UpdateDeployment c d)),
     UpdateVirtualService = (\<lambda>d. log_call (\<lambda>(err, _). UpdatedVirtualService d err) (UpdateVirtualService c d)),
     UpdateDynamicEnv = (\<lambda>d. log_call (\<lambda>(err, _). UpdatedDynamicEnv d err) (UpdateDynamicEnv c d)),
     UpdateDynamicEnvStatus = (\<lambda>d. log_call (\<lambda>(err, _). UpdatedStatus d err) (UpdateDynamicEnvStatus c d)),
     DeleteDeployment = (\<lambda>d. log_call (DeletedDeployment d) (DeleteDeployment c d)),
     DeleteDestinationRule = (\<lambda>d. log_call (DeletedDestinationRule d) (DeleteDestinationRule c d)),
     RangeOrder = (\<lambda>ks. silent (RangeOrder c ks)),
     TimeNow = silent (TimeNow c),
     HashStructure = HashStructure c,
     RouteText = RouteText c,
     AsValidatedSelector = AsValidatedSelector c,
     LabelsString = LabelsString c\<rparr>"

abbreviation log_of :: "('w \<times> effect list) loop_state \<Rightarrow> effect list" where
  "log_of s \<equiv> snd (world s)"

text \<open>
  \<open>does A m\<close>: every request that \<open>m\<close> makes satisfies \<open>A\<close>, whatever the server answers, also when the
  run panics; the log only grows.
\<close>

definition does :: "(effect \<Rightarrow> bool) \<Rightarrow> ('w \<times> effect list, 'a) go \<Rightarrow> bool" where
  "does A m \<longleftrightarrow> (\<forall>s. \<exists>es. log_of (snd (m s)) = log_of s @ es \<and> list_all A es)"

lemma doesD:
  assumes "does A m" and "m s = (r, t)"
  obtains es where "log_of t = log_of s @ es" and "list_all A es"
  using assms unfolding does_def by (metis snd_conv)

lemma does_weaken: "does A m \<Longrightarrow> (\<And>e. A e \<Longrightarrow> B e) \<Longrightarrow> does B m"
  unfolding does_def list_all_iff by metis

named_theorems does_intro \<open>rules that collect the requests a call makes\<close>

lemma does_ret [does_intro]: "does A (ret x)" "does A (Pair r)" "does A panic" "does A (lift_outcome r)"
  by (simp_all add: does_def)

lemma does_bnd_yields:
  assumes "does A m" and "\<And>s x t. m s = (Done x, t) \<Longrightarrow> Q x" and "\<And>x. Q x \<Longrightarrow> does A (f x)"
  shows "does A (bnd m f)"
  unfolding does_def
proof
  fix s
  obtain r t where m: "m s = (r, t)" by fastforce
  then obtain es where es: "log_of t = log_of s @ es" "list_all A es" using doesD [OF assms(1)] by blast
  show "\<exists>es. log_of (snd (bnd m f s)) = log_of s @ es \<and> list_all A es"
  proof (cases r)
    case (Done x)
    then have "does A (f x)" using assms(2,3) m by blast
    then obtain fs where "log_of (snd (f x t)) = log_of t @ fs" "list_all A fs"
      unfolding does_def by blast
    with m es Done show ?thesis by (auto simp: bnd_apply)
  next
    case Panic
    with m es show ?thesis by (auto simp: bnd_apply)
  qed
qed

lemma does_bnd [does_intro]: "does A m \<Longrightarrow> (\<And>x. does A (f x)) \<Longrightarrow> does A (bnd m f)"
  by (rule does_bnd_yields [where Q = "\<lambda>_. True"]) auto

lemma does_if [does_intro]: "does A m \<Longrightarrow> does A n \<Longrightarrow> does A (if b then m else n)"
  by simp

lemma does_option [does_intro]:
  "does A m \<Longrightarrow> (\<And>x. v = Some x \<Longrightarrow> does A (f x)) \<Longrightarrow> does A (case v of None \<Rightarrow> m | Some x \<Rightarrow> f x)"
  by (cases v) simp_all

lemma does_sum [does_intro]:
  "(\<And>e. v = Inl e \<Longrightarrow> does A (f e)) \<Longrightarrow> (\<And>x. v = Inr x \<Longrightarrow> does A (g x)) \<Longrightarrow>
     does A (case v of Inl e \<Rightarrow> f e | Inr x \<Rightarrow> g x)"
  by (cases v) simp_all

lemma does_prod [does_intro]: "(\<And>a b. v = (a, b) \<Longrightarrow> does A (f a b)) \<Longrightarrow> does A (case v of (a, b) \<Rightarrow> f a b)"
  by (cases v) simp

lemma does_let [does_intro]: "does A (f v) \<Longrightarrow> does A (let x = v in f x)"
  by simp

lemma does_state [does_intro]: "does A readDE" "does A (writeDE de)" "does A (modifyStatus f)"
  by (simp_all add: does_def)

lemma does_log_call: "(\<And>x. A (e x)) \<Longrightarrow> does A (call (log_call e f))"
  by (auto simp: does_def call_def log_call_def split: prod.splits)

lemma does_silent: "does A (call (silent f))"
  by (auto simp: does_def call_def silent_def split: prod.splits)

lemma does_write_back: "(\<And>de x. A (e de x)) \<Longrightarrow> does A (write_back (\<lambda>de. log_call (e de) (f de)))"
  by (auto simp: does_def write_back_def log_call_def split: prod.splits)

lemma traced_sel [simp]:
  "GetDynamicEnv (traced c) = (\<lambda>nn. log_call (GotDynamicEnv nn) (GetDynamicEnv c nn))"
  "GetDeployment (traced c) = (\<lambda>nn. log_call (GotDeployment nn) (GetDeployment c nn))"
  "GetVirtualService (traced c) = (\<lambda>nn. log_call (GotVirtualService nn) (GetVirtualService c nn))"
  "GetDestinationRule (traced c) = (\<lambda>nn. log_call (GotDestinationRule nn) (GetDestinationRule c nn))"
  "ListDynamicEnvs (traced c) = silent (ListDynamicEnvs c)"
  "ListVirtualServices (traced c) = silent (ListVirtualServices c)"
  "ListDestinationRules (traced c) = (\<lambda>ns. silent (ListDestinationRules c ns))"
  "ListServices (traced c) = (\<lambda>ns. silent (ListServices c ns))"
  "CreateDeployment (traced c) = (\<lambda>d. log_call (CreatedDeployment d) (CreateDeployment c d))"
  "CreateDestinationRule (traced c) = (\<lambda>d. log_call (CreatedDestinationRule d) (CreateDestinationRule c d))"
  "UpdateDeployment (traced c) = (\<lambda>d. log_call (UpdatedDeployment d) (UpdateDeployment c d))"
  "UpdateVirtualService (traced c) =
     (\<lambda>d. log_call (\<lambda>(err, _). UpdatedVirtualService d err) (UpdateVirtualService c d))"
  "UpdateDynamicEnv (traced c) = (\<lambda>d. log_call (\<lambda>(err, _). UpdatedDynamicEnv d err) (UpdateDynamicEnv c d))"
  "UpdateDynamicEnvStatus (traced c) =
     (\<lambda>d. log_call (\<lambda>(err, _). UpdatedStatus d err) (UpdateDynamicEnvStatus c d))"
  "DeleteDeployment (traced c) = (\<lambda>d. log_call (DeletedDeployment d) (DeleteDeployment c d))"
  "DeleteDestinationRule (traced c) = (\<lambda>d. log_call (DeletedDestinationRule d) (DeleteDestinationRule c d))"
  "RangeOrder (traced c) = (\<lambda>ks. silent (RangeOrder c ks))"
  "TimeNow (traced c) = silent (TimeNow c)"
  "HashStructure (traced c) = HashStructure c" "RouteText (traced c) = RouteText c"
  "AsValidatedSelector (traced c) = AsValidatedSelector c" "LabelsString (traced c) = LabelsString c"
  by (simp_all add: traced_def)

lemma silent_eq: "silent f (w, es) = (case f w of (x, w') \<Rightarrow> (x, w', es))"
  by (simp add: silent_def)

lemma log_call_eq: "log_call e f (w, es) = (case f w of (x, w') \<Rightarrow> (x, w', es @ [e x]))"
  by (simp add: log_call_def)

lemma does_call_traced [does_intro]:
  "(\<And>r. A (GotDeployment nn r)) \<Longrightarrow> does A (call (GetDeployment (traced c) nn))"
  "(\<And>r. A (GotVirtualService nn r)) \<Longrightarrow> does A (call (GetVirtualService (traced c) nn))"
  "(\<And>r. A (GotDestinationRule nn r)) \<Longrightarrow> does A (call (GetDestinationRule (traced c) nn))"
  "(\<And>r. A (DeletedDeployment dep r)) \<Longrightarrow> does A (call (DeleteDeployment (traced c) dep))"
  "(\<And>r. A (DeletedDestinationRule dr r)) \<Longrightarrow> does A (call (DeleteDestinationRule (traced c) dr))"
  "(\<And>r. A (CreatedDeployment dep r)) \<Longrightarrow> does A (call (CreateDeployment (traced c) dep))"
  "(\<And>r. A (CreatedDestinationRule dr r)) \<Longrightarrow> does A (call (CreateDestinationRule (traced c) dr))"
  "(\<And>r. A (UpdatedDeployment dep r)) \<Longrightarrow> does A (call (UpdateDeployment (traced c) dep))"
  "(\<And>r. A (UpdatedVirtualService vs r)) \<Longrightarrow> does A (call (UpdateVirtualService (traced c) vs))"
  "does A (call (RangeOrder (traced c) ks))" "does A (call (TimeNow (traced c)))"
  "does A (call (ListVirtualServices (traced c)))" "does A (call (ListDestinationRules (traced c) ns))"
  "does A (call (ListServices (traced c) ns))"
  by (auto intro!: does_log_call does_silent)

lemma does_update_traced [does_intro]:
  "(\<And>de r. A (UpdatedDynamicEnv de r)) \<Longrightarrow> does A (UpdateDE (traced c))"
  "(\<And>de r. A (UpdatedStatus de r)) \<Longrightarrow> does A (StatusUpdate (traced c))"
  unfolding UpdateDE_def StatusUpdate_def by (auto intro!: does_write_back)

end
