(* ===== verification/Status_Manager.thy ===== *)
theory Status_Manager
  imports Memory_Env Model_Types
begin

text \<open>
  The status manager, \<^verbatim>\<open>pkg/model/status_manager.go\<close>: it keeps the status of the dynamic environment in
  memory up to date and writes it to the API server. The four sections of the status that hold resource
  statuses (the deployment of a subset, the deployment of a consumer, the destination rules and the
  virtual services of a subset) share one contract, the locale \<open>status_section\<close>.
\<close>

section \<open>Pure helpers\<close>

fun sync_loop :: "ResourceStatus \<Rightarrow> ResourceStatus list \<Rightarrow> bool \<times> bool \<times> ResourceStatus list" where
  \<comment> \<open>the loop: whether the resource exists, whether its status differs, the new list\<close>
  "sync_loop s [] = (False, False, [])"
| "sync_loop s (resource # currentStatuses) =
     (let (exists, modified, result) = sync_loop s currentStatuses
      in if rs_Name resource = rs_Name s \<and> rs_Namespace resource = rs_Namespace s then
           if rs_Status resource \<noteq> rs_Status s then (True, True, s # result)
           else (True, modified, resource # result)
         else (exists, modified, resource # result))"

definition SyncStatusResources :: "ResourceStatus \<Rightarrow> ResourceStatus list \<Rightarrow> bool \<times> ResourceStatus list" where
  "SyncStatusResources s currentStatuses =
     (let (exists, modified, result) = sync_loop s currentStatuses
      in if \<not> exists then (True, result @ [s]) else (modified, result))"

definition SafeGetSubsetErrors :: "SubsetStatus \<Rightarrow> SubsetErrors" where
  "SafeGetSubsetErrors status = (case ss_Errors status of Some errs \<Rightarrow> errs | None \<Rightarrow> SubsetErrors_zero)"

definition int64_of :: "64 word \<Rightarrow> int" where
  "int64_of h = sint h"

definition uint64_of :: "int \<Rightarrow> 64 word" where
  "uint64_of i = word_of_int i"

definition GetHashForSubset :: "DynamicEnv \<Rightarrow> string \<Rightarrow> 64 word" where
  "GetHashForSubset de name =
     (case gm_lookup (st_SubsetsStatus (de_Status de)) name of
        None \<Rightarrow> 0
      | Some subsetStatus \<Rightarrow> uint64_of (ss_Hash subsetStatus))"

definition GetHashForConsumer :: "DynamicEnv \<Rightarrow> string \<Rightarrow> 64 word" where
  "GetHashForConsumer de name =
     (case gm_lookup (st_ConsumersStatus (de_Status de)) name of
        None \<Rightarrow> 0
      | Some consumerStatus \<Rightarrow> uint64_of (cs_Hash consumerStatus))"

section \<open>Access to the status maps\<close>

definition safeGetSubsetsStatus :: "string \<Rightarrow> ('w, SubsetStatus) go" where
  "safeGetSubsetsStatus sbst =
     bnd (modifyStatus (\<lambda>st. if st_SubsetsStatus st = None then st\<lparr>st_SubsetsStatus := gm_make\<rparr> else st)) (\<lambda>_.
     bnd readDE (\<lambda>de.
     ret (gm_get SubsetStatus_zero (st_SubsetsStatus (de_Status de)) sbst)))"

definition safeGetConsumersStatus :: "string \<Rightarrow> ('w, ConsumerStatus) go" where
  "safeGetConsumersStatus sbst =
     bnd (modifyStatus (\<lambda>st. if st_ConsumersStatus st = None then st\<lparr>st_ConsumersStatus := gm_make\<rparr> else st)) (\<lambda>_.
     bnd readDE (\<lambda>de.
     ret (gm_get ConsumerStatus_zero (st_ConsumersStatus (de_Status de)) sbst)))"

definition assignSubsetStatus :: "string \<Rightarrow> SubsetStatus \<Rightarrow> ('w, unit) go" where
  \<comment> \<open>\<open>sm.DynamicEnv.Status.SubsetsStatus[subset] = v\<close>\<close>
  "assignSubsetStatus sbst v =
     bnd readDE (\<lambda>de.
     bnd (lift_outcome (gm_assign (st_SubsetsStatus (de_Status de)) sbst v)) (\<lambda>m.
     modifyStatus (\<lambda>st. st\<lparr>st_SubsetsStatus := m\<rparr>)))"

definition assignConsumerStatus :: "string \<Rightarrow> ConsumerStatus \<Rightarrow> ('w, unit) go" where
  "assignConsumerStatus sbst v =
     bnd readDE (\<lambda>de.
     bnd (lift_outcome (gm_assign (st_ConsumersStatus (de_Status de)) sbst v)) (\<lambda>m.
     modifyStatus (\<lambda>st. st\<lparr>st_ConsumersStatus := m\<rparr>)))"

section \<open>Status entries\<close>

definition addSubsetDeploymentStatusEntry ::
  "'w Env \<Rightarrow> string \<Rightarrow> ResourceStatus \<Rightarrow> ('w, goerror option) go" where
  "addSubsetDeploymentStatusEntry c sbst newStatus =
     bnd (safeGetSubsetsStatus sbst) (\<lambda>currentStatus.
     if \<not> ResourceStatus_IsEqual (ss_Deployment currentStatus) newStatus then
       bnd (assignSubsetStatus sbst (currentStatus\<lparr>ss_Deployment := newStatus\<rparr>)) (\<lambda>_. StatusUpdate c)
     else ret None)"

definition addConsumerDeploymentStatusEntry ::
  "'w Env \<Rightarrow> string \<Rightarrow> ResourceStatus \<Rightarrow> ('w, goerror option) go" where
  "addConsumerDeploymentStatusEntry c sbst newStatus =
     bnd (safeGetConsumersStatus sbst) (\<lambda>currentStatus.
     if \<not> ResourceStatus_IsEqual (cs_ResourceStatus currentStatus) newStatus then
       bnd (assignConsumerStatus sbst (currentStatus\<lparr>cs_ResourceStatus :=
              \<lparr>rs_Name = rs_Name newStatus, rs_Namespace = rs_Namespace newStatus,
               rs_Status = rs_Status newStatus\<rparr>\<rparr>)) (\<lambda>_. StatusUpdate c)
     else ret None)"

definition AddDeploymentStatusEntry ::
  "'w Env \<Rightarrow> string \<Rightarrow> ResourceStatus \<Rightarrow> SubsetOrConsumer \<Rightarrow> ('w, goerror option) go" where
  "AddDeploymentStatusEntry c sbst newStatus tpe =
     (if tpe = CONSUMER then addConsumerDeploymentStatusEntry c sbst newStatus
      else addSubsetDeploymentStatusEntry c sbst newStatus)"

definition AddDestinationRuleStatusEntry ::
  "'w Env \<Rightarrow> string \<Rightarrow> ResourceStatus \<Rightarrow> ('w, goerror option) go" where
  "AddDestinationRuleStatusEntry c sbst newStatus =
     bnd (safeGetSubsetsStatus sbst) (\<lambda>currentStatus.
     let (modified, newStatuses) = SyncStatusResources newStatus (ss_DestinationRules currentStatus)
     in if modified then
          bnd (assignSubsetStatus sbst (currentStatus\<lparr>ss_DestinationRules := newStatuses\<rparr>)) (\<lambda>_. StatusUpdate c)
        else ret None)"

definition AddVirtualServiceStatusEntry ::
  "'w Env \<Rightarrow> string \<Rightarrow> ResourceStatus \<Rightarrow> ('w, goerror option) go" where
  "AddVirtualServiceStatusEntry c sbst newStatus =
     bnd (safeGetSubsetsStatus sbst) (\<lambda>currentStatus.
     let (modified, newStatuses) = SyncStatusResources newStatus (ss_VirtualServices currentStatus)
     in if modified then
          bnd (assignSubsetStatus sbst (currentStatus\<lparr>ss_VirtualServices := newStatuses\<rparr>)) (\<lambda>_. StatusUpdate c)
        else ret None)"

section \<open>Errors\<close>

text \<open>\<open>metav1.Now()\<close> is read for each entry that is updated and for an entry that is added.\<close>

fun refresh_errors :: "'w Env \<Rightarrow> string \<Rightarrow> StatusError list \<Rightarrow> ('w, StatusError list) go" where
  "refresh_errors c msg [] = ret []"
| "refresh_errors c msg (e # errs) =
     (if se_Error e = msg then
        bnd (call (TimeNow c)) (\<lambda>now.
        bnd (refresh_errors c msg errs) (\<lambda>result. ret (UpdateTime now e # result)))
      else bnd (refresh_errors c msg errs) (\<lambda>result. ret (e # result)))"

definition SyncGlobalErrors :: "'w Env \<Rightarrow> string \<Rightarrow> StatusError list \<Rightarrow> ('w, StatusError list) go" where
  "SyncGlobalErrors c msg errs =
     (if length errs = 0 then
        bnd (call (TimeNow c)) (\<lambda>now. ret [NewStatusError now msg])
      else
        bnd (refresh_errors c msg errs) (\<lambda>result.
        if list_ex (\<lambda>e. se_Error e = msg) errs then ret result
        else bnd (call (TimeNow c)) (\<lambda>now. ret (result @ [NewStatusError now msg]))))"

fun sync_messages :: "'w Env \<Rightarrow> string list \<Rightarrow> StatusError list \<Rightarrow> ('w, StatusError list) go" where
  \<comment> \<open>\<open>for _, msg := range msgs { errs = SyncGlobalErrors(msg, errs) }\<close>\<close>
  "sync_messages c [] errs = ret errs"
| "sync_messages c (msg # msgs) errs = bnd (SyncGlobalErrors c msg errs) (\<lambda>errs. sync_messages c msgs errs)"

definition AddGlobalVirtualServiceError :: "'w Env \<Rightarrow> string \<Rightarrow> string \<Rightarrow> ('w, goerror option) go" where
  "AddGlobalVirtualServiceError c sbst msg =
     bnd (safeGetSubsetsStatus sbst) (\<lambda>currentStatus.
     let statusErrors = SafeGetSubsetErrors currentStatus
     in bnd (SyncGlobalErrors c msg (errs_VirtualServices statusErrors)) (\<lambda>currentErrors.
        bnd (assignSubsetStatus sbst
              (currentStatus\<lparr>ss_Errors := Some (statusErrors\<lparr>errs_VirtualServices := currentErrors\<rparr>)\<rparr>)) (\<lambda>_.
        StatusUpdate c)))"

definition sync_subset :: "'w Env \<Rightarrow> string \<Rightarrow> SubsetMessages \<Rightarrow> ('w, unit) go" where
  \<comment> \<open>the body of the loop over the messages\<close>
  "sync_subset c sbst msgs =
     bnd readDE (\<lambda>de.
     let statuses = (case st_SubsetsStatus (de_Status de) of None \<Rightarrow> gm_make | Some m \<Rightarrow> Some m);
         cs = gm_get SubsetStatus_zero statuses sbst;
         errs = SafeGetSubsetErrors cs
     in bnd (sync_messages c (msgs_Deployment msgs) (errs_Deployment errs)) (\<lambda>d.
        bnd (sync_messages c (msgs_DestinationRule msgs) (errs_DestinationRule errs)) (\<lambda>dr.
        bnd (sync_messages c (msgs_VirtualService msgs) (errs_VirtualServices errs)) (\<lambda>vs.
        bnd (sync_messages c (msgs_GlobalErrors msgs) (errs_Subset errs)) (\<lambda>g.
        let errs' = \<lparr>errs_Deployment = d, errs_DestinationRule = dr, errs_VirtualServices = vs, errs_Subset = g\<rparr>
        in modifyStatus (\<lambda>st. st\<lparr>st_SubsetsStatus := gm_put sbst (cs\<lparr>ss_Errors := Some errs'\<rparr>) statuses\<rparr>))))))"

fun sync_subsets :: "'w Env \<Rightarrow> SubsetMessages gomap \<Rightarrow> string list \<Rightarrow> ('w, unit) go" where
  "sync_subsets c messages [] = ret ()"
| "sync_subsets c messages (sbst # keys) =
     bnd (sync_subset c sbst (gm_get SubsetMessages_zero messages sbst)) (\<lambda>_. sync_subsets c messages keys)"

definition SyncSubsetMessagesToStatus :: "'w Env \<Rightarrow> SubsetMessages gomap \<Rightarrow> ('w, unit) go" where
  "SyncSubsetMessagesToStatus c messages =
     bnd (call (RangeOrder c (gm_keys messages))) (\<lambda>keys. sync_subsets c messages keys)"

definition sync_consumer :: "'w Env \<Rightarrow> string \<Rightarrow> string list \<Rightarrow> ('w, unit) go" where
  "sync_consumer c subject msgs =
     bnd readDE (\<lambda>de.
     let statuses = (case st_ConsumersStatus (de_Status de) of None \<Rightarrow> gm_make | Some m \<Rightarrow> Some m);
         cs = gm_get ConsumerStatus_zero statuses subject
     in bnd (sync_messages c msgs (cs_Errors cs)) (\<lambda>errs.
        modifyStatus (\<lambda>st. st\<lparr>st_ConsumersStatus := gm_put subject (cs\<lparr>cs_Errors := errs\<rparr>) statuses\<rparr>)))"

fun sync_consumers :: "'w Env \<Rightarrow> string list gomap \<Rightarrow> string list \<Rightarrow> ('w, unit) go" where
  "sync_consumers c messages [] = ret ()"
| "sync_consumers c messages (subject # keys) =
     bnd (sync_consumer c subject (gm_get [] messages subject)) (\<lambda>_. sync_consumers c messages keys)"

definition SyncConsumerMessagesToStatus :: "'w Env \<Rightarrow> string list gomap \<Rightarrow> ('w, unit) go" where
  "SyncConsumerMessagesToStatus c messages =
     bnd (call (RangeOrder c (gm_keys messages))) (\<lambda>keys. sync_consumers c messages keys)"

section \<open>Global state and hashes\<close>

definition SetGlobalState :: "'w Env \<Rightarrow> GlobalReadyStatus \<Rightarrow> int \<Rightarrow> int \<Rightarrow> ('w, goerror option) go" where
  "SetGlobalState c state totalCount notReadyCount =
     bnd (modifyStatus (\<lambda>st. st\<lparr>st_State := state, st_TotalCount := totalCount,
                                st_TotalReady := totalCount - notReadyCount\<rparr>)) (\<lambda>_.
     StatusUpdate c)"

definition setHashForSubset :: "'w Env \<Rightarrow> string \<Rightarrow> 64 word \<Rightarrow> ('w, goerror option) go" where
  "setHashForSubset c name hash =
     bnd readDE (\<lambda>de.
     let subsetStatus = (case gm_lookup (st_SubsetsStatus (de_Status de)) name of
                           Some subsetStatus \<Rightarrow> subsetStatus | None \<Rightarrow> SubsetStatus_zero)
     in bnd (assignSubsetStatus name (subsetStatus\<lparr>ss_Hash := int64_of hash\<rparr>)) (\<lambda>_. StatusUpdate c))"

definition setHashForConsumer :: "'w Env \<Rightarrow> string \<Rightarrow> 64 word \<Rightarrow> ('w, goerror option) go" where
  "setHashForConsumer c name hash =
     bnd (modifyStatus (\<lambda>st. if st_ConsumersStatus st = None then st\<lparr>st_ConsumersStatus := gm_make\<rparr> else st)) (\<lambda>_.
     bnd readDE (\<lambda>de.
     let consumerStatus = (case gm_lookup (st_ConsumersStatus (de_Status de)) name of
                             Some consumerStatus \<Rightarrow> consumerStatus | None \<Rightarrow> ConsumerStatus_zero)
     in bnd (assignConsumerStatus name (consumerStatus\<lparr>cs_Hash := int64_of hash\<rparr>)) (\<lambda>_. StatusUpdate c)))"

definition ApplyHash :: "'w Env \<Rightarrow> string \<Rightarrow> 64 word \<Rightarrow> SubsetOrConsumer \<Rightarrow> ('w, goerror option) go" where
  "ApplyHash c name hash tpe =
     (if tpe = CONSUMER then setHashForConsumer c name hash else setHashForSubset c name hash)"

section \<open>Synchronising a list of resource statuses\<close>

abbreviation same_resource :: "ResourceStatus \<Rightarrow> ResourceStatus \<Rightarrow> bool" where
  "same_resource s r \<equiv> rs_Name r = rs_Name s \<and> rs_Namespace r = rs_Namespace s"

definition resource_key :: "ResourceStatus \<Rightarrow> string \<times> string" where
  "resource_key r = (rs_Namespace r, rs_Name r)"

lemma same_resource_status: "same_resource s r \<Longrightarrow> rs_Status r = rs_Status s \<Longrightarrow> r = s"
  by simp

lemma sync_loop_spec:
  "sync_loop s rs = (\<exists>r \<in> set rs. same_resource s r, \<exists>r \<in> set rs. same_resource s r \<and> r \<noteq> s,
     map (\<lambda>r. if same_resource s r then s else r) rs)"
  by (induction rs) (auto simp: Let_def split: prod.splits)

lemma SyncStatusResources_eq:
  "SyncStatusResources s rs =
     (if \<exists>r \<in> set rs. same_resource s r
      then (\<exists>r \<in> set rs. same_resource s r \<and> r \<noteq> s, map (\<lambda>r. if same_resource s r then s else r) rs)
      else (True, rs @ [s]))"
proof (cases "\<exists>r \<in> set rs. same_resource s r")
  case False
  then have "map (\<lambda>r. if same_resource s r then s else r) rs = rs"
    by (intro map_idI) auto
  with False show ?thesis by (simp add: SyncStatusResources_def sync_loop_spec)
qed (simp add: SyncStatusResources_def sync_loop_spec)

lemma SyncStatusResources_modified:
  assumes "SyncStatusResources s rs = (modified, result)"
  shows "modified \<longleftrightarrow> result \<noteq> rs"
proof -
  have "(map (\<lambda>r. if same_resource s r then s else r) rs = rs) \<longleftrightarrow>
      (\<forall>r \<in> set rs. same_resource s r \<longrightarrow> r = s)"
    by (induction rs) auto
  with assms show ?thesis by (auto simp: SyncStatusResources_eq split: if_splits)
qed

section \<open>The contract of a status section\<close>

text \<open>
  A section is read by \<open>get\<close> and written by \<open>put\<close> in the status; \<open>init\<close> makes the map that holds it if
  it is nil. \<open>add\<close> is the operation of the status manager: it synchronises the entry of one subset and
  writes the status to the API server when that changes something.
\<close>

abbreviation with_status :: "'w loop_state \<Rightarrow> DynamicEnvStatus \<Rightarrow> 'w loop_state" where
  "with_status s st \<equiv> s\<lparr>cur_de := (cur_de s)\<lparr>de_Status := st\<rparr>\<rparr>"

abbreviation status_of :: "'w loop_state \<Rightarrow> DynamicEnvStatus" where
  "status_of s \<equiv> de_Status (cur_de s)"

locale status_section =
  fixes init :: "DynamicEnvStatus \<Rightarrow> DynamicEnvStatus"
    and get :: "DynamicEnvStatus \<Rightarrow> string \<Rightarrow> 'a"
    and put :: "string \<Rightarrow> 'a \<Rightarrow> DynamicEnvStatus \<Rightarrow> DynamicEnvStatus"
    and sync :: "ResourceStatus \<Rightarrow> 'a \<Rightarrow> 'a"
    and add :: "'w Env \<Rightarrow> string \<Rightarrow> ResourceStatus \<Rightarrow> ('w, goerror option) go"
  assumes get_init_law: "get (init st) k = get st k"
    and get_put_law: "get (put k v st) k' = (if k' = k then v else get st k')"
    and sync_idem_law: "sync r (sync r v) = sync r v"
    and add_law: "add c k r s =
          (let st = init (status_of s)
           in if sync r (get st k) = get st k then (Done None, with_status s st)
              else StatusUpdate c (with_status s (put k (sync r (get st k)) st)))"
begin

lemma add_no_panic: "add c k r s \<noteq> (Panic, t)"
  by (auto simp: add_law Let_def StatusUpdate_def)

text \<open>A synchronised entry costs no request; otherwise one request carries the synchronised entry, and
  the entries of all other subsets as they were.\<close>

lemma add_silent:
  "sync r (get (status_of s) k) = get (status_of s) k \<Longrightarrow>
   add c k r s = (Done None, with_status s (init (status_of s)))"
  by (simp add: add_law get_init_law)

lemma add_sends:
  assumes "sync r (get (status_of s) k) \<noteq> get (status_of s) k"
  obtains st where "add c k r s = StatusUpdate c (with_status s st)"
    and "get st k = sync r (get (status_of s) k)"
    and "\<And>k'. k' \<noteq> k \<Longrightarrow> get st k' = get (status_of s) k'"
  using that [of "put k (sync r (get (status_of s) k)) (init (status_of s))"] assms
  by (simp add: add_law get_init_law get_put_law Let_def)

lemma add_outcome:
  "(sync r (get (status_of s) k) = get (status_of s) k \<and>
      add c k r s = (Done None, with_status s (init (status_of s)))) \<or>
   (\<exists>st. add c k r s = StatusUpdate c (with_status s st) \<and>
      get st k = sync r (get (status_of s) k) \<and> (\<forall>k'. k' \<noteq> k \<longrightarrow> get st k' = get (status_of s) k'))"
proof (cases "sync r (get (status_of s) k) = get (status_of s) k")
  case True
  then show ?thesis by (simp add: add_silent)
next
  case False
  then obtain st where "add c k r s = StatusUpdate c (with_status s st)"
    and "get st k = sync r (get (status_of s) k)"
    and "\<And>k'. k' \<noteq> k \<Longrightarrow> get st k' = get (status_of s) k'"
    using add_sends [where c = c] by blast
  then show ?thesis by blast
qed

text \<open>When the server's answer leaves the section as sent, a second call is silent.\<close>

lemma add_again:
  assumes "add c k r s = (Done e, t)"
    and "\<And>s'. get (status_of (snd (StatusUpdate c s'))) k = get (status_of s') k"
  shows "add c k r t = (Done None, with_status t (init (status_of t)))"
proof (rule add_silent)
  show "sync r (get (status_of t) k) = get (status_of t) k"
  proof (cases "sync r (get (status_of s) k) = get (status_of s) k")
    case True
    with assms(1) have "t = with_status s (init (status_of s))" by (simp add: add_silent)
    with True show ?thesis by (simp add: get_init_law)
  next
    case False
    then obtain st where st: "add c k r s = StatusUpdate c (with_status s st)"
      "get st k = sync r (get (status_of s) k)"
      using add_sends [where c = c] by blast
    with assms(1) have "t = snd (StatusUpdate c (with_status s st))" by simp
    with assms(2) [of "with_status s st"] st(2) show ?thesis by (simp add: sync_idem_law)
  qed
qed

end

definition init_subsets :: "DynamicEnvStatus \<Rightarrow> DynamicEnvStatus" where
  "init_subsets st = (if st_SubsetsStatus st = None then st\<lparr>st_SubsetsStatus := gm_make\<rparr> else st)"

definition init_consumers :: "DynamicEnvStatus \<Rightarrow> DynamicEnvStatus" where
  "init_consumers st = (if st_ConsumersStatus st = None then st\<lparr>st_ConsumersStatus := gm_make\<rparr> else st)"

definition subset_status :: "DynamicEnvStatus \<Rightarrow> string \<Rightarrow> SubsetStatus" where
  "subset_status st k = gm_get SubsetStatus_zero (st_SubsetsStatus st) k"

definition consumer_status :: "DynamicEnvStatus \<Rightarrow> string \<Rightarrow> ConsumerStatus" where
  "consumer_status st k = gm_get ConsumerStatus_zero (st_ConsumersStatus st) k"

definition put_subset :: "string \<Rightarrow> SubsetStatus \<Rightarrow> DynamicEnvStatus \<Rightarrow> DynamicEnvStatus" where
  "put_subset k v st = st\<lparr>st_SubsetsStatus := gm_put k v (st_SubsetsStatus st)\<rparr>"

definition put_consumer :: "string \<Rightarrow> ConsumerStatus \<Rightarrow> DynamicEnvStatus \<Rightarrow> DynamicEnvStatus" where
  "put_consumer k v st = st\<lparr>st_ConsumersStatus := gm_put k v (st_ConsumersStatus st)\<rparr>"

lemma subset_status_put [simp]:
  "subset_status (put_subset k v st) k' = (if k' = k then v else subset_status st k')"
  by (simp add: subset_status_def put_subset_def)

lemma consumer_status_put [simp]:
  "consumer_status (put_consumer k v st) k' = (if k' = k then v else consumer_status st k')"
  by (simp add: consumer_status_def put_consumer_def)

lemma subset_status_init [simp]: "subset_status (init_subsets st) k = subset_status st k"
  by (simp add: subset_status_def init_subsets_def gm_get_def gm_make_def)

lemma consumer_status_init [simp]: "consumer_status (init_consumers st) k = consumer_status st k"
  by (simp add: consumer_status_def init_consumers_def gm_get_def gm_make_def)

lemma init_subsets_not_nil [simp]: "st_SubsetsStatus (init_subsets st) \<noteq> None"
  by (simp add: init_subsets_def gm_make_def)

lemma init_consumers_not_nil [simp]: "st_ConsumersStatus (init_consumers st) \<noteq> None"
  by (simp add: init_consumers_def gm_make_def)

lemma safeGetSubsetsStatus_apply:
  "safeGetSubsetsStatus k s = (Done (subset_status (init_subsets (status_of s)) k),
     with_status s (init_subsets (status_of s)))"
  by (simp add: safeGetSubsetsStatus_def bnd_apply subset_status_def init_subsets_def)

lemma safeGetConsumersStatus_apply:
  "safeGetConsumersStatus k s = (Done (consumer_status (init_consumers (status_of s)) k),
     with_status s (init_consumers (status_of s)))"
  by (simp add: safeGetConsumersStatus_def bnd_apply consumer_status_def init_consumers_def)

lemma assignSubsetStatus_apply:
  "assignSubsetStatus k v s =
     (if st_SubsetsStatus (status_of s) = None then (Panic, s)
      else (Done (), with_status s (put_subset k v (status_of s))))"
  by (simp add: assignSubsetStatus_def bnd_apply put_subset_def)

lemma assignConsumerStatus_apply:
  "assignConsumerStatus k v s =
     (if st_ConsumersStatus (status_of s) = None then (Panic, s)
      else (Done (), with_status s (put_consumer k v (status_of s))))"
  by (simp add: assignConsumerStatus_def bnd_apply put_consumer_def)

lemmas status_access = safeGetSubsetsStatus_apply safeGetConsumersStatus_apply
  assignSubsetStatus_apply assignConsumerStatus_apply

definition sync_list :: "ResourceStatus \<Rightarrow> ResourceStatus list \<Rightarrow> ResourceStatus list" where
  "sync_list r rs = snd (SyncStatusResources r rs)"

lemma sync_list_fixed: "r \<in> set rs \<Longrightarrow> \<forall>x \<in> set rs. same_resource r x \<longrightarrow> x = r \<Longrightarrow> sync_list r rs = rs"
  unfolding sync_list_def SyncStatusResources_eq by (auto intro!: map_idI)

lemma sync_list_entry:
  "r \<in> set (sync_list r rs)" "\<forall>x \<in> set (sync_list r rs). same_resource r x \<longrightarrow> x = r"
  unfolding sync_list_def SyncStatusResources_eq by (auto simp: image_iff)

lemma sync_list_idem: "sync_list r (sync_list r rs) = sync_list r rs"
  by (rule sync_list_fixed) (fact sync_list_entry)+

lemma sync_list_modified: "SyncStatusResources r rs = (modified, result) \<Longrightarrow>
    result = sync_list r rs \<and> (modified \<longleftrightarrow> sync_list r rs \<noteq> rs)"
  using SyncStatusResources_modified by (auto simp: sync_list_def)

interpretation subset_dep: status_section init_subsets "\<lambda>st k. ss_Deployment (subset_status st k)"
  "\<lambda>k v st. put_subset k ((subset_status st k)\<lparr>ss_Deployment := v\<rparr>) st" "\<lambda>r _. r"
  addSubsetDeploymentStatusEntry
  by unfold_locales (auto simp: addSubsetDeploymentStatusEntry_def bnd_apply status_access Let_def)

interpretation consumer_dep: status_section init_consumers "\<lambda>st k. cs_ResourceStatus (consumer_status st k)"
  "\<lambda>k v st. put_consumer k ((consumer_status st k)\<lparr>cs_ResourceStatus := v\<rparr>) st" "\<lambda>r _. r"
  addConsumerDeploymentStatusEntry
  by unfold_locales (auto simp: addConsumerDeploymentStatusEntry_def bnd_apply status_access Let_def)

interpretation subset_dr: status_section init_subsets "\<lambda>st k. ss_DestinationRules (subset_status st k)"
  "\<lambda>k v st. put_subset k ((subset_status st k)\<lparr>ss_DestinationRules := v\<rparr>) st" sync_list
  AddDestinationRuleStatusEntry
proof unfold_locales
  fix c k r and s :: "'a loop_state"
  show "AddDestinationRuleStatusEntry c k r s =
      (let st = init_subsets (status_of s)
       in if sync_list r (ss_DestinationRules (subset_status st k)) = ss_DestinationRules (subset_status st k)
          then (Done None, with_status s st)
          else StatusUpdate c (with_status s (put_subset k ((subset_status st k)\<lparr>ss_DestinationRules :=
                 sync_list r (ss_DestinationRules (subset_status st k))\<rparr>) st)))"
    by (auto simp: AddDestinationRuleStatusEntry_def bnd_apply status_access Let_def
        split: prod.splits dest!: sync_list_modified)
qed (simp_all add: sync_list_idem)

interpretation subset_vs: status_section init_subsets "\<lambda>st k. ss_VirtualServices (subset_status st k)"
  "\<lambda>k v st. put_subset k ((subset_status st k)\<lparr>ss_VirtualServices := v\<rparr>) st" sync_list
  AddVirtualServiceStatusEntry
proof unfold_locales
  fix c k r and s :: "'a loop_state"
  show "AddVirtualServiceStatusEntry c k r s =
      (let st = init_subsets (status_of s)
       in if sync_list r (ss_VirtualServices (subset_status st k)) = ss_VirtualServices (subset_status st k)
          then (Done None, with_status s st)
          else StatusUpdate c (with_status s (put_subset k ((subset_status st k)\<lparr>ss_VirtualServices :=
                 sync_list r (ss_VirtualServices (subset_status st k))\<rparr>) st)))"
    by (auto simp: AddVirtualServiceStatusEntry_def bnd_apply status_access Let_def
        split: prod.splits dest!: sync_list_modified)
qed (simp_all add: sync_list_idem)

section \<open>Error lists\<close>

text \<open>
  The abstract view of an error list is the list of its messages; synchronising a message inserts it
  if it is not there, and leaves the entries of other messages, with their times, untouched.
\<close>

definition insert_msg :: "string \<Rightarrow> string list \<Rightarrow> string list" where
  "insert_msg msg ms = (if msg \<in> set ms then ms else ms @ [msg])"

definition msgs_of :: "StatusError list \<Rightarrow> string list" where
  "msgs_of errs = map se_Error errs"

definition others_of :: "string set \<Rightarrow> StatusError list \<Rightarrow> StatusError list" where
  "others_of M errs = filter (\<lambda>e. se_Error e \<notin> M) errs"

lemma set_insert_msg: "set (insert_msg msg ms) = insert msg (set ms)"
  by (auto simp: insert_msg_def)

lemma distinct_insert_msg: "distinct ms \<Longrightarrow> distinct (insert_msg msg ms)"
  by (auto simp: insert_msg_def)

lemma set_insert_msgs: "set (fold insert_msg msgs ms) = set ms \<union> set msgs"
  by (induction msgs arbitrary: ms) (auto simp: set_insert_msg)

lemma distinct_insert_msgs: "distinct ms \<Longrightarrow> distinct (fold insert_msg msgs ms)"
  by (induction msgs arbitrary: ms) (auto simp: distinct_insert_msg)

lemma msgs_of_simps [simp]: "msgs_of [] = []" "msgs_of (e # es) = se_Error e # msgs_of es"
    "msgs_of (es @ fs) = msgs_of es @ msgs_of fs"
  by (simp_all add: msgs_of_def)

lemma others_of_simps [simp]: "others_of M [] = []"
    "others_of M (e # es) = (if se_Error e \<in> M then others_of M es else e # others_of M es)"
    "others_of M (es @ fs) = others_of M es @ others_of M fs"
  by (simp_all add: others_of_def)

lemma others_of_insert:
  "others_of (insert m M) es = others_of {m} (others_of M es)"
  "others_of (insert m M) es = others_of M (others_of {m} es)"
  by (induction es) auto

lemma UpdateTime_Error [simp]: "se_Error (UpdateTime now e) = se_Error e"
  by (simp add: UpdateTime_def)

lemma NewStatusError_Error [simp]: "se_Error (NewStatusError now msg) = msg"
  by (simp add: NewStatusError_def)

lemma refresh_errors_returns:
  "returns (refresh_errors c msg errs) s (\<lambda>result t. cur_de t = cur_de s \<and>
     msgs_of result = msgs_of errs \<and> others_of {msg} result = others_of {msg} errs)"
proof (induction errs arbitrary: s msg)
  case (Cons e errs)
  show ?case
    by (auto simp: wp split: prod.splits intro!: returns_mono [OF Cons.IH])
qed (simp add: wp)

lemma SyncGlobalErrors_returns:
  "returns (SyncGlobalErrors c msg errs) s (\<lambda>result t. cur_de t = cur_de s \<and>
     msgs_of result = insert_msg msg (msgs_of errs) \<and> others_of {msg} result = others_of {msg} errs)"
proof (cases "errs = []")
  case True
  then show ?thesis
    by (auto simp: SyncGlobalErrors_def wp insert_msg_def split: prod.splits)
next
  case False
  then show ?thesis
    unfolding SyncGlobalErrors_def
    by (auto simp: wp list_ex_iff intro!: returns_mono [OF refresh_errors_returns] split: prod.splits)
      (auto simp: msgs_of_def insert_msg_def)
qed

lemma sync_messages_returns:
  "returns (sync_messages c msgs errs) s (\<lambda>result t. cur_de t = cur_de s \<and>
     msgs_of result = fold insert_msg msgs (msgs_of errs) \<and>
     others_of (set msgs) result = others_of (set msgs) errs)"
proof (induction msgs arbitrary: errs s)
  case (Cons msg msgs)
  have chain: "others_of (insert msg M) zs = others_of (insert msg M) xs"
    if "others_of M zs = others_of M ys" "others_of {msg} ys = others_of {msg} xs" for M xs ys zs
    using that by (metis others_of_insert)
  show ?case
    by (auto simp: wp intro!: returns_mono [OF SyncGlobalErrors_returns])
      (auto intro!: returns_mono [OF Cons.IH] intro: chain)
qed (simp add: wp)

text \<open>The body of the loop, and the loop, over the messages of a reconcile run.\<close>

definition subset_errors :: "DynamicEnvStatus \<Rightarrow> string \<Rightarrow> SubsetErrors" where
  "subset_errors st k = SafeGetSubsetErrors (subset_status st k)"

definition errors_synced :: "SubsetMessages \<Rightarrow> SubsetErrors \<Rightarrow> SubsetErrors \<Rightarrow> bool" where
  "errors_synced msgs old new \<longleftrightarrow>
     msgs_of (errs_Deployment new) = fold insert_msg (msgs_Deployment msgs) (msgs_of (errs_Deployment old)) \<and>
     msgs_of (errs_DestinationRule new) = fold insert_msg (msgs_DestinationRule msgs) (msgs_of (errs_DestinationRule old)) \<and>
     msgs_of (errs_VirtualServices new) = fold insert_msg (msgs_VirtualService msgs) (msgs_of (errs_VirtualServices old)) \<and>
     msgs_of (errs_Subset new) = fold insert_msg (msgs_GlobalErrors msgs) (msgs_of (errs_Subset old))"

lemma sync_subset_returns:
  "returns (sync_subset c k msgs) s (\<lambda>_ t.
     (\<exists>errs. errors_synced msgs (subset_errors (status_of s) k) errs \<and>
        cur_de t = (cur_de s)\<lparr>de_Status := put_subset k ((subset_status (status_of s) k)\<lparr>ss_Errors := Some errs\<rparr>) (init_subsets (status_of s))\<rparr>))"
proof -
  have maps: "(case st_SubsetsStatus st of None \<Rightarrow> gm_make | Some m \<Rightarrow> Some m) = st_SubsetsStatus (init_subsets st)" for st
    by (simp add: init_subsets_def split: option.split)
  have same: "st\<lparr>st_SubsetsStatus := gm_put k v (st_SubsetsStatus (init_subsets st))\<rparr> = put_subset k v (init_subsets st)" for st v
    by (simp add: put_subset_def init_subsets_def)
  have get: "gm_get SubsetStatus_zero (st_SubsetsStatus (init_subsets st)) k = subset_status st k" for st
    using subset_status_init [of st k] by (simp add: subset_status_def)
  show ?thesis
    unfolding sync_subset_def Let_def maps get subset_errors_def errors_synced_def returns_bnd returns_readDE
    apply (rule returns_mono [OF sync_messages_returns], clarify)
    apply (rule returns_mono [OF sync_messages_returns], clarify)
    apply (rule returns_mono [OF sync_messages_returns], clarify)
    apply (rule returns_mono [OF sync_messages_returns], clarify)
    subgoal for d t dr ta vs tb g tc
      by (auto simp: wp same intro!: exI [of _ "\<lparr>errs_Deployment = d, errs_DestinationRule = dr,
          errs_VirtualServices = vs, errs_Subset = g\<rparr>"])
    done
qed

definition messages_synced ::
  "SubsetMessages gomap \<Rightarrow> string set \<Rightarrow> DynamicEnvStatus \<Rightarrow> DynamicEnvStatus \<Rightarrow> bool" where
  "messages_synced messages K st st' \<longleftrightarrow>
     (\<forall>k \<in> K. errors_synced (gm_get SubsetMessages_zero messages k) (subset_errors st k) (subset_errors st' k)) \<and>
     (\<forall>k. k \<notin> K \<longrightarrow> subset_status st' k = subset_status st k) \<and>
     (\<forall>k. (subset_status st' k)\<lparr>ss_Errors := None\<rparr> = (subset_status st k)\<lparr>ss_Errors := None\<rparr>) \<and>
     st_ConsumersStatus st' = st_ConsumersStatus st \<and> st_State st' = st_State st \<and>
     st_TotalCount st' = st_TotalCount st \<and> st_TotalReady st' = st_TotalReady st"

lemma messages_synced_empty [simp]: "messages_synced messages {} st st"
  by (simp add: messages_synced_def)

lemma put_subset_frame [simp]:
  "st_ConsumersStatus (put_subset k v st) = st_ConsumersStatus st"
  "st_State (put_subset k v st) = st_State st" "st_TotalCount (put_subset k v st) = st_TotalCount st"
  "st_TotalReady (put_subset k v st) = st_TotalReady st"
  "st_ConsumersStatus (init_subsets st) = st_ConsumersStatus st"
  "st_State (init_subsets st) = st_State st" "st_TotalCount (init_subsets st) = st_TotalCount st"
  "st_TotalReady (init_subsets st) = st_TotalReady st"
  by (simp_all add: put_subset_def init_subsets_def)

lemma messages_synced_step:
  assumes "errors_synced (gm_get SubsetMessages_zero messages k) (subset_errors st k) errs"
    and "messages_synced messages K
      (put_subset k ((subset_status st k)\<lparr>ss_Errors := Some errs\<rparr>) (init_subsets st)) st'"
    and "k \<notin> K"
  shows "messages_synced messages (insert k K) st st'"
  using assms
  by (auto simp: messages_synced_def subset_errors_def SafeGetSubsetErrors_def split: if_splits)

lemma sync_subsets_returns:
  "distinct ks \<Longrightarrow> returns (sync_subsets c messages ks) s (\<lambda>_ t.
     messages_synced messages (set ks) (status_of s) (status_of t) \<and>
     cur_de t = (cur_de s)\<lparr>de_Status := status_of t\<rparr>)"
proof (induction ks arbitrary: s)
  case (Cons k ks)
  have "returns (sync_subsets c messages ks) t (\<lambda>_ u.
      messages_synced messages (insert k (set ks)) (status_of s) (status_of u) \<and>
      cur_de u = (cur_de s)\<lparr>de_Status := status_of u\<rparr>)"
    if "errors_synced (gm_get SubsetMessages_zero messages k) (subset_errors (status_of s) k) errs"
      and "cur_de t = (cur_de s)\<lparr>de_Status := put_subset k
         ((subset_status (status_of s) k)\<lparr>ss_Errors := Some errs\<rparr>) (init_subsets (status_of s))\<rparr>" for errs t
    using that Cons.prems
    by (auto intro!: returns_mono [OF Cons.IH] messages_synced_step)
  then show ?case
    by (auto simp: wp intro!: returns_mono [OF sync_subset_returns])
qed (simp add: wp)

text \<open>
  What Go promises of a \<open>range\<close> loop over a map: every key is visited once, in some order.
\<close>

definition range_visits_all :: "'w Env \<Rightarrow> bool" where
  "range_visits_all c \<longleftrightarrow> (\<forall>ks w. distinct ks \<longrightarrow>
     distinct (fst (RangeOrder c ks w)) \<and> set (fst (RangeOrder c ks w)) = set ks)"

lemma range_visits_allD:
  assumes "range_visits_all c" and "distinct ks" and "RangeOrder c ks w = (ks', w')"
  shows "distinct ks' \<and> set ks' = set ks"
  using assms unfolding range_visits_all_def by (metis fst_conv)

lemma mem_env_range [simp]: "range_visits_all mem_env"
  by (simp add: range_visits_all_def mem_env_def)

lemma uint64_int64 [simp]: "uint64_of (int64_of h) = h"
  by (simp add: uint64_of_def int64_of_def)

section \<open>Deployment entries and hashes\<close>

definition deployment_entry :: "SubsetOrConsumer \<Rightarrow> DynamicEnvStatus \<Rightarrow> string \<Rightarrow> ResourceStatus" where
  "deployment_entry tpe st k =
     (if tpe = CONSUMER then cs_ResourceStatus (consumer_status st k) else ss_Deployment (subset_status st k))"

definition stored_hash :: "SubsetOrConsumer \<Rightarrow> DynamicEnv \<Rightarrow> string \<Rightarrow> 64 word" where
  "stored_hash tpe de k = (if tpe = CONSUMER then GetHashForConsumer de k else GetHashForSubset de k)"

lemma GetHashForSubset_alt: "GetHashForSubset de k = uint64_of (ss_Hash (subset_status (de_Status de) k))"
  by (simp add: GetHashForSubset_def subset_status_def gm_get_def SubsetStatus_zero_def uint64_of_def
      split: option.split)

lemma GetHashForConsumer_alt: "GetHashForConsumer de k = uint64_of (cs_Hash (consumer_status (de_Status de) k))"
  by (simp add: GetHashForConsumer_def consumer_status_def gm_get_def ConsumerStatus_zero_def uint64_of_def
      split: option.split)

lemma setHashForSubset_apply:
  "setHashForSubset c k h s =
     (if st_SubsetsStatus (status_of s) = None then (Panic, s)
      else StatusUpdate c (with_status s (put_subset k
        ((subset_status (status_of s) k)\<lparr>ss_Hash := int64_of h\<rparr>) (status_of s))))"
  by (simp add: setHashForSubset_def bnd_apply assignSubsetStatus_apply subset_status_def gm_get_def Let_def
      cong: option.case_cong)

lemma setHashForConsumer_apply:
  "setHashForConsumer c k h s =
     StatusUpdate c (with_status s (put_consumer k
        ((consumer_status (status_of s) k)\<lparr>cs_Hash := int64_of h\<rparr>) (init_consumers (status_of s))))"
proof -
  have "(case gm_lookup (st_ConsumersStatus (init_consumers (status_of s))) k of
      Some v \<Rightarrow> v | None \<Rightarrow> ConsumerStatus_zero) = consumer_status (status_of s) k"
    using consumer_status_init [of "status_of s" k] by (simp add: consumer_status_def gm_get_def)
  then show ?thesis
    by (simp add: setHashForConsumer_def bnd_apply assignConsumerStatus_apply Let_def
        init_consumers_def [symmetric])
qed

section \<open>Properties\<close>

text \<open>
  Synchronising a resource status with a list. Afterwards the resource is listed with its new
  status and with no other; the entries of other resources are unchanged and in order; a list without
  repeated resources stays so; and the flag says exactly whether the list changed.
\<close>

theorem SyncStatusResources_correct:
  assumes "SyncStatusResources s rs = (modified, result)"
  shows "s \<in> set result \<and> (\<forall>r \<in> set result. resource_key r = resource_key s \<longrightarrow> r = s) \<and>
    filter (\<lambda>r. resource_key r \<noteq> resource_key s) result = filter (\<lambda>r. resource_key r \<noteq> resource_key s) rs \<and>
    (distinct (map resource_key rs) \<longrightarrow> distinct (map resource_key result)) \<and>
    (modified \<longleftrightarrow> result \<noteq> rs)"
proof -
  have key: "resource_key r = resource_key s \<longleftrightarrow> same_resource s r" for r
    by (auto simp: resource_key_def)
  have result: "result = sync_list s rs" using assms by (simp add: sync_list_def)
  have same: "map resource_key (map (\<lambda>r. if same_resource s r then s else r) rs) = map resource_key rs"
    by (auto simp: resource_key_def)
  have others: "filter (\<lambda>r. \<not> same_resource s r) (map (\<lambda>r. if same_resource s r then s else r) rs)
      = filter (\<lambda>r. \<not> same_resource s r) rs"
    by (induction rs) auto
  have "distinct (map resource_key result)" if "distinct (map resource_key rs)"
  proof (cases "\<exists>r \<in> set rs. same_resource s r")
    case True
    then have "result = map (\<lambda>r. if same_resource s r then s else r) rs"
      using assms by (simp add: SyncStatusResources_eq)
    then show ?thesis using that same by (simp only:)
  next
    case False
    then have "result = rs @ [s]" using assms by (auto simp: SyncStatusResources_eq split: if_splits)
    moreover have "resource_key s \<notin> set (map resource_key rs)" using False key by fastforce
    ultimately show ?thesis using that by simp
  qed
  moreover have "filter (\<lambda>r. \<not> same_resource s r) result = filter (\<lambda>r. \<not> same_resource s r) rs"
    using assms others by (auto simp: SyncStatusResources_eq simp del: de_Morgan_conj split: if_splits)
  ultimately show ?thesis
    using sync_list_entry [of s rs] SyncStatusResources_modified [OF assms] result
    by (simp add: key)
qed

theorem SyncStatusResources_correct_witness:
  "SyncStatusResources \<lparr>rs_Name = ''a'', rs_Namespace = ''ns'', rs_Status = Running\<rparr>
     [\<lparr>rs_Name = ''a'', rs_Namespace = ''ns'', rs_Status = Initializing\<rparr>]
     = (True, [\<lparr>rs_Name = ''a'', rs_Namespace = ''ns'', rs_Status = Running\<rparr>])"
proof -
  let ?s = "\<lparr>rs_Name = ''a'', rs_Namespace = ''ns'', rs_Status = Running\<rparr>"
  let ?rs = "[\<lparr>rs_Name = ''a'', rs_Namespace = ''ns'', rs_Status = Initializing\<rparr>]"
  have "SyncStatusResources ?s ?rs = (fst (SyncStatusResources ?s ?rs), snd (SyncStatusResources ?s ?rs))"
    by simp
  from SyncStatusResources_correct [OF this] show ?thesis
    by (simp add: SyncStatusResources_def)
qed

text \<open>
  Recording an error message. It never panics; afterwards the message is listed, once if the
  list had no message twice; the entries of other messages keep their time; the dynamic environment
  is not touched.
\<close>

theorem SyncGlobalErrors_correct:
  "returns (SyncGlobalErrors c msg errs) s (\<lambda>result t.
     set (msgs_of result) = insert msg (set (msgs_of errs)) \<and>
     (distinct (msgs_of errs) \<longrightarrow> distinct (msgs_of result)) \<and>
     filter (\<lambda>e. se_Error e \<noteq> msg) result = filter (\<lambda>e. se_Error e \<noteq> msg) errs \<and> cur_de t = cur_de s)"
  by (rule returns_mono [OF SyncGlobalErrors_returns])
    (auto simp: set_insert_msg distinct_insert_msg others_of_def)

theorem SyncGlobalErrors_correct_witness:
  "returns (SyncGlobalErrors mem_env ''boom'' [\<lparr>se_Error = ''boom'', se_LastOccurrence = -5\<rparr>])
     \<lparr>cur_de = undefined, world = empty_mem\<rparr>
     (\<lambda>result t. result = [\<lparr>se_Error = ''boom'', se_LastOccurrence = 0\<rparr>] \<and> distinct (msgs_of result))"
proof (rule returns_mono [OF returns_conj [OF SyncGlobalErrors_correct]])
  show "returns (SyncGlobalErrors mem_env ''boom'' [\<lparr>se_Error = ''boom'', se_LastOccurrence = -5\<rparr>])
     \<lparr>cur_de = undefined, world = empty_mem\<rparr> (\<lambda>result t. result = [\<lparr>se_Error = ''boom'', se_LastOccurrence = 0\<rparr>])"
    by (simp add: SyncGlobalErrors_def wp mem_defs UpdateTime_def)
qed simp

text \<open>
  The deployment entry of a subset or consumer. When the entry is up to date no request is made;
  otherwise exactly one status update is sent, with the new entry and with the deployment entries of all
  other subsets and consumers as they were. The call never panics.
\<close>

theorem AddDeploymentStatusEntry_correct:
  "(deployment_entry tpe (status_of s) k = r \<and>
      (\<exists>st. AddDeploymentStatusEntry c k r tpe s = (Done None, with_status s st) \<and>
         deployment_entry tpe st = deployment_entry tpe (status_of s))) \<or>
   (\<exists>st. AddDeploymentStatusEntry c k r tpe s = StatusUpdate c (with_status s st) \<and>
      deployment_entry tpe st = (deployment_entry tpe (status_of s))(k := r))"
proof (cases tpe)
  case SUBSET
  then show ?thesis
    using subset_dep.add_outcome [of r s k c]
    by (auto simp: AddDeploymentStatusEntry_def deployment_entry_def fun_eq_iff)
next
  case CONSUMER
  then show ?thesis
    using consumer_dep.add_outcome [of r s k c]
    by (auto simp: AddDeploymentStatusEntry_def deployment_entry_def fun_eq_iff)
qed


text \<open>
  C33: the messages of a reconcile run reach the status. Every message of every subset is listed under
  its resource kind in the errors of that subset, the earlier messages stay, nothing but error lists
  changes, and subsets without messages are untouched.
\<close>

theorem SyncSubsetMessagesToStatus_correct:
  assumes "range_visits_all c" and "gm_ok messages"
  shows "returns (SyncSubsetMessagesToStatus c messages) s (\<lambda>_ t.
    (\<forall>k \<in> set (gm_keys messages).
       errors_synced (gm_get SubsetMessages_zero messages k) (subset_errors (status_of s) k) (subset_errors (status_of t) k)) \<and>
    (\<forall>k. k \<notin> set (gm_keys messages) \<longrightarrow> subset_status (status_of t) k = subset_status (status_of s) k) \<and>
    (\<forall>k. (subset_status (status_of t) k)\<lparr>ss_Errors := None\<rparr> = (subset_status (status_of s) k)\<lparr>ss_Errors := None\<rparr>) \<and>
    de_Spec (cur_de t) = de_Spec (cur_de s))"
proof -
  obtain ks w where ro: "RangeOrder c (gm_keys messages) (world s) = (ks, w)" by fastforce
  from range_visits_allD [OF assms(1) _ ro] assms(2)
  have "distinct ks" and ks: "set ks = set (gm_keys messages)" by (auto simp: gm_ok_def)
  then show ?thesis
    by (auto simp: SyncSubsetMessagesToStatus_def wp ro messages_synced_def
        dest: arg_cong [of _ _ de_Spec] intro!: returns_mono [OF sync_subsets_returns [OF \<open>distinct ks\<close>]])
qed

theorem SyncSubsetMessagesToStatus_correct_witness:
  "returns (SyncSubsetMessagesToStatus mem_env
       (Some [(''ns/a'', \<lparr>msgs_Deployment = [''no deployment''], msgs_DestinationRule = [],
          msgs_VirtualService = [], msgs_GlobalErrors = []\<rparr>)]))
     \<lparr>cur_de = \<lparr>de_Name = ''env'', de_Namespace = ''ns'', de_Finalizers = [], de_DeletionTimestamp = None,
        de_rest = [], de_Spec = \<lparr>spec_IstioMatches = None, spec_Subsets = [], spec_Consumers = []\<rparr>,
        de_Status = \<lparr>st_SubsetsStatus = None, st_ConsumersStatus = None, st_State = [], st_TotalCount = 0,
                  st_TotalReady = 0\<rparr>\<rparr>, world = empty_mem\<rparr>
     (\<lambda>_ t. msgs_of (errs_Deployment (subset_errors (status_of t) ''ns/a'')) = [''no deployment''])"
  by (rule returns_mono [OF SyncSubsetMessagesToStatus_correct])
    (auto simp: gm_ok_def gm_keys_def errors_synced_def gm_get_def subset_errors_def subset_status_def
      SafeGetSubsetErrors_def SubsetStatus_zero_def SubsetErrors_zero_def insert_msg_def)

end
