(* ===== verification/Cleanup_Manager.thy ===== *)
theory Cleanup_Manager
  imports Status_Manager
begin

text \<open>
  The cleanup manager, \<^verbatim>\<open>pkg/model/cleanup_manager.go\<close>: it finds the subsets and consumers that left the
  spec, removes what the operator created for them, and takes everything apart when the dynamic
  environment is deleted.

  A loop over a status map asks the environment for the order of the keys. A loop over a slice is a
  recursive function over the list, with the early returns of the source as base cases.
\<close>

section \<open>What left the spec\<close>

type_synonym SubsetsAndConsumersMap = "SubsetOrConsumer gomap"

definition mark_removed :: "string list \<Rightarrow> SubsetOrConsumer \<Rightarrow> string \<Rightarrow> SubsetsAndConsumersMap \<Rightarrow> SubsetsAndConsumersMap" where
  "mark_removed keys tpe name removed = (if \<not> Contains keys name then gm_put name tpe removed else removed)"

definition CheckForRemovedSubsetsAndConsumers :: "DynamicEnv \<Rightarrow> SubsetType list \<Rightarrow> SubsetsAndConsumersMap" where
  "CheckForRemovedSubsetsAndConsumers de subsetsAndConsumers =
     (let allSubsetsAndConsumers =
            fold (\<lambda>st m. gm_put (MKSubsetName (sbt_Subset st)) (sbt_Type st) m) subsetsAndConsumers gm_make;
          keys = gm_keys allSubsetsAndConsumers;
          removed = fold (mark_removed keys CONSUMER) (gm_keys (st_ConsumersStatus (de_Status de))) gm_make
      in fold (mark_removed keys SUBSET) (gm_keys (st_SubsetsStatus (de_Status de))) removed)"

section \<open>Single resources\<close>

definition resource_name :: "ResourceStatus \<Rightarrow> NamespacedName" where
  "resource_name r = \<lparr>nn_Namespace = rs_Namespace r, nn_Name = rs_Name r\<rparr>"

definition deleteDeployment :: "'w Env \<Rightarrow> ResourceStatus \<Rightarrow> ('w, bool \<times> goerror option) go" where
  "deleteDeployment c deployment =
     bnd (call (GetDeployment c (resource_name deployment))) (\<lambda>r. case r of
       Inl err \<Rightarrow>
         if IsNotFound err then ret (False, None)
         else ret (False, Some (Wrap ''fetching deployment for deletion'' err))
     | Inr dep \<Rightarrow>
         bnd (call (DeleteDeployment c dep)) (\<lambda>r. case r of
           Some err \<Rightarrow> ret (True, Some (Wrap ''deleting deployment'' err))
         | None \<Rightarrow> ret (True, None)))"

definition deleteDestinationRule :: "'w Env \<Rightarrow> ResourceStatus \<Rightarrow> ('w, bool \<times> goerror option) go" where
  "deleteDestinationRule c dr =
     bnd (call (GetDestinationRule c (resource_name dr))) (\<lambda>r. case r of
       Inl err \<Rightarrow>
         if IsNotFound err then ret (False, None)
         else ret (False, Some (Wrap ''fetching destination rule for deletion'' err))
     | Inr toDelete \<Rightarrow>
         bnd (call (DeleteDestinationRule c toDelete)) (\<lambda>r. case r of
           Some err \<Rightarrow> ret (True, Some (Wrap ''deleting destination rule'' err))
         | None \<Rightarrow> ret (True, None)))"

definition de_ident :: "DynamicEnv \<Rightarrow> NamespacedName" where
  "de_ident de = \<lparr>nn_Namespace = de_Namespace de, nn_Name = de_Name de\<rparr>"

fun cleanup_routes :: "string \<Rightarrow> HTTPRoute list \<Rightarrow> HTTPRoute list" where
  "cleanup_routes version [] = []"
| "cleanup_routes version (route # routes) =
     (if HasPrefix (hr_Name route) (CalculateVirtualServicePrefix version []) then cleanup_routes version routes
      else route # cleanup_routes version routes)"

definition cleaned :: "NamespacedName \<Rightarrow> VirtualService \<Rightarrow> VirtualService" where
  \<comment> \<open>the changes between the \<open>Get\<close> and the \<open>Update\<close>\<close>
  "cleaned ident found =
     (let version = UniqueDynamicEnvName ident;
          found = found\<lparr>vs_Http := cleanup_routes version (vs_Http found)\<rparr>
      in found\<lparr>vs_Meta := (vs_Meta found)\<lparr>om_Annotations :=
                RemoveFromAnnotation ident (om_Annotations (vs_Meta found))\<rparr>\<rparr>)"

definition cleanupVirtualService :: "'w Env \<Rightarrow> ResourceStatus \<Rightarrow> ('w, goerror option) go" where
  "cleanupVirtualService c vs =
     bnd readDE (\<lambda>de.
     bnd (call (GetVirtualService c (resource_name vs))) (\<lambda>r. case r of
       Inl err \<Rightarrow> if IsNotFound err then ret None else ret (Some err)
     | Inr found \<Rightarrow>
         bnd (call (UpdateVirtualService c (cleaned (de_ident de) found))) (\<lambda>(r, _). case r of
           Some err \<Rightarrow> ret (Some err)
         | None \<Rightarrow> ret None)))"

section \<open>All resources of the dynamic environment\<close>

fun delete_deployments :: "'w Env \<Rightarrow> ResourceStatus list \<Rightarrow> int \<Rightarrow> ('w, int \<times> goerror option) go" where
  "delete_deployments c [] runningCount = ret (runningCount, None)"
| "delete_deployments c (item # deployments) runningCount =
     bnd (deleteDeployment c item) (\<lambda>(found, err). case err of
       Some err \<Rightarrow> ret (runningCount, Some (Wrap ''deleting all deployments'' err))
     | None \<Rightarrow> delete_deployments c deployments (if found then runningCount + 1 else runningCount))"

definition deleteAllDeployments :: "'w Env \<Rightarrow> ('w, int \<times> goerror option) go" where
  "deleteAllDeployments c =
     bnd readDE (\<lambda>de.
     let subsets = st_SubsetsStatus (de_Status de); consumers = st_ConsumersStatus (de_Status de)
     in bnd (call (RangeOrder c (gm_keys subsets))) (\<lambda>ks.
        bnd (call (RangeOrder c (gm_keys consumers))) (\<lambda>ks'.
        delete_deployments c
          (map (\<lambda>k. ss_Deployment (gm_get SubsetStatus_zero subsets k)) ks @
           map (\<lambda>k. cs_ResourceStatus (gm_get ConsumerStatus_zero consumers k)) ks') 0)))"

fun delete_destination_rules :: "'w Env \<Rightarrow> ResourceStatus list \<Rightarrow> int \<Rightarrow> ('w, int \<times> goerror option) go" where
  "delete_destination_rules c [] runningCount = ret (runningCount, None)"
| "delete_destination_rules c (item # drs) runningCount =
     bnd (deleteDestinationRule c item) (\<lambda>(found, err). case err of
       Some err \<Rightarrow> ret (runningCount, Some (Wrap ''deleting destination rule'' err))
     | None \<Rightarrow> delete_destination_rules c drs (if found then runningCount + 1 else runningCount))"

definition deleteAllDestinationRules :: "'w Env \<Rightarrow> ('w, int \<times> goerror option) go" where
  "deleteAllDestinationRules c =
     bnd readDE (\<lambda>de.
     let subsets = st_SubsetsStatus (de_Status de)
     in bnd (call (RangeOrder c (gm_keys subsets))) (\<lambda>ks.
        delete_destination_rules c
          (concat (map (\<lambda>k. ss_DestinationRules (gm_get SubsetStatus_zero subsets k)) ks)) 0))"

fun cleanup_virtual_services :: "'w Env \<Rightarrow> ResourceStatus list \<Rightarrow> ('w, goerror option) go" where
  "cleanup_virtual_services c [] = ret None"
| "cleanup_virtual_services c (item # vss) =
     bnd (cleanupVirtualService c item) (\<lambda>err. case err of
       Some err \<Rightarrow> ret (Some (Wrap ''cleaning up all virtual services'' err))
     | None \<Rightarrow> cleanup_virtual_services c vss)"

definition cleanupVirtualServices :: "'w Env \<Rightarrow> ('w, goerror option) go" where
  "cleanupVirtualServices c =
     bnd readDE (\<lambda>de.
     let subsets = st_SubsetsStatus (de_Status de)
     in bnd (call (RangeOrder c (gm_keys subsets))) (\<lambda>ks.
        cleanup_virtual_services c
          (concat (map (\<lambda>k. ss_VirtualServices (gm_get SubsetStatus_zero subsets k)) ks))))"

definition deleteFinalizer :: "'w Env \<Rightarrow> string \<Rightarrow> ('w, goerror option) go" where
  "deleteFinalizer c finalizer =
     bnd readDE (\<lambda>de.
     bnd (writeDE (de\<lparr>de_Finalizers := RemoveItemFromStringSlice finalizer (de_Finalizers de)\<rparr>)) (\<lambda>_.
     bnd (UpdateDE c) (\<lambda>r. case r of
       Some err \<Rightarrow> ret (Some (Wrap (''error removing '' @ finalizer @ '' finalizer'') err))
     | None \<Rightarrow> ret None)))"

text \<open>
  \<open>DeleteAllResources\<close> goes through the three finalizers; each of its three blocks returns early on an
  error. \<open>finalizer_block\<close> is one block: the deletion \<open>work\<close> returns how many resources it still found.
\<close>

definition finalizer_block ::
  "'w Env \<Rightarrow> string \<Rightarrow> ('w, int \<times> goerror option) go \<Rightarrow> ('w, goerror option) go \<Rightarrow> ('w, goerror option) go" where
  "finalizer_block c finalizer work continue =
     bnd readDE (\<lambda>de.
     if Contains (de_Finalizers de) finalizer then
       bnd work (\<lambda>(count, err). case err of
         Some err \<Rightarrow> ret (Some err)
       | None \<Rightarrow>
           if count = 0 then
             bnd (deleteFinalizer c finalizer) (\<lambda>err. case err of
               Some err \<Rightarrow> ret (Some err) | None \<Rightarrow> continue)
           else continue)
     else continue)"

definition DeleteAllResources :: "'w Env \<Rightarrow> ('w, Result \<times> goerror option) go" where
  "DeleteAllResources c =
     bnd (finalizer_block c DeleteDeployments (deleteAllDeployments c)
         (finalizer_block c DeleteDestinationRules (deleteAllDestinationRules c)
         (finalizer_block c CleanupVirtualServices
            (bnd (cleanupVirtualServices c) (\<lambda>err. ret (0, err)))
         (ret None)))) (\<lambda>err.
     ret (Result_zero, err))"

section \<open>Removed subsets and consumers\<close>

definition removeConsumer :: "'w Env \<Rightarrow> string \<Rightarrow> ('w, bool \<times> goerror option) go" where
  "removeConsumer c name =
     bnd readDE (\<lambda>de. case gm_lookup (st_ConsumersStatus (de_Status de)) name of
       Some st \<Rightarrow>
         bnd (deleteDeployment c (cs_ResourceStatus st)) (\<lambda>(found, err). case err of
           Some err \<Rightarrow> ret (True, Some (Wrap ''remove consumer'' err))
         | None \<Rightarrow>
             if found then
               bnd readDE (\<lambda>de.
               let status = gm_get ConsumerStatus_zero (st_ConsumersStatus (de_Status de)) name;
                   status = status\<lparr>cs_ResourceStatus := (cs_ResourceStatus status)\<lparr>rs_Status := Removing\<rparr>\<rparr>
               in bnd (assignConsumerStatus name status) (\<lambda>_.
                  bnd (StatusUpdate c) (\<lambda>err. ret (True, err))))
             else
               bnd (modifyStatus (\<lambda>st. st\<lparr>st_ConsumersStatus := gm_delete name (st_ConsumersStatus st)\<rparr>)) (\<lambda>_.
               bnd (StatusUpdate c) (\<lambda>err. ret (False, err))))
     | None \<Rightarrow> ret (False, None))"

fun remove_drs :: "'w Env \<Rightarrow> ResourceStatus list \<Rightarrow> bool \<Rightarrow> ('w, bool \<times> goerror option) go" where
  \<comment> \<open>the loop over the destination rules of a subset, with the variable \<open>exists\<close>\<close>
  "remove_drs c [] exists = ret (exists, None)"
| "remove_drs c (dr # drs) exists =
     bnd (deleteDestinationRule c dr) (\<lambda>(found, err). case err of
       Some err \<Rightarrow> ret (exists, Some (Wrap ''removing subset'' err))
     | None \<Rightarrow> remove_drs c drs (if found then found else exists))"

fun remove_vss :: "'w Env \<Rightarrow> ResourceStatus list \<Rightarrow> ('w, goerror option) go" where
  "remove_vss c [] = ret None"
| "remove_vss c (vs # vss) =
     bnd (cleanupVirtualService c vs) (\<lambda>err. case err of
       Some err \<Rightarrow> ret (Some (Wrap ''removing subset'' err))
     | None \<Rightarrow> remove_vss c vss)"

definition remove_subset_resources :: "'w Env \<Rightarrow> SubsetStatus \<Rightarrow> ('w, bool \<times> goerror option) go" where
  "remove_subset_resources c st =
     bnd (deleteDeployment c (ss_Deployment st)) (\<lambda>(found, err). case err of
       Some err \<Rightarrow> ret (True, Some (Wrap ''removing subset'' err))
     | None \<Rightarrow>
         bnd (remove_drs c (ss_DestinationRules st) found) (\<lambda>(exists, err). case err of
           Some err \<Rightarrow> ret (True, Some err)
         | None \<Rightarrow>
             bnd (remove_vss c (ss_VirtualServices st)) (\<lambda>err. case err of
               Some err \<Rightarrow> ret (True, Some err)
             | None \<Rightarrow> ret (exists, None))))"

definition removeSubset :: "'w Env \<Rightarrow> string \<Rightarrow> ('w, bool \<times> goerror option) go" where
  "removeSubset c name =
     bnd readDE (\<lambda>de.
     bnd (case gm_lookup (st_SubsetsStatus (de_Status de)) name of
            Some st \<Rightarrow> remove_subset_resources c st
          | None \<Rightarrow> ret (False, None)) (\<lambda>(exists, err). case err of
       Some err \<Rightarrow> ret (True, Some err)
     | None \<Rightarrow>
         if exists then
           bnd readDE (\<lambda>de.
           let status = gm_get SubsetStatus_zero (st_SubsetsStatus (de_Status de)) name;
               status = status\<lparr>ss_Deployment := (ss_Deployment status)\<lparr>rs_Status := Removing\<rparr>\<rparr>
           in bnd (assignSubsetStatus name status) (\<lambda>_.
              bnd (StatusUpdate c) (\<lambda>err. ret (True, err))))
         else
           bnd (modifyStatus (\<lambda>st. st\<lparr>st_SubsetsStatus := gm_delete name (st_SubsetsStatus st)\<rparr>)) (\<lambda>_.
           bnd (StatusUpdate c) (\<lambda>err. ret (False, err)))))"

fun remove_all :: "'w Env \<Rightarrow> SubsetsAndConsumersMap \<Rightarrow> string list \<Rightarrow> bool \<Rightarrow> ('w, bool \<times> goerror option) go" where
  "remove_all c subsetsAndConsumers [] inProgress = ret (inProgress, None)"
| "remove_all c subsetsAndConsumers (name # names) inProgress =
     (if gm_get SUBSET subsetsAndConsumers name = CONSUMER then
        bnd (removeConsumer c name) (\<lambda>(processing, err). case err of
          Some err \<Rightarrow> ret (processing, Some (Wrap ''delete removed consumer'' err))
        | None \<Rightarrow> remove_all c subsetsAndConsumers names (if processing then True else inProgress))
      else
        bnd (removeSubset c name) (\<lambda>(processing, err). case err of
          Some err \<Rightarrow> ret (processing, Some (Wrap ''delete removed subset'' err))
        | None \<Rightarrow> remove_all c subsetsAndConsumers names (if processing then True else inProgress)))"

definition RemoveSubsetsAndConsumers :: "'w Env \<Rightarrow> SubsetsAndConsumersMap \<Rightarrow> ('w, bool \<times> goerror option) go" where
  "RemoveSubsetsAndConsumers c subsetsAndConsumers =
     bnd (call (RangeOrder c (gm_keys subsetsAndConsumers))) (\<lambda>names.
     remove_all c subsetsAndConsumers names False)"

section \<open>Which subsets and consumers are removed\<close>

lemma fold_mark_removed:
  "gm_lookup (fold (mark_removed keys tpe) names m) k =
     (if k \<in> set names \<and> k \<notin> set keys then Some tpe else gm_lookup m k)"
  by (induction names arbitrary: m) (auto simp: mark_removed_def)

lemma fold_put_keys:
  "set (gm_keys (fold (\<lambda>x m. gm_put (f x) (g x) m) xs m)) = f ` set xs \<union> set (gm_keys m)"
  by (induction xs arbitrary: m) auto

lemma fold_mark_ok: "gm_ok m \<Longrightarrow> gm_ok (fold (mark_removed keys tpe) names m)"
  by (induction names arbitrary: m) (auto simp: mark_removed_def)

section \<open>What a deletion run observes\<close>

text \<open>
  A resource counts as absent when a request for it was answered with "not found"; the trace keeps the
  answers, so what was observed stays observed.
\<close>

definition deployment_absent :: "ResourceStatus \<Rightarrow> effect list \<Rightarrow> bool" where
  "deployment_absent r es \<longleftrightarrow> (\<exists>err. GotDeployment (resource_name r) (Inl err) \<in> set es \<and> IsNotFound err)"

definition destination_rule_absent :: "ResourceStatus \<Rightarrow> effect list \<Rightarrow> bool" where
  "destination_rule_absent r es \<longleftrightarrow> (\<exists>err. GotDestinationRule (resource_name r) (Inl err) \<in> set es \<and> IsNotFound err)"

fun no_env_update :: "effect \<Rightarrow> bool" where
  "no_env_update (UpdatedDynamicEnv _ _) = False"
| "no_env_update (UpdatedStatus _ _) = False"
| "no_env_update _ = True"

text \<open>The contract of the two deletions, and of the loops over them.\<close>

locale resource_deleter =
  fixes delete :: "('w \<times> effect list) Env \<Rightarrow> ResourceStatus \<Rightarrow> ('w \<times> effect list, bool \<times> goerror option) go"
    and absent :: "ResourceStatus \<Rightarrow> effect list \<Rightarrow> bool"
    and loop :: "('w \<times> effect list) Env \<Rightarrow> ResourceStatus list \<Rightarrow> int \<Rightarrow>
                   ('w \<times> effect list, int \<times> goerror option) go"
    and msg :: string
  assumes absent_law: "absent r es \<Longrightarrow> absent r (es @ fs)"
    and delete_law: "delete (traced c) r s = (Done (False, None), t) \<Longrightarrow> absent r (log_of t)"
    and delete_requests_law: "does no_env_update (delete (traced c) r)"
    and delete_keeps_law: "keeps (de_is de) (delete (traced c) r)"
    and delete_total_law: "delete (traced c) r s \<noteq> (Panic, t)"
    and loop_Nil_law: "loop c' [] n = ret (n, None)"
    and loop_Cons_law: "loop c' (r # rs) n = bnd (delete c' r) (\<lambda>(found, err). case err of
          Some err \<Rightarrow> ret (n, Some (Wrap msg err))
        | None \<Rightarrow> loop c' rs (if found then n + 1 else n))"
begin

lemma loop_requests: "does no_env_update (loop (traced c) rs n)"
proof (induction rs arbitrary: n)
  case (Cons r rs)
  then show ?case
    unfolding loop_Cons_law by (intro does_intro delete_requests_law)
qed (simp add: loop_Nil_law does_intro)

lemma loop_keeps: "keeps (de_is de) (loop (traced c) rs n)"
proof (induction rs arbitrary: n)
  case (Cons r rs)
  then show ?case
    unfolding loop_Cons_law by (intro keeps_intro delete_keeps_law)
qed (simp add: loop_Nil_law keeps_intro)

lemma loop_count: "loop (traced c) rs n s = (Done (m, None), t) \<Longrightarrow> n \<le> m"
proof (induction rs arbitrary: n s)
  case (Cons r rs)
  then show ?case
    by (fastforce simp: loop_Cons_law bnd_Done_iff split: option.splits if_splits)
qed (simp add: loop_Nil_law)

lemma loop_zero:
  "loop (traced c) rs n s = (Done (n, None), t) \<Longrightarrow> \<forall>r \<in> set rs. absent r (log_of t)"
proof (induction rs arbitrary: s)
  case (Cons r rs)
  from Cons.prems obtain found err u where
    del: "delete (traced c) r s = (Done (found, err), u)" and
    cont: "(case err of Some err \<Rightarrow> ret (n, Some (Wrap msg err))
       | None \<Rightarrow> loop (traced c) rs (if found then n + 1 else n)) u = (Done (n, None), t)"
    by (auto simp: loop_Cons_law bnd_Done_iff)
  then have err: "err = None" and rest: "loop (traced c) rs (if found then n + 1 else n) u = (Done (n, None), t)"
    by (auto split: option.splits)
  then have "\<not> found" using loop_count [of c rs "n + 1" u n t] by auto
  with rest have rest: "loop (traced c) rs n u = (Done (n, None), t)" by simp
  obtain es where "log_of t = log_of u @ es" using doesD [OF loop_requests rest] by blast
  with delete_law [of c r s u] del err \<open>\<not> found\<close> have "absent r (log_of t)" by (simp add: absent_law)
  with Cons.IH [OF rest] show ?case by simp
qed simp

lemma loop_total: "loop (traced c) rs n s \<noteq> (Panic, t)"
proof (induction rs arbitrary: n s)
  case (Cons r rs)
  then show ?case
    by (auto simp: loop_Cons_law bnd_Panic_iff delete_total_law split: option.splits)
qed (simp add: loop_Nil_law)

end

interpretation dep_del: resource_deleter deleteDeployment deployment_absent delete_deployments
  "''deleting all deployments''"
proof unfold_locales
  fix c :: "'a Env" and r s t
  show "deleteDeployment (traced c) r s = (Done (False, None), t) \<Longrightarrow> deployment_absent r (log_of t)"
    by (cases "world s", auto simp: deleteDeployment_def bnd_apply call_apply log_call_eq
        deployment_absent_def split: sum.splits prod.splits if_splits option.splits, blast)
  show "does no_env_update (deleteDeployment (traced c) r)"
    unfolding deleteDeployment_def by (intro does_intro) auto
  show "keeps (de_is de) (deleteDeployment (traced c) r)" for de
    unfolding deleteDeployment_def by (intro keeps_intro)
  show "deleteDeployment (traced c) r s \<noteq> (Panic, t)"
    by (auto simp: deleteDeployment_def bnd_Panic_iff split: sum.splits if_splits option.splits)
qed (auto simp: deployment_absent_def)

interpretation dr_del: resource_deleter deleteDestinationRule destination_rule_absent delete_destination_rules
  "''deleting destination rule''"
proof unfold_locales
  fix c :: "'a Env" and r s t
  show "deleteDestinationRule (traced c) r s = (Done (False, None), t) \<Longrightarrow> destination_rule_absent r (log_of t)"
    by (cases "world s", auto simp: deleteDestinationRule_def bnd_apply call_apply log_call_eq
        destination_rule_absent_def split: sum.splits prod.splits if_splits option.splits, blast)
  show "does no_env_update (deleteDestinationRule (traced c) r)"
    unfolding deleteDestinationRule_def by (intro does_intro) auto
  show "keeps (de_is de) (deleteDestinationRule (traced c) r)" for de
    unfolding deleteDestinationRule_def by (intro keeps_intro)
  show "deleteDestinationRule (traced c) r s \<noteq> (Panic, t)"
    by (auto simp: deleteDestinationRule_def bnd_Panic_iff split: sum.splits if_splits option.splits)
qed (auto simp: destination_rule_absent_def)

section \<open>Finalizers\<close>

text \<open>
  Documented behaviour of an update: the answer carries the finalizers as they were sent, and the
  stored status, which the deletion run does not change.
\<close>

definition update_echoes :: "'w Env \<Rightarrow> bool" where
  "update_echoes c \<longleftrightarrow> (\<forall>de w. case UpdateDynamicEnv c de w of ((err, de'), w') \<Rightarrow>
     de_Finalizers de' = de_Finalizers de \<and> de_Status de' = de_Status de)"

text \<open>The finalizer \<open>F\<close> is there, and no update that was sent so far has taken it away.\<close>

definition guarded :: "string \<Rightarrow> ('w \<times> effect list) loop_state \<Rightarrow> bool" where
  "guarded F s \<longleftrightarrow> F \<in> set (de_Finalizers (cur_de s)) \<and>
     (\<forall>de err. UpdatedDynamicEnv de err \<in> set (log_of s) \<longrightarrow> F \<in> set (de_Finalizers de))"

definition reads_only :: "('w \<times> effect list, 'a) go \<Rightarrow> bool" where
  "reads_only m \<longleftrightarrow> does no_env_update m \<and> (\<forall>de. keeps (de_is de) m)"

lemma reads_onlyD:
  assumes "reads_only m" and "m s = (r, t)"
  shows "cur_de t = cur_de s" and "guarded F t = guarded F s"
proof -
  show de: "cur_de t = cur_de s"
    using assms keepsD [of "de_is (cur_de s)" m s r t] by (simp add: reads_only_def)
  obtain es where "log_of t = log_of s @ es" "list_all no_env_update es"
    using assms doesD unfolding reads_only_def by blast
  with de show "guarded F t = guarded F s"
    by (auto simp: guarded_def list_all_iff)
qed

lemma update_echoesD:
  "update_echoes c \<Longrightarrow> UpdateDynamicEnv c de w = ((err, de'), w') \<Longrightarrow>
   de_Finalizers de' = de_Finalizers de \<and> de_Status de' = de_Status de"
  unfolding update_echoes_def by (metis (mono_tags, lifting) case_prod_conv)

lemma deleteFinalizer_run:
  assumes "update_echoes c" and "deleteFinalizer (traced c) G s = (r, t)"
  shows "status_of t = status_of s"
    and "de_Finalizers (cur_de t) = filter (\<lambda>f. f \<noteq> G) (de_Finalizers (cur_de s))"
    and "G \<noteq> F \<Longrightarrow> guarded F s \<Longrightarrow> guarded F t"
proof -
  let ?de = "(cur_de s)\<lparr>de_Finalizers := RemoveItemFromStringSlice G (de_Finalizers (cur_de s))\<rparr>"
  obtain w es where w: "world s = (w, es)" by fastforce
  obtain err de' w' where up: "UpdateDynamicEnv c ?de w = ((err, de'), w')" by (metis prod.collapse)
  have t: "cur_de t = de'" "log_of t = es @ [UpdatedDynamicEnv ?de err]"
    using assms(2) by (auto simp: deleteFinalizer_def UpdateDE_def bnd_apply write_back_apply log_call_eq w up
        split: option.splits)
  from update_echoesD [OF assms(1) up]
  show "status_of t = status_of s"
    and fin: "de_Finalizers (cur_de t) = filter (\<lambda>f. f \<noteq> G) (de_Finalizers (cur_de s))"
    by (simp_all add: t(1) RemoveItem_filter)
  assume "G \<noteq> F" and "guarded F s"
  with fin w t(2) show "guarded F t" by (auto simp: guarded_def RemoveItem_filter)
qed

lemma block_other:
  assumes "update_echoes c" and "G \<noteq> F" and "reads_only work" and "guarded F s"
    and "finalizer_block (traced c) G work continue s = (r, t)"
  obtains "guarded F t"
  | u r' where "guarded F u" and "status_of u = status_of s" and "continue u = (r', t)"
proof (cases "G \<in> set (de_Finalizers (cur_de s))")
  case False
  with assms(5) have "continue s = (r, t)" by (simp add: finalizer_block_def bnd_apply)
  with assms(4) that(2) show thesis by blast
next
  case True
  obtain w u where work: "work s = (w, u)" by fastforce
  note u = reads_onlyD [OF assms(3) work]
  obtain d v where del: "deleteFinalizer (traced c) G u = (d, v)" by fastforce
  note v = deleteFinalizer_run [OF assms(1) del]
  have gu: "guarded F u" and su: "status_of u = status_of s" and gv: "guarded F v"
    and sv: "status_of v = status_of s"
    using u v assms(2,4) by simp_all
  have "guarded F t \<or> (\<exists>r'. continue u = (r', t)) \<or> (\<exists>r'. continue v = (r', t))"
    using assms(5) True gu gv
    by (auto simp: finalizer_block_def bnd_apply work del split: outcome.splits option.splits if_splits)
  with gu su gv sv that show thesis by blast
qed

lemma block_own:
  assumes "update_echoes c" and "reads_only work" and "guarded F s"
    and "\<And>u. work s = (Done (0, None), u) \<Longrightarrow> Absent (log_of u)"
    and "\<And>es fs. Absent es \<Longrightarrow> Absent (es @ fs)"
    and "keeps (guarded F) continue" and "does (\<lambda>_. True) continue"
    and "finalizer_block (traced c) F work continue s = (r, t)"
  shows "guarded F t \<or> Absent (log_of t)"
proof -
  obtain w u where work: "work s = (w, u)" by fastforce
  note u = reads_onlyD(2) [OF assms(2) work, of F]
  have F: "F \<in> set (de_Finalizers (cur_de s))" using assms(3) by (simp add: guarded_def)
  show ?thesis
  proof (cases "w = Done (0, None)")
    case True
    with assms(4) work have "Absent (log_of u)" by simp
    moreover have "does (\<lambda>_. True) (bnd (deleteFinalizer (traced c) F) (\<lambda>err. case err of
        Some err \<Rightarrow> ret (Some err) | None \<Rightarrow> continue))"
      unfolding deleteFinalizer_def by (intro does_intro assms(7) TrueI)
    moreover have "bnd (deleteFinalizer (traced c) F) (\<lambda>err. case err of
        Some err \<Rightarrow> ret (Some err) | None \<Rightarrow> continue) u = (r, t)"
      using assms(8) F True by (simp add: finalizer_block_def bnd_apply [of readDE] bnd_apply [of work] work)
    ultimately show ?thesis using assms(5) doesD by metis
  next
    case False
    have "t = u \<or> (\<exists>r'. continue u = (r', t))"
      using assms(8) F False
      by (auto simp: finalizer_block_def bnd_apply work split: outcome.splits option.splits if_splits)
    with u assms(3) keepsD [OF assms(6)] show ?thesis by blast
  qed
qed

text \<open>The resources that a status lists.\<close>

definition listed_deployments :: "DynamicEnvStatus \<Rightarrow> ResourceStatus set" where
  "listed_deployments st =
     {ss_Deployment v |k v. gm_lookup (st_SubsetsStatus st) k = Some v} \<union>
     {cs_ResourceStatus v |k v. gm_lookup (st_ConsumersStatus st) k = Some v}"

definition listed_destination_rules :: "DynamicEnvStatus \<Rightarrow> ResourceStatus set" where
  "listed_destination_rules st =
     {r |k v r. gm_lookup (st_SubsetsStatus st) k = Some v \<and> r \<in> set (ss_DestinationRules v)}"

definition listed_virtual_services :: "DynamicEnvStatus \<Rightarrow> ResourceStatus set" where
  "listed_virtual_services st =
     {r |k v r. gm_lookup (st_SubsetsStatus st) k = Some v \<and> r \<in> set (ss_VirtualServices v)}"

definition status_maps_ok :: "DynamicEnvStatus \<Rightarrow> bool" where
  "status_maps_ok st \<longleftrightarrow> gm_ok (st_SubsetsStatus st) \<and> gm_ok (st_ConsumersStatus st)"

lemma map_values:
  assumes "set ks = set (gm_keys m)"
  shows "(\<lambda>k. f (gm_get z m k)) ` set ks = {f v |k v. gm_lookup m k = Some v}"
proof -
  have "set ks = {k. gm_lookup m k \<noteq> None}" using assms by (auto simp: gm_keys_lookup)
  moreover have "f v \<in> (\<lambda>k. f (gm_get z m k)) ` {k. gm_lookup m k \<noteq> None}" if "gm_lookup m k = Some v" for k v
    using that by (intro image_eqI [of _ _ k]) (simp_all add: gm_get_def)
  ultimately have "{f v |k v. gm_lookup m k = Some v} \<subseteq> (\<lambda>k. f (gm_get z m k)) ` set ks" by auto
  moreover have "f (gm_get z m k) \<in> {f v |k v. gm_lookup m k = Some v}" if "k \<in> set ks" for k
    using that assms by (cases "gm_lookup m k") (auto simp: gm_keys_lookup gm_get_def)
  ultimately show ?thesis by auto
qed

lemma range_traced:
  assumes "range_visits_all c" and "gm_ok m" and "RangeOrder (traced c) (gm_keys m) w = (ks, w')"
  shows "set ks = set (gm_keys m)"
  using assms range_visits_allD [OF assms(1), of "gm_keys m" "fst w"]
  by (cases w) (auto simp: silent_eq gm_ok_def split: prod.splits)

lemma reads_only_works:
  "reads_only (deleteAllDeployments (traced c))" "reads_only (deleteAllDestinationRules (traced c))"
  unfolding reads_only_def deleteAllDeployments_def deleteAllDestinationRules_def
  by (intro conjI allI does_intro keeps_intro dep_del.loop_requests dep_del.loop_keeps
      dr_del.loop_requests dr_del.loop_keeps)+

lemma cleanupVirtualService_reads: "reads_only (cleanupVirtualService (traced c) vs)"
  unfolding reads_only_def cleanupVirtualService_def
  by (intro conjI allI does_intro keeps_intro) auto

lemma cleanup_loop_reads: "reads_only (cleanup_virtual_services (traced c) vss)"
proof (induction vss)
  case (Cons vs vss)
  then show ?case
    using cleanupVirtualService_reads unfolding reads_only_def cleanup_virtual_services.simps
    by (intro conjI allI does_intro keeps_intro) auto
qed (simp add: reads_only_def does_intro keeps_intro)

lemma reads_only_vss: "reads_only (bnd (cleanupVirtualServices (traced c)) (\<lambda>err. ret (0, err)))"
  using cleanup_loop_reads unfolding reads_only_def cleanupVirtualServices_def
  by (intro conjI allI does_intro keeps_intro) auto

lemma deleteAllDeployments_zero:
  assumes "range_visits_all c" and "status_maps_ok (status_of s)"
    and "deleteAllDeployments (traced c) s = (Done (0, None), t)"
  shows "\<forall>r \<in> listed_deployments (status_of s). deployment_absent r (log_of t)"
proof -
  let ?m = "st_SubsetsStatus (status_of s)" and ?n = "st_ConsumersStatus (status_of s)"
  obtain ks w where ks: "RangeOrder (traced c) (gm_keys ?m) (world s) = (ks, w)" by (meson surj_pair)
  obtain ks' w' where ks': "RangeOrder (traced c) (gm_keys ?n) w = (ks', w')" by (meson surj_pair)
  let ?rs = "map (\<lambda>k. ss_Deployment (gm_get SubsetStatus_zero ?m k)) ks @
      map (\<lambda>k. cs_ResourceStatus (gm_get ConsumerStatus_zero ?n k)) ks'"
  have run: "delete_deployments (traced c) ?rs 0 (s\<lparr>world := w'\<rparr>) = (Done (0, None), t)"
    using assms(3) ks ks' by (simp add: deleteAllDeployments_def Let_def bnd_apply call_apply del: traced_sel)
  have "set ks = set (gm_keys ?m)" "set ks' = set (gm_keys ?n)"
    using range_traced [OF assms(1) _ ks] range_traced [OF assms(1) _ ks'] assms(2)
    by (simp_all add: status_maps_ok_def)
  then have "set ?rs = listed_deployments (status_of s)"
    by (simp add: listed_deployments_def map_values)
  with dep_del.loop_zero [OF run] show ?thesis by simp
qed

lemma deleteAllDestinationRules_zero:
  assumes "range_visits_all c" and "status_maps_ok (status_of s)"
    and "deleteAllDestinationRules (traced c) s = (Done (0, None), t)"
  shows "\<forall>r \<in> listed_destination_rules (status_of s). destination_rule_absent r (log_of t)"
proof -
  let ?m = "st_SubsetsStatus (status_of s)"
  obtain ks w where ks: "RangeOrder (traced c) (gm_keys ?m) (world s) = (ks, w)" by (meson surj_pair)
  let ?rs = "concat (map (\<lambda>k. ss_DestinationRules (gm_get SubsetStatus_zero ?m k)) ks)"
  have run: "delete_destination_rules (traced c) ?rs 0 (s\<lparr>world := w\<rparr>) = (Done (0, None), t)"
    using assms(3) ks by (simp add: deleteAllDestinationRules_def Let_def bnd_apply call_apply del: traced_sel)
  have "set ks = set (gm_keys ?m)"
    using range_traced [OF assms(1) _ ks] assms(2) by (simp add: status_maps_ok_def)
  from map_values [OF this, of "\<lambda>v. set (ss_DestinationRules v)" SubsetStatus_zero]
  have "set ?rs = \<Union> {set (ss_DestinationRules v) |k v. gm_lookup ?m k = Some v}" by simp
  also have "\<dots> = listed_destination_rules (status_of s)"
    by (auto simp: listed_destination_rules_def)
  finally have "set ?rs = listed_destination_rules (status_of s)" .
  with dr_del.loop_zero [OF run] show ?thesis by (simp only:)
qed

lemma keeps_guarded_block:
  assumes "update_echoes c" and "G \<noteq> F" and "reads_only work" and "keeps (guarded F) continue"
  shows "keeps (guarded F) (finalizer_block (traced c) G work continue)"
proof (rule keepsI)
  fix s :: "('a \<times> effect list) loop_state" assume s: "guarded F s"
  obtain r t where "finalizer_block (traced c) G work continue s = (r, t)" by fastforce
  moreover from block_other [OF assms(1-3) s this] have "guarded F t"
    using keepsD [OF assms(4)] by metis
  ultimately show "guarded F (snd (finalizer_block (traced c) G work continue s))" by simp
qed

lemma does_block:
  "does (\<lambda>_. True) work \<Longrightarrow> does (\<lambda>_. True) continue \<Longrightarrow> does (\<lambda>_. True) (finalizer_block (traced c) G work continue)"
  unfolding finalizer_block_def deleteFinalizer_def by (intro does_intro TrueI)

lemma reads_only_does: "reads_only m \<Longrightarrow> does (\<lambda>_. True) m"
  by (auto simp: reads_only_def intro: does_weaken)

lemma finalizers_neq: "DeleteDeployments \<noteq> DeleteDestinationRules" "DeleteDestinationRules \<noteq> DeleteDeployments"
  "CleanupVirtualServices \<noteq> DeleteDeployments" "CleanupVirtualServices \<noteq> DeleteDestinationRules"
  "DeleteDeployments \<noteq> CleanupVirtualServices" "DeleteDestinationRules \<noteq> CleanupVirtualServices"
  by (simp_all add: names_defs)

abbreviation vs_block :: "('w \<times> effect list) Env \<Rightarrow> ('w \<times> effect list, goerror option) go" where
  "vs_block c \<equiv> finalizer_block c CleanupVirtualServices (bnd (cleanupVirtualServices c) (\<lambda>err. ret (0, err))) (ret None)"

abbreviation dr_block :: "('w \<times> effect list) Env \<Rightarrow> ('w \<times> effect list, goerror option) go" where
  "dr_block c \<equiv> finalizer_block c DeleteDestinationRules (deleteAllDestinationRules c) (vs_block c)"

abbreviation dep_block :: "('w \<times> effect list) Env \<Rightarrow> ('w \<times> effect list, goerror option) go" where
  "dep_block c \<equiv> finalizer_block c DeleteDeployments (deleteAllDeployments c) (dr_block c)"

lemma does_blocks: "does (\<lambda>_. True) (vs_block (traced c))" "does (\<lambda>_. True) (dr_block (traced c))"
  by (intro does_block reads_only_does reads_only_works reads_only_vss does_intro)+

lemma keeps_vs_block:
  "update_echoes c \<Longrightarrow> F \<noteq> CleanupVirtualServices \<Longrightarrow> keeps (guarded F) (vs_block (traced c))"
  by (intro keeps_guarded_block reads_only_vss keeps_intro) auto

lemma keeps_dr_block:
  "update_echoes c \<Longrightarrow> keeps (guarded DeleteDeployments) (dr_block (traced c))"
  by (intro keeps_guarded_block keeps_vs_block reads_only_works) (auto simp: finalizers_neq)

lemma dep_block_releases:
  assumes "range_visits_all c" and "update_echoes c" and "status_maps_ok (status_of s)"
    and "guarded DeleteDeployments s" and "dep_block (traced c) s = (r, t)"
  shows "guarded DeleteDeployments t \<or> (\<forall>r \<in> listed_deployments (status_of s). deployment_absent r (log_of t))"
  by (rule block_own [where Absent = "\<lambda>es. \<forall>r \<in> listed_deployments (status_of s). deployment_absent r es",
      OF assms(2) reads_only_works(1) assms(4) _ _ keeps_dr_block [OF assms(2)] does_blocks(2) assms(5)])
    (use deleteAllDeployments_zero [OF assms(1,3)] dep_del.absent_law in \<open>blast+\<close>)

lemma dr_block_releases:
  assumes "range_visits_all c" and "update_echoes c" and "status_maps_ok (status_of s)"
    and "guarded DeleteDestinationRules s" and "dr_block (traced c) s = (r, t)"
  shows "guarded DeleteDestinationRules t \<or>
    (\<forall>r \<in> listed_destination_rules (status_of s). destination_rule_absent r (log_of t))"
  by (rule block_own [where Absent = "\<lambda>es. \<forall>r \<in> listed_destination_rules (status_of s). destination_rule_absent r es",
      OF assms(2) reads_only_works(2) assms(4) _ _ keeps_vs_block [OF assms(2)] does_blocks(1) assms(5)])
    (use deleteAllDestinationRules_zero [OF assms(1,3)] dr_del.absent_law finalizers_neq in \<open>blast+\<close>)

section \<open>Deletion comes to an end\<close>

text \<open>
  The API server has no deployment and no destination rule left, a virtual service is missing or can be
  fetched, and updates are accepted.
\<close>

definition nothing_left :: "'w Env \<Rightarrow> bool" where
  "nothing_left c \<longleftrightarrow>
     (\<forall>nn w. case fst (GetDeployment c nn w) of Inl err \<Rightarrow> IsNotFound err | Inr _ \<Rightarrow> False) \<and>
     (\<forall>nn w. case fst (GetDestinationRule c nn w) of Inl err \<Rightarrow> IsNotFound err | Inr _ \<Rightarrow> False)"

definition updates_accepted :: "'w Env \<Rightarrow> bool" where
  "updates_accepted c \<longleftrightarrow>
     (\<forall>nn w. case fst (GetVirtualService c nn w) of Inl err \<Rightarrow> IsNotFound err | Inr _ \<Rightarrow> True) \<and>
     (\<forall>vs w. fst (fst (UpdateVirtualService c vs w)) = None) \<and>
     (\<forall>de w. fst (fst (UpdateDynamicEnv c de w)) = None)"

lemma nothing_leftD:
  assumes "nothing_left c"
  shows "GetDeployment c nn w = (r, w') \<Longrightarrow> \<exists>err. r = Inl err \<and> IsNotFound err"
    and "GetDestinationRule c nn w = (r', w') \<Longrightarrow> \<exists>err. r' = Inl err \<and> IsNotFound err"
proof -
  from assms have *: "case fst (GetDeployment c nn w) of Inl err \<Rightarrow> IsNotFound err | Inr _ \<Rightarrow> False"
    "case fst (GetDestinationRule c nn w) of Inl err \<Rightarrow> IsNotFound err | Inr _ \<Rightarrow> False"
    by (auto simp: nothing_left_def)
  show "\<exists>err. r = Inl err \<and> IsNotFound err" if "GetDeployment c nn w = (r, w')"
    using *(1) that by (auto split: sum.splits)
  show "\<exists>err. r' = Inl err \<and> IsNotFound err" if "GetDestinationRule c nn w = (r', w')"
    using *(2) that by (auto split: sum.splits)
qed

lemma delete_deployments_none:
  "nothing_left c \<Longrightarrow> returns (delete_deployments c rs n) s (\<lambda>r t. r = (n, None) \<and> cur_de t = cur_de s)"
proof (induction rs arbitrary: s)
  case (Cons r rs)
  then show ?case
    by (auto simp: deleteDeployment_def wp split: prod.splits sum.splits
        dest: nothing_leftD intro: returns_mono [OF Cons.IH])
qed (simp add: wp)

lemma delete_destination_rules_none:
  "nothing_left c \<Longrightarrow> returns (delete_destination_rules c rs n) s (\<lambda>r t. r = (n, None) \<and> cur_de t = cur_de s)"
proof (induction rs arbitrary: s)
  case (Cons r rs)
  then show ?case
    by (auto simp: deleteDestinationRule_def wp split: prod.splits sum.splits
        dest: nothing_leftD intro: returns_mono [OF Cons.IH])
qed (simp add: wp)

lemma cleanup_accepted:
  assumes "updates_accepted c"
  shows "returns (cleanupVirtualService c vs) s (\<lambda>r t. r = None \<and> cur_de t = cur_de s)"
proof -
  obtain r w where r: "GetVirtualService c (resource_name vs) (world s) = (r, w)" by fastforce
  show ?thesis
  proof (cases r)
    case (Inl err)
    with assms r have "IsNotFound err"
      unfolding updates_accepted_def by (metis (mono_tags, lifting) fst_conv sum.simps(5))
    with r Inl show ?thesis by (simp add: cleanupVirtualService_def wp)
  next
    case (Inr found)
    obtain e v w' where "UpdateVirtualService c (cleaned (de_ident (cur_de s)) found) w = ((e, v), w')"
      by (metis prod.collapse)
    moreover from this assms have "e = None" unfolding updates_accepted_def by (metis fst_conv)
    ultimately show ?thesis using r Inr by (simp add: cleanupVirtualService_def wp)
  qed
qed

lemma cleanup_loop_accepted:
  "updates_accepted c \<Longrightarrow> returns (cleanup_virtual_services c vss) s (\<lambda>r t. r = None \<and> cur_de t = cur_de s)"
proof (induction vss arbitrary: s)
  case (Cons vs vss)
  have "returns (cleanup_virtual_services c vss) t (\<lambda>r u. r = None \<and> cur_de u = cur_de s)"
    if "cur_de t = cur_de s" for t
    using Cons.IH [OF Cons.prems, of t] that by simp
  then show ?case
    by (auto simp: wp intro!: returns_mono [OF cleanup_accepted [OF Cons.prems]])
qed (simp add: wp)

lemma deleteFinalizer_accepted:
  assumes "updates_accepted c" and "update_echoes c"
  shows "returns (deleteFinalizer c F) s (\<lambda>r t. r = None \<and>
    de_Finalizers (cur_de t) = filter (\<lambda>f. f \<noteq> F) (de_Finalizers (cur_de s)) \<and> status_of t = status_of s)"
proof -
  let ?de = "(cur_de s)\<lparr>de_Finalizers := RemoveItemFromStringSlice F (de_Finalizers (cur_de s))\<rparr>"
  obtain e de' w where up: "UpdateDynamicEnv c ?de (world s) = ((e, de'), w)" by (metis prod.collapse)
  with assms(1) have "e = None" unfolding updates_accepted_def by (metis fst_conv)
  with update_echoesD [OF assms(2) up] up show ?thesis
    by (simp add: deleteFinalizer_def UpdateDE_def wp RemoveItem_filter)
qed

lemma block_accepted:
  assumes "updates_accepted c" and "update_echoes c"
    and "\<And>s. returns work s (\<lambda>r t. r = (0, None) \<and> cur_de t = cur_de s)"
    and "\<And>u. de_Finalizers (cur_de u) = filter (\<lambda>f. f \<noteq> F) (de_Finalizers (cur_de s)) \<Longrightarrow> returns continue u P"
  shows "returns (finalizer_block c F work continue) s P"
proof (cases "F \<in> set (de_Finalizers (cur_de s))")
  case False
  then have "filter (\<lambda>f. f \<noteq> F) (de_Finalizers (cur_de s)) = de_Finalizers (cur_de s)"
    by (auto simp: filter_id_conv)
  with False assms(4) [of s] show ?thesis by (simp add: finalizer_block_def wp)
next
  case True
  then show ?thesis
    by (auto simp: finalizer_block_def wp
        intro!: returns_mono [OF assms(3)] returns_mono [OF deleteFinalizer_accepted [OF assms(1,2)]] assms(4))
qed

section \<open>Removing a subset\<close>

lemma remove_drs_keeps: "reads_only (remove_drs (traced c) drs b)"
proof (induction drs arbitrary: b)
  case (Cons dr drs)
  then show ?case
    unfolding reads_only_def remove_drs.simps
    by (intro conjI allI does_intro keeps_intro dr_del.delete_requests_law dr_del.delete_keeps_law) auto
qed (simp add: reads_only_def does_intro keeps_intro)

lemma remove_vss_keeps: "reads_only (remove_vss (traced c) vss)"
proof (induction vss)
  case (Cons vs vss)
  then show ?case
    using cleanupVirtualService_reads unfolding reads_only_def remove_vss.simps
    by (intro conjI allI does_intro keeps_intro) auto
qed (simp add: reads_only_def does_intro keeps_intro)

lemma remove_drs_found: "remove_drs c drs True s = (Done (b, None), t) \<Longrightarrow> b"
  by (induction drs arbitrary: s) (auto simp: bnd_Done_iff split: option.splits if_splits)

lemma remove_drs_absent:
  "remove_drs (traced c) drs b s = (Done (False, None), t) \<Longrightarrow>
   \<not> b \<and> (\<forall>dr \<in> set drs. destination_rule_absent dr (log_of t))"
proof (induction drs arbitrary: s b)
  case (Cons dr drs)
  from Cons.prems obtain found err u where
    del: "deleteDestinationRule (traced c) dr s = (Done (found, err), u)" and
    cont: "(case err of Some err \<Rightarrow> ret (b, Some (Wrap ''removing subset'' err))
       | None \<Rightarrow> remove_drs (traced c) drs (if found then found else b)) u = (Done (False, None), t)"
    by (auto simp: bnd_Done_iff)
  then have err: "err = None" and rest: "remove_drs (traced c) drs (if found then found else b) u = (Done (False, None), t)"
    by (auto split: option.splits)
  from Cons.IH [OF rest] have none: "\<not> found" "\<not> b" "\<forall>dr \<in> set drs. destination_rule_absent dr (log_of t)"
    by (auto split: if_splits)
  obtain es where "log_of t = log_of u @ es" using doesD reads_only_does [OF remove_drs_keeps] rest by metis
  with dr_del.delete_law [of c dr s u] del err none show ?case by (simp add: dr_del.absent_law)
qed simp

lemma remove_subset_resources_reads: "reads_only (remove_subset_resources (traced c) st)"
  using remove_drs_keeps remove_vss_keeps
  unfolding reads_only_def remove_subset_resources_def
  by (intro conjI allI does_intro keeps_intro dep_del.delete_requests_law dep_del.delete_keeps_law) blast+

lemma remove_subset_resources_gone:
  assumes "remove_subset_resources (traced c) st s = (Done (False, None), t)"
  shows "deployment_absent (ss_Deployment st) (log_of t) \<and>
    (\<forall>dr \<in> set (ss_DestinationRules st). destination_rule_absent dr (log_of t))"
proof -
  from assms obtain found err u where
    dep: "deleteDeployment (traced c) (ss_Deployment st) s = (Done (found, err), u)" and
    cont: "(case err of Some err \<Rightarrow> ret (True, Some (Wrap ''removing subset'' err)) | None \<Rightarrow>
         bnd (remove_drs (traced c) (ss_DestinationRules st) found) (\<lambda>(exists, err). case err of
           Some err \<Rightarrow> ret (True, Some err)
         | None \<Rightarrow> bnd (remove_vss (traced c) (ss_VirtualServices st)) (\<lambda>err. case err of
               Some err \<Rightarrow> ret (True, Some err) | None \<Rightarrow> ret (exists, None)))) u = (Done (False, None), t)"
    by (auto simp: remove_subset_resources_def bnd_Done_iff)
  from cont have err: "err = None" by (auto split: option.splits)
  with cont obtain v where drs: "remove_drs (traced c) (ss_DestinationRules st) found u = (Done (False, None), v)"
    and vss: "remove_vss (traced c) (ss_VirtualServices st) v = (Done None, t)"
    by (auto simp: bnd_Done_iff split: option.splits)
  note gone = remove_drs_absent [OF drs]
  obtain es fs where v: "log_of v = log_of u @ es" and t: "log_of t = log_of v @ fs"
    using doesD reads_only_does [OF remove_drs_keeps] reads_only_does [OF remove_vss_keeps] drs vss by metis
  have "deployment_absent (ss_Deployment st) (log_of v)"
    using gone dep_del.delete_law [of c _ s u] dep err by (simp add: v dep_del.absent_law)
  with gone show ?thesis unfolding t by (blast intro: dep_del.absent_law dr_del.absent_law)
qed

lemma StatusUpdate_traced:
  "StatusUpdate (traced c) s = (r, t) \<Longrightarrow> \<exists>err. log_of t = log_of s @ [UpdatedStatus (cur_de s) err]"
  by (cases "world s") (auto simp: StatusUpdate_def write_back_apply log_call_eq split: prod.splits)

lemma reads_only_no_status:
  assumes "reads_only m" and "m s = (r, t)" and "UpdatedStatus de err \<in> set (log_of t)"
  shows "UpdatedStatus de err \<in> set (log_of s)"
proof -
  obtain es where "log_of t = log_of s @ es" "list_all no_env_update es"
    using assms(1,2) doesD unfolding reads_only_def by blast
  with assms(3) show ?thesis by (auto simp: list_all_iff)
qed

section \<open>Properties\<close>

text \<open>
  What left the spec. A name is to be removed exactly when the status lists it and no subset and
  no consumer of the spec has it; a name that the status lists in both sections is removed as a subset.
\<close>

theorem CheckForRemovedSubsetsAndConsumers_correct:
  "gm_lookup (CheckForRemovedSubsetsAndConsumers de sts) k =
     (if k \<in> (\<lambda>st. MKSubsetName (sbt_Subset st)) ` set sts then None
      else if gm_lookup (st_SubsetsStatus (de_Status de)) k \<noteq> None then Some SUBSET
      else if gm_lookup (st_ConsumersStatus (de_Status de)) k \<noteq> None then Some CONSUMER
      else None) \<and>
   gm_ok (CheckForRemovedSubsetsAndConsumers de sts)"
proof -
  let ?all = "fold (\<lambda>st m. gm_put (MKSubsetName (sbt_Subset st)) (sbt_Type st) m) sts gm_make"
  have keys: "set (gm_keys ?all) = (\<lambda>st. MKSubsetName (sbt_Subset st)) ` set sts"
    by (simp add: fold_put_keys) (simp add: gm_keys_def gm_make_def)
  show ?thesis
    by (simp add: CheckForRemovedSubsetsAndConsumers_def Let_def fold_mark_removed keys gm_keys_lookup
        fold_mark_ok)
qed


definition sample_deleted :: DynamicEnv where
  "sample_deleted = \<lparr>de_Name = ''env'', de_Namespace = ''ns'',
     de_Finalizers = [DeleteDeployments, DeleteDestinationRules, CleanupVirtualServices],
     de_DeletionTimestamp = Some 5, de_rest = [],
     de_Spec = \<lparr>spec_IstioMatches = None, spec_Subsets = [], spec_Consumers = []\<rparr>,
     de_Status = \<lparr>st_SubsetsStatus = Some [(''ns/a'', SubsetStatus_zero\<lparr>
         ss_Deployment := \<lparr>rs_Name = ''a-env'', rs_Namespace = ''ns'', rs_Status = Running\<rparr>\<rparr>)],
       st_ConsumersStatus = None, st_State = [], st_TotalCount = 1, st_TotalReady = 1\<rparr>\<rparr>"

definition sample_start :: "(mem \<times> effect list) loop_state" where
  "sample_start = \<lparr>cur_de = sample_deleted, world = (empty_mem\<lparr>m_des := [sample_deleted]\<rparr>, [])\<rparr>"

lemma mem_env_echoes [simp]: "update_echoes mem_env"
  by (simp add: update_echoes_def mem_env_def)

lemma sample_run:
  "UpdatedDynamicEnv (sample_deleted\<lparr>de_Finalizers := [DeleteDestinationRules, CleanupVirtualServices]\<rparr>) None
     \<in> set (log_of (snd (DeleteAllResources (traced mem_env) sample_start)))"
  by code_simp


text \<open>
  Deletion comes to an end. Once the server reports every deployment and destination rule as missing
  and accepts the updates, one deletion run returns without an error and leaves none of the operator's
  three finalizers; finalizers of others stay, in order.
\<close>

theorem DeleteAllResources_completes:
  assumes "nothing_left c" and "updates_accepted c" and "update_echoes c"
  shows "returns (DeleteAllResources c) s (\<lambda>r t. r = (Result_zero, None) \<and>
    de_Finalizers (cur_de t) = filter (\<lambda>f. f \<notin> {DeleteDeployments, DeleteDestinationRules, CleanupVirtualServices})
      (de_Finalizers (cur_de s)))"
proof -
  note none = delete_deployments_none [OF assms(1)] delete_destination_rules_none [OF assms(1)]
    cleanup_loop_accepted [OF assms(2)]
  have works: "returns (deleteAllDeployments c) s (\<lambda>r t. r = (0, None) \<and> cur_de t = cur_de s)"
    "returns (deleteAllDestinationRules c) s (\<lambda>r t. r = (0, None) \<and> cur_de t = cur_de s)"
    "returns (bnd (cleanupVirtualServices c) (\<lambda>err. ret (0, err))) s (\<lambda>r t. r = (0, None) \<and> cur_de t = cur_de s)"
    for s
    unfolding deleteAllDeployments_def deleteAllDestinationRules_def cleanupVirtualServices_def Let_def
    by (auto simp: wp split: prod.splits intro!: none [THEN returns_mono])
  show ?thesis
    unfolding DeleteAllResources_def returns_bnd returns_ret
    by (intro block_accepted [OF assms(2,3)] works)
      (auto simp: wp filter_filter conj_ac intro!: arg_cong2 [where f = filter])
qed

definition empty_cluster :: "mem Env" where
  "empty_cluster = mem_env\<lparr>GetDeployment := (\<lambda>nn w. (Inl not_found, w)),
     GetDestinationRule := (\<lambda>nn w. (Inl not_found, w)), GetVirtualService := (\<lambda>nn w. (Inl not_found, w)),
     UpdateVirtualService := (\<lambda>vs w. ((None, vs), w)), UpdateDynamicEnv := (\<lambda>de w. ((None, de), w))\<rparr>"

theorem DeleteAllResources_completes_witness:
  "returns (DeleteAllResources empty_cluster) \<lparr>cur_de = sample_deleted, world = empty_mem\<rparr>
     (\<lambda>r t. r = (Result_zero, None) \<and> de_Finalizers (cur_de t) = [])"
proof -
  have "nothing_left empty_cluster" "updates_accepted empty_cluster" "update_echoes empty_cluster"
    by (auto simp: nothing_left_def updates_accepted_def update_echoes_def empty_cluster_def not_found_def
        IsNotFound_def)
  from DeleteAllResources_completes [OF this] show ?thesis
    by (rule returns_mono) (auto simp: sample_deleted_def)
qed


text \<open>
  C24: removing a subset that left the spec. At most one status is written; it drops the entry of the
  subset only when its deployment and all its destination rules were reported missing in this run, and
  otherwise keeps the entry with the deployment marked as being removed. The entries of other subsets
  are written as they were.
\<close>

theorem removeSubset_safe:
  assumes "log_of s = []" and "gm_lookup (st_SubsetsStatus (status_of s)) name = Some entry"
    and "removeSubset (traced c) name s = (r, t)" and "UpdatedStatus de err \<in> set (log_of t)"
  shows "(gm_lookup (st_SubsetsStatus (de_Status de)) name = None \<and>
            deployment_absent (ss_Deployment entry) (log_of t) \<and>
            (\<forall>dr \<in> set (ss_DestinationRules entry). destination_rule_absent dr (log_of t)) \<or>
          gm_lookup (st_SubsetsStatus (de_Status de)) name =
            Some (entry\<lparr>ss_Deployment := (ss_Deployment entry)\<lparr>rs_Status := Removing\<rparr>\<rparr>)) \<and>
         (\<forall>k. k \<noteq> name \<longrightarrow> gm_lookup (st_SubsetsStatus (de_Status de)) k =
            gm_lookup (st_SubsetsStatus (status_of s)) k)"
proof -
  obtain w u where res: "remove_subset_resources (traced c) entry s = (w, u)" by fastforce
  note reads = remove_subset_resources_reads [of c entry]
  have de: "cur_de u = cur_de s" using reads_onlyD(1) [OF reads res] .
  have quiet: "UpdatedStatus de err \<notin> set (log_of u)"
    using reads_only_no_status [OF reads res] assms(1) by auto
  have nil: "st_SubsetsStatus (status_of s) \<noteq> None"
    using assms(2) by (cases "st_SubsetsStatus (status_of s)") auto
  have get: "gm_get SubsetStatus_zero (st_SubsetsStatus (status_of s)) name = entry"
    using assms(2) by (simp add: gm_get_def)
  have "w \<noteq> Panic" and "\<And>b e. w \<noteq> Done (b, Some e)"
    using assms(2,3,4) res quiet by (auto simp: removeSubset_def bnd_apply)
  then obtain exists where w: "w = Done (exists, None)"
    by (metis option.exhaust outcome.exhaust surj_pair)
  show ?thesis
  proof (cases exists)
    case True
    let ?new = "entry\<lparr>ss_Deployment := (ss_Deployment entry)\<lparr>rs_Status := Removing\<rparr>\<rparr>"
    obtain r' where "StatusUpdate (traced c) (with_status u (put_subset name ?new (status_of s))) = (r', t)"
      using assms(2,3) res w True nil
      by (auto simp: removeSubset_def bnd_apply de get Let_def assignSubsetStatus_apply
          split: prod.splits outcome.splits)
    from StatusUpdate_traced [OF this] assms(4) quiet
    have "de_Status de = put_subset name ?new (status_of s)" by auto
    with assms(2) show ?thesis by (simp add: put_subset_def)
  next
    case False
    let ?st = "(status_of s)\<lparr>st_SubsetsStatus := gm_delete name (st_SubsetsStatus (status_of s))\<rparr>"
    obtain r' where "StatusUpdate (traced c) (with_status u ?st) = (r', t)"
      using assms(2,3) res w False
      by (auto simp: removeSubset_def bnd_apply de split: prod.splits outcome.splits)
    from StatusUpdate_traced [OF this] assms(4) quiet
    have "de_Status de = ?st" and "\<exists>e. log_of t = log_of u @ [e]" by auto
    with remove_subset_resources_gone [of c entry s u] res w False show ?thesis
      by (auto simp: dep_del.absent_law dr_del.absent_law)
  qed
qed

definition sample_log :: "effect list" where
  "sample_log = log_of (snd (removeSubset (traced mem_env) ''ns/a'' sample_start))"

lemma sample_log_eq:
  "UpdatedStatus (sample_deleted\<lparr>de_Status := (de_Status sample_deleted)\<lparr>st_SubsetsStatus := Some []\<rparr>\<rparr>) None
     \<in> set sample_log"
  by code_simp

theorem removeSubset_safe_witness:
  "deployment_absent \<lparr>rs_Name = ''a-env'', rs_Namespace = ''ns'', rs_Status = Running\<rparr> sample_log"
proof -
  let ?dep = "\<lparr>rs_Name = ''a-env'', rs_Namespace = ''ns'', rs_Status = Running\<rparr>"
  obtain r t where run: "removeSubset (traced mem_env) ''ns/a'' sample_start = (r, t)" by fastforce
  have log: "log_of t = sample_log" by (simp add: sample_log_def run)
  have start: "log_of sample_start = []"
    "gm_lookup (st_SubsetsStatus (status_of sample_start)) ''ns/a'' = Some (SubsetStatus_zero\<lparr>ss_Deployment := ?dep\<rparr>)"
    by (simp_all add: sample_start_def sample_deleted_def)
  from removeSubset_safe [OF start run] sample_log_eq log show ?thesis by fastforce
qed

end
