(* ===== verification/Handler.thy ===== *)
theory Handler
  imports Status_Manager
begin

text \<open>
  The interfaces of \<^verbatim>\<open>pkg/handlers/handler.go\<close> as locales. \<open>BaseHandler\<close>, \<open>SRHandler\<close> and \<open>MRHandler\<close> have
  one contract in common: handling a subset makes only requests that concern the handler's own
  resources, computing a status only reads, and applying a status only writes statuses. The reconciler
  relies on nothing else; the three handlers interpret the locale.

  The type of the answers of \<open>GetStatus\<close> is one status for a single resource handler and a list of them
  for a multi resource handler.
\<close>

fun is_read :: "effect \<Rightarrow> bool" where
  "is_read (GotDynamicEnv _ _) = True"
| "is_read (GotDeployment _ _) = True"
| "is_read (GotVirtualService _ _) = True"
| "is_read (GotDestinationRule _ _) = True"
| "is_read _ = False"

fun is_status :: "effect \<Rightarrow> bool" where
  "is_status (UpdatedStatus _ _) = True"
| "is_status _ = False"

locale resource_handler =
  fixes Handle :: "('w \<times> effect list) Env \<Rightarrow> 'h \<Rightarrow> ('w \<times> effect list, 'h \<times> goerror option) go"
    and GetStatus :: "('w \<times> effect list) Env \<Rightarrow> 'h \<Rightarrow> ('w \<times> effect list, goerror + 's) go"
    and ApplyStatus :: "('w \<times> effect list) Env \<Rightarrow> 'h \<Rightarrow> 's \<Rightarrow> ('w \<times> effect list, goerror option) go"
    and GetSubset :: "'h \<Rightarrow> string"
    and own :: "'h \<Rightarrow> effect \<Rightarrow> bool"
  assumes handle_law: "does (own h) (Handle (traced c) h)"
    and subset_law: "Handle c' h s = (Done (h', err), t) \<Longrightarrow> GetSubset h' = GetSubset h"
    and get_law: "does is_read (GetStatus (traced c) h)"
    and get_frame_law: "keeps (de_is de) (GetStatus (traced c) h)"
    and apply_law: "does is_status (ApplyStatus (traced c) h st)"
begin

text \<open>What the reconciler does with a handler after it was run: read its status and apply it.\<close>

lemma get_then_apply:
  "does (\<lambda>e. is_read e \<or> is_status e)
     (bnd (GetStatus (traced c) h) (\<lambda>r. case r of Inl err \<Rightarrow> f err | Inr st \<Rightarrow>
        bnd (ApplyStatus (traced c) h st) (g st)))"
  if "\<And>err. does (\<lambda>e. is_read e \<or> is_status e) (f err)"
    and "\<And>st err. does (\<lambda>e. is_read e \<or> is_status e) (g st err)"
  by (intro does_intro that does_weaken [OF get_law] does_weaken [OF apply_law]) auto

lemma handle_subset:
  "returns (Handle c' h) s P \<Longrightarrow> returns (Handle c' h) s (\<lambda>(h', err) t. P (h', err) t \<and> GetSubset h' = GetSubset h)"
  by (auto simp: returns_iff dest: subset_law)

end

section \<open>The status manager makes only status requests\<close>

lemma does_StatusUpdate: "does is_status (StatusUpdate (traced c))"
  by (intro does_intro) simp

lemma does_assign [does_intro]: "does A (assignSubsetStatus k v)" "does A (assignConsumerStatus k u)"
  unfolding assignSubsetStatus_def assignConsumerStatus_def by (intro does_intro)+

lemma does_safeGet [does_intro]: "does A (safeGetSubsetsStatus k)" "does A (safeGetConsumersStatus k)"
  unfolding safeGetSubsetsStatus_def safeGetConsumersStatus_def by (intro does_intro)+

lemma does_AddDeploymentStatusEntry: "does is_status (AddDeploymentStatusEntry (traced c) k r tpe)"
  unfolding AddDeploymentStatusEntry_def addSubsetDeploymentStatusEntry_def addConsumerDeploymentStatusEntry_def
  by (intro does_intro does_StatusUpdate) auto

lemma does_AddDestinationRuleStatusEntry: "does is_status (AddDestinationRuleStatusEntry (traced c) k r)"
  unfolding AddDestinationRuleStatusEntry_def by (intro does_intro does_StatusUpdate) auto

lemma does_AddVirtualServiceStatusEntry: "does is_status (AddVirtualServiceStatusEntry (traced c) k r)"
  unfolding AddVirtualServiceStatusEntry_def by (intro does_intro does_StatusUpdate) auto

lemma does_AddGlobalVirtualServiceError: "does is_status (AddGlobalVirtualServiceError (traced c) k msg)"
proof -
  have "does is_status (refresh_errors (traced c) msg errs)" for errs
    by (induction errs) (auto intro!: does_intro does_silent)
  then have "does is_status (SyncGlobalErrors (traced c) msg errs)" for errs
    unfolding SyncGlobalErrors_def by (intro does_intro)
  then show ?thesis
    unfolding AddGlobalVirtualServiceError_def by (intro does_intro does_StatusUpdate) auto
qed

lemma does_ApplyHash: "does is_status (ApplyHash (traced c) k hash tpe)"
  unfolding ApplyHash_def setHashForSubset_def setHashForConsumer_def
  by (intro does_intro does_StatusUpdate) auto

lemmas does_status = does_StatusUpdate does_AddDeploymentStatusEntry does_AddDestinationRuleStatusEntry
  does_AddVirtualServiceStatusEntry does_AddGlobalVirtualServiceError does_ApplyHash

text \<open>A status request that the server answers with the status it was sent.\<close>

definition status_echoes :: "'w Env \<Rightarrow> bool" where
  "status_echoes c \<longleftrightarrow> (\<forall>de w. case UpdateDynamicEnvStatus c de w of ((err, de'), w') \<Rightarrow>
     de_Status de' = de_Status de)"

lemma StatusUpdate_echo:
  "status_echoes c \<Longrightarrow> StatusUpdate c s = (r, t) \<Longrightarrow> status_of t = status_of s \<and> (\<exists>e. r = Done e)"
  unfolding status_echoes_def StatusUpdate_def write_back_def
  by (auto split: prod.splits) (metis (mono_tags, lifting) case_prod_conv)

lemma mem_env_status_echoes [simp]: "status_echoes mem_env"
  by (simp add: status_echoes_def mem_env_def)

end
