(* ===== verification/Deployment_Handler.thy ===== *)
theory Deployment_Handler
  imports Handler Webhook
begin

text \<open>
  The deployment handler, \<^verbatim>\<open>pkg/handlers/deployment_handler.go\<close>, with the extension point of
  \<^verbatim>\<open>extensions/deployment_extensions.go\<close>: it creates the overriding deployment of a subset or
  consumer, updates it when the hash of the subset changes, and reads its status.

  A handler is a record; an operation that changes it returns the new one. The client and the status
  manager that the Go struct holds are the environment and the shared dynamic environment of the model.
  Dereferencing a nil pointer and assigning to a nil map panic.
\<close>

section \<open>The handler\<close>

record DeploymentHandler =
  dh_UniqueName :: string
  dh_UniqueVersion :: string
  dh_SubsetName :: string
  dh_Owner :: NamespacedName
  dh_BaseDeployment :: Deployment
  dh_DeploymentType :: SubsetOrConsumer
  dh_LabelsToRemove :: "string list"
  dh_VersionLabel :: string
  dh_Matches :: "IstioMatch list"
  dh_Updating :: bool
  dh_Subset :: Subset

definition NewDeploymentHandler ::
  "DynamicEnvReconcileData \<Rightarrow> SubsetOrConsumer \<Rightarrow> string list \<Rightarrow> string \<Rightarrow> DeploymentHandler" where
  "NewDeploymentHandler subsetData dt labelsToRemove versionLabel =
     (let uniqueVersion = UniqueDynamicEnvName (rd_Identifier subsetData);
          uniqueName = MkSubsetUniqueName (sub_Name (rd_Subset subsetData)) uniqueVersion
      in \<lparr>dh_UniqueName = uniqueName,
          dh_UniqueVersion = uniqueVersion,
          dh_SubsetName = MKSubsetName (rd_Subset subsetData),
          dh_Owner = rd_Identifier subsetData,
          dh_BaseDeployment = rd_BaseDeployment subsetData,
          dh_DeploymentType = dt,
          dh_LabelsToRemove = labelsToRemove,
          dh_VersionLabel = versionLabel,
          dh_Matches = rd_Matches subsetData,
          dh_Updating = False,
          dh_Subset = rd_Subset subsetData\<rparr>)"

section \<open>Extensions\<close>

record DeploymentExtensionData =
  ext_BaseDeployment :: Deployment
  ext_Matches :: "IstioMatch list"
  ext_Subset :: Subset
  ext_DynamicEnvName :: string

definition ExtendOverridingDeployment ::
  "Deployment \<Rightarrow> DeploymentExtensionData \<Rightarrow> goerror option \<times> Deployment" where
  \<comment> \<open>the error, and the deployment that the reference points to afterwards\<close>
  "ExtendOverridingDeployment deployment data = (None, deployment)"

section \<open>The overriding deployment\<close>

fun findContainerIndex :: "Container list \<Rightarrow> string \<Rightarrow> goerror + nat" where
  "findContainerIndex [] defaultName =
     Inl (ErrorString (''container name '' @ defaultName @ '' does'nt exist''))"
| "findContainerIndex (c # containers) defaultName =
     (if ctr_Name c = defaultName then Inr 0
      else case findContainerIndex containers defaultName of Inl err \<Rightarrow> Inl err | Inr idx \<Rightarrow> Inr (Suc idx))"

definition createContainerTemplate :: "Container list \<Rightarrow> ContainerOverrides \<Rightarrow> goerror + Container \<times> nat" where
  "createContainerTemplate containers containerOverrides =
     (case findContainerIndex containers (co_ContainerName containerOverrides) of
        Inl err \<Rightarrow> Inl err
      | Inr idx \<Rightarrow>
          let container = containers ! idx;
              container = (if co_Image containerOverrides \<noteq> [] then container\<lparr>ctr_Image := co_Image containerOverrides\<rparr>
                           else container);
              container = (if length (co_Command containerOverrides) > 0
                           then container\<lparr>ctr_Command := co_Command containerOverrides\<rparr> else container)
          in Inr (container\<lparr>ctr_Env := MergeEnvVars (ctr_Env container) (co_Env containerOverrides)\<rparr>, idx))"

fun override_containers :: "string \<Rightarrow> Container list \<Rightarrow> ContainerOverrides list \<Rightarrow> goerror + Container list" where
  \<comment> \<open>the two loops over the overrides, which differ in the message\<close>
  "override_containers msg containers [] = Inr containers"
| "override_containers msg containers (c # overrides) =
     (case createContainerTemplate containers c of
        Inl err \<Rightarrow> Inl (Wrap msg err)
      | Inr (container, idx) \<Rightarrow> override_containers msg (containers[idx := container]) overrides)"

definition createOverridingDeployment :: "DeploymentHandler \<Rightarrow> (goerror + Deployment) outcome" where
  "createOverridingDeployment h =
     (let oldMeta = dep_Meta (dh_BaseDeployment h);
          newSpec = dep_Spec (dh_BaseDeployment h)
      in map_outcome2 (\<lambda>ls.
         map_outcome2 (\<lambda>ls.
         let labels = fold gm_delete (dh_LabelsToRemove h) ls
         in case dsp_Selector newSpec of
              None \<Rightarrow> Panic
            | Some sel \<Rightarrow>
         map_outcome2 (\<lambda>matchLabels.
         let replicas = (case sub_Replicas (dh_Subset h) of Some n \<Rightarrow> n | None \<Rightarrow> 1)
         in case dsp_Replicas newSpec of
              None \<Rightarrow> Panic
            | Some _ \<Rightarrow>
         map_outcome2 (\<lambda>tls.
         map_outcome2 (\<lambda>tls.
         let template = dsp_Template newSpec;
             tls = gm_put_all (gm_list (sub_PodLabels (dh_Subset h))) tls
         in case override_containers (''processing containers in subset '' @ sub_Name (dh_Subset h))
                   (pt_Containers template) (sub_Containers (dh_Subset h)) of
              Inl err \<Rightarrow> Done (Inl err)
            | Inr containers \<Rightarrow>
            case override_containers (''processing init-containers in subset '' @ sub_Name (dh_Subset h))
                   (pt_InitContainers template) (sub_InitContainers (dh_Subset h)) of
              Inl err \<Rightarrow> Done (Inl err)
            | Inr initContainers \<Rightarrow>
            let dep = \<lparr>dep_Meta = \<lparr>om_Name = dh_UniqueName h, om_Namespace = sub_Namespace (dh_Subset h),
                                   om_Labels = labels, om_Annotations = None, om_rest = []\<rparr>,
                       dep_Spec = newSpec\<lparr>dsp_Selector := Some (sel\<lparr>sel_MatchLabels := matchLabels\<rparr>),
                                          dsp_Replicas := Some replicas,
                                          dsp_Template := template\<lparr>pt_Labels := tls, pt_Containers := containers,
                                                                   pt_InitContainers := initContainers\<rparr>\<rparr>,
                       dep_Conditions = []\<rparr>;
                depData = \<lparr>ext_BaseDeployment = dh_BaseDeployment h, ext_Matches = dh_Matches h,
                           ext_Subset = dh_Subset h, ext_DynamicEnvName = nn_Name (dh_Owner h)\<rparr>
            in case ExtendOverridingDeployment dep depData of
                 (Some err, _) \<Rightarrow> Done (Inl err)
               | (None, dep) \<Rightarrow>
                   Done (Inr (dep\<lparr>dep_Meta := (dep_Meta dep)\<lparr>om_Annotations :=
                     AddToAnnotation (dh_Owner h) (om_Annotations (dep_Meta dep))\<rparr>\<rparr>)))
           (gm_assign tls DynamicEnvLabel ''true''))
           (gm_assign (pt_Labels (dsp_Template newSpec)) (dh_VersionLabel h) (dh_UniqueVersion h)))
           (gm_assign (sel_MatchLabels sel) (dh_VersionLabel h) (dh_UniqueVersion h)))
           (gm_assign ls DynamicEnvLabel ''true''))
           (gm_assign (om_Labels oldMeta) (dh_VersionLabel h) (dh_UniqueVersion h)))"

section \<open>Operations\<close>

definition dh_status :: "DeploymentHandler \<Rightarrow> LifeCycleStatus \<Rightarrow> ResourceStatus" where
  "dh_status h s = \<lparr>rs_Name = dh_UniqueName h, rs_Namespace = sub_Namespace (dh_Subset h), rs_Status = s\<rparr>"

definition dh_searchName :: "DeploymentHandler \<Rightarrow> NamespacedName" where
  "dh_searchName h = \<lparr>nn_Namespace = sub_Namespace (dh_Subset h), nn_Name = dh_UniqueName h\<rparr>"

definition dh_setStatus :: "'w Env \<Rightarrow> DeploymentHandler \<Rightarrow> LifeCycleStatus \<Rightarrow> ('w, goerror option) go" where
  "dh_setStatus c h status = AddDeploymentStatusEntry c (dh_SubsetName h) (dh_status h status) (dh_DeploymentType h)"

definition UpdateIfRequired :: "'w Env \<Rightarrow> DeploymentHandler \<Rightarrow> ('w, DeploymentHandler \<times> goerror option) go" where
  "UpdateIfRequired c h =
     bnd readDE (\<lambda>de.
     let s = dh_Subset h;
         existingHash = (if dh_DeploymentType h = CONSUMER then GetHashForConsumer de (dh_SubsetName h)
                         else GetHashForSubset de (dh_SubsetName h))
     in case HashStructure c (dh_Subset h) of
          Inl err \<Rightarrow> ret (h, Some (Wrap (''could not calculate hash of subset '' @ [CHR 0x27] @ sub_Namespace s @
                                ''/'' @ sub_Name s @ [CHR 0x27]) err))
        | Inr hash \<Rightarrow>
            if existingHash \<noteq> hash then
              let h = h\<lparr>dh_Updating := True\<rparr>
              in bnd (lift_outcome (createOverridingDeployment h)) (\<lambda>r. case r of
                   Inl err \<Rightarrow> ret (h, Some err)
                 | Inr newDeployment \<Rightarrow>
                     bnd (dh_setStatus c h Updating) (\<lambda>r. case r of
                       Some err \<Rightarrow> ret (h, Some (Wrap (''failed to update status (prior to update deployment: '' @
                                           dh_UniqueName h @ '')'') err))
                     | None \<Rightarrow>
                         bnd (call (UpdateDeployment c newDeployment)) (\<lambda>r. case r of
                           Some err \<Rightarrow> ret (h, Some (Wrap (''error updating subset '' @ dh_UniqueName h) err))
                         | None \<Rightarrow>
                             bnd (ApplyHash c (dh_SubsetName h) hash (dh_DeploymentType h)) (\<lambda>r. case r of
                               Some err \<Rightarrow> ret (h, Some (Wrap (''setting subset hash for '' @ [CHR 0x27] @
                                                   dh_UniqueName h @ [CHR 0x27]) err))
                             | None \<Rightarrow> ret (h, None)))))
            else ret (h, None))"

definition dh_Handle :: "'w Env \<Rightarrow> DeploymentHandler \<Rightarrow> ('w, DeploymentHandler \<times> goerror option) go" where
  "dh_Handle c h =
     bnd (call (GetDeployment c (dh_searchName h))) (\<lambda>r. case r of
       Inl err \<Rightarrow>
         if IsNotFound err then
           bnd (dh_setStatus c h Initializing) (\<lambda>r. case r of
             Some err \<Rightarrow> ret (h, Some (Wrap (''failed to update status (prior to adding deployment: '' @
                                 dh_UniqueName h @ '')'') err))
           | None \<Rightarrow>
               bnd (lift_outcome (createOverridingDeployment h)) (\<lambda>r. case r of
                 Inl err2 \<Rightarrow> ret (h, Some err2)
               | Inr sDeployment \<Rightarrow>
                   bnd (call (CreateDeployment c sDeployment)) (\<lambda>r. case r of
                     Some err2 \<Rightarrow> ret (h, Some err2)
                   | None \<Rightarrow>
                       case HashStructure c (dh_Subset h) of
                         Inl err \<Rightarrow> ret (h, Some (Wrap (''calculating hash for '' @ go_quote (dh_UniqueName h)) err))
                       | Inr hash \<Rightarrow>
                           bnd (ApplyHash c (dh_SubsetName h) hash (dh_DeploymentType h)) (\<lambda>r. case r of
                             Some err \<Rightarrow> ret (h, Some (Wrap (''setting subset hash on deployment creation '' @
                                                 go_quote (dh_UniqueName h)) err))
                           | None \<Rightarrow> ret (h, None)))))
         else ret (h, Some err)
     | Inr _ \<Rightarrow> UpdateIfRequired c h)"

definition DeploymentProgressing :: string where "DeploymentProgressing = ''Progressing''"
definition ConditionTrue :: string where "ConditionTrue = ''True''"

definition DeploymentCondition_zero :: DeploymentCondition where
  "DeploymentCondition_zero = \<lparr>dc_Type = [], dc_Status = [], dc_Reason = [], dc_LastUpdateTime = 0, dc_rest = []\<rparr>"

fun most_recent :: "string \<Rightarrow> DeploymentCondition list \<Rightarrow> bool \<Rightarrow> DeploymentCondition \<Rightarrow> bool \<times> DeploymentCondition" where
  "most_recent typ [] found result = (found, result)"
| "most_recent typ (c # conditions) found result =
     (if dc_Type c = typ then
        if found then
          if dc_LastUpdateTime result < dc_LastUpdateTime c then most_recent typ conditions found c
          else most_recent typ conditions found result
        else most_recent typ conditions True c
      else most_recent typ conditions found result)"

definition getMostRecentConditionForType :: "string \<Rightarrow> DeploymentCondition list \<Rightarrow> bool \<times> DeploymentCondition" where
  "getMostRecentConditionForType typ conditions = most_recent typ conditions False DeploymentCondition_zero"

definition dh_GetStatus :: "'w Env \<Rightarrow> DeploymentHandler \<Rightarrow> ('w, goerror + ResourceStatus) go" where
  "dh_GetStatus c h =
     bnd (call (GetDeployment c (dh_searchName h))) (\<lambda>r. case r of
       Inl err \<Rightarrow>
         if IsNotFound err then ret (Inr (dh_status h Missing))
         else ret (Inl (Wrap ''error searching for deployment'' err))
     | Inr deployment \<Rightarrow>
         let (found, processing) = getMostRecentConditionForType DeploymentProgressing (dep_Conditions deployment)
         in if \<not> found then ret (Inr (dh_status h Unknown))
            else if dc_Status processing = ConditionTrue then
              if dc_Reason processing = ''NewReplicaSetAvailable'' then ret (Inr (dh_status h Running))
              else ret (Inr (dh_status h (if dh_Updating h then Updating else Initializing)))
            else ret (Inr (dh_status h Failed)))"

definition dh_ApplyStatus :: "'w Env \<Rightarrow> DeploymentHandler \<Rightarrow> ResourceStatus \<Rightarrow> ('w, goerror option) go" where
  "dh_ApplyStatus c h rs = AddDeploymentStatusEntry c (dh_SubsetName h) rs (dh_DeploymentType h)"

definition dh_GetSubset :: "DeploymentHandler \<Rightarrow> string" where
  "dh_GetSubset h = dh_SubsetName h"

section \<open>Container overrides\<close>

definition overridden :: "ContainerOverrides \<Rightarrow> Container \<Rightarrow> Container" where
  \<comment> \<open>what an override does to the container it names\<close>
  "overridden ov c = c\<lparr>ctr_Image := (if co_Image ov = [] then ctr_Image c else co_Image ov),
     ctr_Command := (if co_Command ov = [] then ctr_Command c else co_Command ov),
     ctr_Env := MergeEnvVars (ctr_Env c) (co_Env ov)\<rparr>"

definition override_by_name :: "ContainerOverrides list \<Rightarrow> Container \<Rightarrow> Container" where
  "override_by_name ovs c =
     (case find (\<lambda>ov. co_ContainerName ov = ctr_Name c) ovs of None \<Rightarrow> c | Some ov \<Rightarrow> overridden ov c)"

lemma overridden_Name [simp]: "ctr_Name (overridden ov c) = ctr_Name c"
  by (simp add: overridden_def)

lemma findContainerIndex_Inr:
  "findContainerIndex cs n = Inr i \<Longrightarrow> i < length cs \<and> ctr_Name (cs ! i) = n"
  by (induction cs arbitrary: i) (auto split: if_splits sum.splits)

lemma findContainerIndex_Inl:
  "(\<exists>e. findContainerIndex cs n = Inl e) \<longleftrightarrow> n \<notin> ctr_Name ` set cs"
  by (induction cs) (auto split: sum.splits)

lemma createContainerTemplate_eq:
  "createContainerTemplate cs ov = (case findContainerIndex cs (co_ContainerName ov) of
     Inl err \<Rightarrow> Inl err | Inr i \<Rightarrow> Inr (overridden ov (cs ! i), i))"
  by (auto simp: createContainerTemplate_def overridden_def Let_def split: sum.split)

lemma update_by_name:
  assumes "distinct (map ctr_Name cs)" and "i < length cs"
  shows "cs[i := f (cs ! i)] = map (\<lambda>c. if ctr_Name c = ctr_Name (cs ! i) then f c else c) cs"
proof (rule nth_equalityI)
  fix j assume "j < length (cs[i := f (cs ! i)])"
  moreover have "ctr_Name (cs ! j) = ctr_Name (cs ! i) \<longleftrightarrow> j = i" if "j < length cs"
    using assms that nth_eq_iff_index_eq [of "map ctr_Name cs" j i] by simp
  ultimately show "cs[i := f (cs ! i)] ! j
      = map (\<lambda>c. if ctr_Name c = ctr_Name (cs ! i) then f c else c) cs ! j"
    by (auto simp: nth_list_update)
qed simp

lemma names_update: "i < length cs \<Longrightarrow> map ctr_Name (cs[i := overridden ov (cs ! i)]) = map ctr_Name cs"
  by (simp add: map_update) (metis list_update_id nth_map length_map)

lemma override_containers_error:
  "(\<exists>e. override_containers msg cs ovs = Inl e) \<longleftrightarrow> \<not> co_ContainerName ` set ovs \<subseteq> ctr_Name ` set cs"
proof (induction ovs arbitrary: cs)
  case (Cons ov ovs)
  show ?case
  proof (cases "findContainerIndex cs (co_ContainerName ov)")
    case (Inl e)
    with findContainerIndex_Inl [of cs "co_ContainerName ov"] show ?thesis
      by (auto simp: createContainerTemplate_eq)
  next
    case (Inr i)
    from findContainerIndex_Inr [OF this] have i: "i < length cs" "ctr_Name (cs ! i) = co_ContainerName ov"
      by auto
    from names_update [OF i(1), of ov]
    have "ctr_Name ` set (cs[i := overridden ov (cs ! i)]) = ctr_Name ` set cs"
      by (metis list.set_map)
    moreover have "co_ContainerName ov \<in> ctr_Name ` set cs"
      using nth_mem [OF i(1)] i(2) by (metis imageI)
    ultimately show ?thesis using Cons.IH Inr by (simp add: createContainerTemplate_eq)
  qed
qed simp

lemma override_containers_eq:
  "override_containers msg cs ovs = Inr cs' \<Longrightarrow> distinct (map ctr_Name cs) \<Longrightarrow>
   distinct (map co_ContainerName ovs) \<Longrightarrow> cs' = map (override_by_name ovs) cs"
proof (induction ovs arbitrary: cs)
  case Nil
  then show ?case by (simp add: override_by_name_def)
next
  case (Cons ov ovs)
  from Cons.prems(1) obtain i where i: "findContainerIndex cs (co_ContainerName ov) = Inr i"
    and rest: "override_containers msg (cs[i := overridden ov (cs ! i)]) ovs = Inr cs'"
    by (auto simp: createContainerTemplate_eq split: sum.splits)
  note idx = findContainerIndex_Inr [OF i]
  have names: "map ctr_Name (cs[i := overridden ov (cs ! i)]) = map ctr_Name cs"
    using names_update idx by blast
  have "cs' = map (override_by_name ovs) (cs[i := overridden ov (cs ! i)])"
    using Cons.IH [OF rest] Cons.prems(2,3) names by (simp add: map_update)
  also have "cs[i := overridden ov (cs ! i)] =
      map (\<lambda>c. if ctr_Name c = co_ContainerName ov then overridden ov c else c) cs"
    using update_by_name [OF Cons.prems(2), of i "overridden ov"] idx by simp
  also have "map (override_by_name ovs) \<dots> = map (override_by_name (ov # ovs)) cs"
  proof -
    have "find (\<lambda>o'. co_ContainerName o' = co_ContainerName ov) ovs = None"
      using Cons.prems(3) by (auto simp: find_None_iff) (metis imageI)
    then show ?thesis by (auto simp: override_by_name_def split: option.split)
  qed
  finally show ?case .
qed

section \<open>Conditions\<close>

text \<open>The most recent condition of a type; of several with the same time, the first.\<close>

definition latest :: "string \<Rightarrow> DeploymentCondition list \<Rightarrow> DeploymentCondition \<Rightarrow> bool" where
  "latest typ cs c \<longleftrightarrow> (\<exists>before after. cs = before @ c # after \<and> dc_Type c = typ \<and>
     (\<forall>x \<in> set before. dc_Type x = typ \<longrightarrow> dc_LastUpdateTime x < dc_LastUpdateTime c) \<and>
     (\<forall>x \<in> set after. dc_Type x = typ \<longrightarrow> dc_LastUpdateTime x \<le> dc_LastUpdateTime c))"

lemma most_recent_found:
  assumes "dc_Type r = typ"
    and "\<forall>x \<in> set before. dc_Type x = typ \<longrightarrow> dc_LastUpdateTime x < dc_LastUpdateTime r"
    and "\<forall>x \<in> set mid. dc_Type x = typ \<longrightarrow> dc_LastUpdateTime x \<le> dc_LastUpdateTime r"
  shows "\<exists>c. most_recent typ cs True r = (True, c) \<and> latest typ (before @ r # mid @ cs) c"
  using assms
proof (induction cs arbitrary: r before mid)
  case Nil
  then show ?case unfolding latest_def by auto
next
  case (Cons c cs)
  show ?case
  proof (cases "dc_Type c = typ \<and> dc_LastUpdateTime r < dc_LastUpdateTime c")
    case True
    with Cons.prems have "\<forall>x \<in> set (before @ r # mid). dc_Type x = typ \<longrightarrow> dc_LastUpdateTime x < dc_LastUpdateTime c"
      by force
    with Cons.IH [of c "before @ r # mid" "[]"] True show ?thesis by simp
  next
    case False
    with Cons.prems have "\<forall>x \<in> set (mid @ [c]). dc_Type x = typ \<longrightarrow> dc_LastUpdateTime x \<le> dc_LastUpdateTime r"
      by auto
    with Cons.IH [of r before "mid @ [c]"] Cons.prems False show ?thesis by auto
  qed
qed

lemma most_recent_start:
  assumes "\<forall>x \<in> set before. dc_Type x \<noteq> typ"
  shows "most_recent typ cs False z = (False, z) \<and> (\<forall>x \<in> set (before @ cs). dc_Type x \<noteq> typ) \<or>
    (\<exists>c. most_recent typ cs False z = (True, c) \<and> latest typ (before @ cs) c)"
  using assms
proof (induction cs arbitrary: before)
  case (Cons c cs)
  show ?case
  proof (cases "dc_Type c = typ")
    case True
    with most_recent_found [of c "typ" before "[]" cs] Cons.prems show ?thesis by auto
  next
    case False
    with Cons.IH [of "before @ [c]"] Cons.prems show ?thesis by auto
  qed
qed simp

lemma latest_time: "latest typ cs c \<Longrightarrow> x \<in> set cs \<Longrightarrow> dc_Type x = typ \<Longrightarrow> dc_LastUpdateTime x \<le> dc_LastUpdateTime c"
  unfolding latest_def by fastforce

lemma latest_in: "latest typ cs c \<Longrightarrow> c \<in> set cs \<and> dc_Type c = typ"
  unfolding latest_def by auto

lemma append_cons_cases:
  "xs @ x # ys = us @ v # vs \<Longrightarrow> (xs = us \<and> x = v) \<or> x \<in> set us \<or> v \<in> set xs"
proof (induction xs arbitrary: us)
  case (Cons a xs)
  then show ?case by (cases us) auto
qed (auto simp: Cons_eq_append_conv)

lemma latest_unique:
  assumes "latest typ cs c" and "latest typ cs d"
  shows "c = d"
proof -
  obtain us vs where u: "cs = us @ c # vs" "\<forall>x \<in> set us. dc_Type x = typ \<longrightarrow> dc_LastUpdateTime x < dc_LastUpdateTime c"
    using assms(1) unfolding latest_def by auto
  obtain xs ys where x: "cs = xs @ d # ys" "\<forall>x \<in> set xs. dc_Type x = typ \<longrightarrow> dc_LastUpdateTime x < dc_LastUpdateTime d"
    using assms(2) unfolding latest_def by auto
  have "dc_LastUpdateTime c = dc_LastUpdateTime d"
    using latest_time [OF assms(1)] latest_time [OF assms(2)] latest_in [OF assms(1)] latest_in [OF assms(2)]
    by (simp add: order_antisym)
  moreover from u x have "us @ c # vs = xs @ d # ys" by simp
  ultimately show ?thesis
    using append_cons_cases u(2) x(2) latest_in [OF assms(1)] latest_in [OF assms(2)]
    by (metis less_irrefl)
qed

lemma getMostRecent_cases:
  obtains "getMostRecentConditionForType typ cs = (False, DeploymentCondition_zero)" "\<forall>x \<in> set cs. dc_Type x \<noteq> typ"
  | c where "getMostRecentConditionForType typ cs = (True, c)" "latest typ cs c"
  using most_recent_start [of "[]" "typ" cs DeploymentCondition_zero]
  unfolding getMostRecentConditionForType_def by auto

section \<open>The contract of the handler\<close>

definition own_deployment :: "DeploymentHandler \<Rightarrow> effect \<Rightarrow> bool" where
  "own_deployment h e = (case e of
     GotDeployment nn _ \<Rightarrow> nn = dh_searchName h
   | CreatedDeployment d _ \<Rightarrow> meta_key (dep_Meta d) = dh_searchName h \<and>
       om_Annotations (dep_Meta d) = AddToAnnotation (dh_Owner h) None
   | UpdatedDeployment d _ \<Rightarrow> meta_key (dep_Meta d) = dh_searchName h \<and>
       om_Annotations (dep_Meta d) = AddToAnnotation (dh_Owner h) None
   | UpdatedStatus _ _ \<Rightarrow> True
   | _ \<Rightarrow> False)"

lemma is_status_own: "is_status e \<Longrightarrow> own_deployment h e"
  by (cases e) (simp_all add: own_deployment_def)

text \<open>Everything that the overriding deployment is made of, for a base deployment without nil fields.\<close>

lemma createOverridingDeployment_Inr:
  assumes "createOverridingDeployment h = Done (Inr dep)"
  obtains sel containers initContainers where
    "dsp_Selector (dep_Spec (dh_BaseDeployment h)) = Some sel"
    "override_containers (''processing containers in subset '' @ sub_Name (dh_Subset h))
       (pt_Containers (dsp_Template (dep_Spec (dh_BaseDeployment h)))) (sub_Containers (dh_Subset h)) = Inr containers"
    "override_containers (''processing init-containers in subset '' @ sub_Name (dh_Subset h))
       (pt_InitContainers (dsp_Template (dep_Spec (dh_BaseDeployment h)))) (sub_InitContainers (dh_Subset h))
       = Inr initContainers"
    "dep = \<lparr>dep_Meta = \<lparr>om_Name = dh_UniqueName h, om_Namespace = sub_Namespace (dh_Subset h),
        om_Labels = fold gm_delete (dh_LabelsToRemove h) (gm_put DynamicEnvLabel ''true''
          (gm_put (dh_VersionLabel h) (dh_UniqueVersion h) (om_Labels (dep_Meta (dh_BaseDeployment h))))),
        om_Annotations = AddToAnnotation (dh_Owner h) None, om_rest = []\<rparr>,
      dep_Spec = (dep_Spec (dh_BaseDeployment h))\<lparr>
        dsp_Selector := Some (sel\<lparr>sel_MatchLabels := gm_put (dh_VersionLabel h) (dh_UniqueVersion h) (sel_MatchLabels sel)\<rparr>),
        dsp_Replicas := Some (case sub_Replicas (dh_Subset h) of Some n \<Rightarrow> n | None \<Rightarrow> 1),
        dsp_Template := (dsp_Template (dep_Spec (dh_BaseDeployment h)))\<lparr>
          pt_Labels := gm_put_all (gm_list (sub_PodLabels (dh_Subset h))) (gm_put DynamicEnvLabel ''true''
            (gm_put (dh_VersionLabel h) (dh_UniqueVersion h) (pt_Labels (dsp_Template (dep_Spec (dh_BaseDeployment h)))))),
          pt_Containers := containers, pt_InitContainers := initContainers\<rparr>\<rparr>,
      dep_Conditions = []\<rparr>"
  using assms
  unfolding createOverridingDeployment_def Let_def ExtendOverridingDeployment_def
  by (auto simp: outcome_iffs split: option.splits sum.splits)

lemma createOverridingDeployment_key:
  "createOverridingDeployment h = Done (Inr dep) \<Longrightarrow> meta_key (dep_Meta dep) = dh_searchName h \<and>
     om_Annotations (dep_Meta dep) = AddToAnnotation (dh_Owner h) None"
  by (erule createOverridingDeployment_Inr) (simp add: dh_searchName_def)

lemma key_Updating [simp]: "dh_searchName (h\<lparr>dh_Updating := b\<rparr>) = dh_searchName h"
  by (simp add: dh_searchName_def)

lemma does_lift:
  assumes "\<And>x. r = Done x \<Longrightarrow> does A (f x)"
  shows "does A (bnd (lift_outcome r) f)"
  using assms by (cases r) (auto simp: does_def bnd_apply)

lemma UpdateIfRequired_own: "does (own_deployment h) (UpdateIfRequired (traced c) h)"
  unfolding UpdateIfRequired_def dh_setStatus_def Let_def
  by (intro does_intro does_lift does_weaken [OF does_AddDeploymentStatusEntry is_status_own]
      does_weaken [OF does_ApplyHash is_status_own])
    (auto simp: own_deployment_def dest: createOverridingDeployment_key)

lemma dh_status_inject [simp]: "dh_status h a = dh_status h b \<longleftrightarrow> a = b"
  by (simp add: dh_status_def)

lemma dh_Handle_own: "does (own_deployment h) (dh_Handle (traced c) h)"
  unfolding dh_Handle_def dh_setStatus_def
  by (intro does_intro does_lift UpdateIfRequired_own does_weaken [OF does_AddDeploymentStatusEntry is_status_own]
      does_weaken [OF does_ApplyHash is_status_own])
    (auto simp: own_deployment_def dest: createOverridingDeployment_key)

lemma UpdateIfRequired_handler:
  "UpdateIfRequired c h s = (Done (h', err), t) \<Longrightarrow> h' = h \<or> h' = h\<lparr>dh_Updating := True\<rparr>"
  unfolding UpdateIfRequired_def Let_def
  by (auto simp: bnd_apply split: prod.splits outcome.splits sum.splits option.splits if_splits)

lemma dh_Handle_handler:
  "dh_Handle c h s = (Done (h', err), t) \<Longrightarrow> h' = h \<or> h' = h\<lparr>dh_Updating := True\<rparr>"
  unfolding dh_Handle_def
  by (auto simp: bnd_apply dest: UpdateIfRequired_handler
      split: prod.splits outcome.splits sum.splits option.splits if_splits)

interpretation dep_handler: resource_handler dh_Handle dh_GetStatus dh_ApplyStatus dh_GetSubset own_deployment
proof unfold_locales
  fix c :: "'a Env" and h
  show "does (own_deployment h) (dh_Handle (traced c) h)" by (rule dh_Handle_own)
  show "does is_read (dh_GetStatus (traced c) h)"
    unfolding dh_GetStatus_def Let_def by (intro does_intro) simp
  show "keeps (de_is de) (dh_GetStatus (traced c) h)" for de
    unfolding dh_GetStatus_def Let_def by (intro keeps_intro)
  show "does is_status (dh_ApplyStatus (traced c) h st)" for st
    unfolding dh_ApplyStatus_def by (rule does_AddDeploymentStatusEntry)
qed (auto simp: dh_GetSubset_def dest: dh_Handle_handler)

lemma ApplyHash_echo:
  assumes "status_echoes c" and "ApplyHash c k h tpe s = (Done e, t)"
  shows "stored_hash tpe (cur_de t) k = h"
proof (cases tpe)
  case SUBSET
  with assms(2) show ?thesis
    by (auto simp: ApplyHash_def setHashForSubset_apply stored_hash_def GetHashForSubset_alt
        dest!: StatusUpdate_echo [OF assms(1)] split: if_splits)
next
  case CONSUMER
  with assms(2) show ?thesis
    by (auto simp: ApplyHash_def setHashForConsumer_apply stored_hash_def GetHashForConsumer_alt
        dest!: StatusUpdate_echo [OF assms(1)])
qed

section \<open>Properties\<close>

text \<open>The fields of a base deployment that the handler dereferences or assigns into.\<close>

definition base_complete :: "Deployment \<Rightarrow> bool" where
  "base_complete d \<longleftrightarrow> om_Labels (dep_Meta d) \<noteq> None \<and>
     (\<exists>sel. dsp_Selector (dep_Spec d) = Some sel \<and> sel_MatchLabels sel \<noteq> None) \<and>
     dsp_Replicas (dep_Spec d) \<noteq> None \<and> pt_Labels (dsp_Template (dep_Spec d)) \<noteq> None"

definition override_ok :: "Container list \<Rightarrow> ContainerOverrides list \<Rightarrow> bool" where
  "override_ok cs ovs \<longleftrightarrow> co_ContainerName ` set ovs \<subseteq> ctr_Name ` set cs"

lemma override_ok_cases:
  obtains e where "override_containers msg cs ovs = Inl e" "\<not> override_ok cs ovs"
  | cs' where "override_containers msg cs ovs = Inr cs'" "override_ok cs ovs"
  using override_containers_error [of msg cs ovs] unfolding override_ok_def
  by (cases "override_containers msg cs ovs") auto

lemma createOverridingDeployment_incomplete:
  "\<not> base_complete (dh_BaseDeployment h) \<Longrightarrow> createOverridingDeployment h = Panic"
  unfolding base_complete_def createOverridingDeployment_def Let_def
  by (auto simp: gm_assign_def split: option.splits)

lemma createOverridingDeployment_complete:
  assumes "base_complete (dh_BaseDeployment h)"
  shows "\<exists>r. createOverridingDeployment h = Done r \<and> ((\<exists>e. r = Inl e) \<longleftrightarrow>
    \<not> (override_ok (pt_Containers (dsp_Template (dep_Spec (dh_BaseDeployment h)))) (sub_Containers (dh_Subset h)) \<and>
       override_ok (pt_InitContainers (dsp_Template (dep_Spec (dh_BaseDeployment h)))) (sub_InitContainers (dh_Subset h))))"
proof -
  have assign: "gm_assign m k v = Done (gm_put k v m)" if "m \<noteq> None" for m :: "string gomap" and k v
    using that by (auto simp: gm_assign_def)
  obtain sel n where "dsp_Selector (dep_Spec (dh_BaseDeployment h)) = Some sel" "sel_MatchLabels sel \<noteq> None"
    "dsp_Replicas (dep_Spec (dh_BaseDeployment h)) = Some n" "om_Labels (dep_Meta (dh_BaseDeployment h)) \<noteq> None"
    "pt_Labels (dsp_Template (dep_Spec (dh_BaseDeployment h))) \<noteq> None"
    using assms by (auto simp: base_complete_def)
  note base = this
  show ?thesis
    unfolding createOverridingDeployment_def Let_def ExtendOverridingDeployment_def
    by (rule override_ok_cases [of "''processing containers in subset '' @ sub_Name (dh_Subset h)"
          "pt_Containers (dsp_Template (dep_Spec (dh_BaseDeployment h)))" "sub_Containers (dh_Subset h)"];
        rule override_ok_cases [of "''processing init-containers in subset '' @ sub_Name (dh_Subset h)"
          "pt_InitContainers (dsp_Template (dep_Spec (dh_BaseDeployment h)))" "sub_InitContainers (dh_Subset h)"])
      (simp_all add: base assign del: not_None_eq)
qed



definition sample_base :: Deployment where
  "sample_base = \<lparr>
     dep_Meta = \<lparr>om_Name = ''details'', om_Namespace = ''ns'', om_Labels = Some [(''app'', ''details''), (''argo'', ''x'')],
       om_Annotations = None, om_rest = []\<rparr>,
     dep_Spec = \<lparr>dsp_Replicas = Some 3,
       dsp_Selector = Some \<lparr>sel_MatchLabels = Some [(''app'', ''details'')], sel_rest = []\<rparr>,
       dsp_Template = \<lparr>pt_Labels = Some [(''app'', ''details'')],
         pt_Containers = [\<lparr>ctr_Name = ''main'', ctr_Image = ''img:1'', ctr_Command = [], ctr_Env = [], ctr_rest = []\<rparr>,
                          \<lparr>ctr_Name = ''side'', ctr_Image = ''side:1'', ctr_Command = [], ctr_Env = [], ctr_rest = []\<rparr>],
         pt_InitContainers = [], pt_rest = []\<rparr>, dsp_rest = []\<rparr>,
     dep_Conditions = []\<rparr>"

definition sample_override :: Subset where
  "sample_override = \<lparr>sub_Name = ''details'', sub_Namespace = ''ns'', sub_PodLabels = None, sub_Replicas = None,
     sub_Containers = [\<lparr>co_ContainerName = ''main'', co_Image = ''img:2'', co_Command = [], co_Env = []\<rparr>],
     sub_InitContainers = [], sub_DefaultVersion = []\<rparr>"

definition sample_data :: DynamicEnvReconcileData where
  "sample_data = \<lparr>rd_Identifier = \<lparr>nn_Namespace = ''ns'', nn_Name = ''env''\<rparr>, rd_BaseDeployment = sample_base,
     rd_Subset = sample_override, rd_Matches = []\<rparr>"

definition sample_handler :: DeploymentHandler where
  "sample_handler = NewDeploymentHandler sample_data SUBSET [''argo''] ''version''"

lemmas sample_handler_defs = sample_handler_def sample_data_def sample_base_def sample_override_def
  NewDeploymentHandler_def MkSubsetUniqueName_def UniqueDynamicEnvName_def


text \<open>
  C28: the handler touches nothing but its own deployment. Whatever the server answers, and even if the
  run panics, handling a subset requests, creates and updates only the deployment with the handler's
  unique name, with the environment as its recorded owner, never the deployment it is based on, and
  otherwise only writes the status.
\<close>

theorem dh_Handle_touches_own:
  assumes "h = NewDeploymentHandler data dt labelsToRemove versionLabel"
  shows "\<exists>es. log_of (snd (dh_Handle (traced c) h s)) = log_of s @ es \<and> list_all (own_deployment h) es \<and>
    dh_searchName h \<noteq> \<lparr>nn_Namespace = sub_Namespace (rd_Subset data), nn_Name = sub_Name (rd_Subset data)\<rparr>"
proof -
  have "dh_searchName h \<noteq> \<lparr>nn_Namespace = sub_Namespace (rd_Subset data), nn_Name = sub_Name (rd_Subset data)\<rparr>"
    by (simp add: assms dh_searchName_def NewDeploymentHandler_def Let_def MkSubsetUniqueName_def)
  with dep_handler.handle_law [of h c] show ?thesis unfolding does_def by blast
qed

theorem dh_Handle_touches_own_witness:
  "\<exists>es. log_of (snd (dh_Handle (traced mem_env) sample_handler \<lparr>cur_de = sample_env, world = (empty_mem, [])\<rparr>)) = es \<and>
     list_all (own_deployment sample_handler) es"
  using dh_Handle_touches_own [OF sample_handler_def, of mem_env "\<lparr>cur_de = sample_env, world = (empty_mem, [])\<rparr>"]
  by simp

text \<open>
  C27: handling converges. After a run without error, a second run on the same subset that finds the
  deployment makes no change at all: no deployment is written and no status is written.
\<close>

theorem dh_Handle_converges:
  assumes "status_echoes c" and "dh_Handle c h s = (Done (h', None), t)"
    and "GetDeployment c (dh_searchName h) (world t) = (Inr d, w)"
  shows "dh_Handle c h t = (Done (h, None), t\<lparr>world := w\<rparr>)"
proof -
  let ?stored = "HashStructure c (dh_Subset h) =
      Inr (stored_hash (dh_DeploymentType h) (cur_de t) (dh_SubsetName h))"
  have update: ?stored if "UpdateIfRequired c h u = (Done (h', None), t)" for u
    using that unfolding UpdateIfRequired_def Let_def
    by (auto simp: bnd_apply stored_hash_def [symmetric] dest: ApplyHash_echo [OF assms(1)]
        split: prod.splits outcome.splits sum.splits option.splits if_splits)
  have ?stored
    using assms(2) unfolding dh_Handle_def
    by (auto simp: bnd_apply intro: update dest: ApplyHash_echo [OF assms(1)]
        split: prod.splits outcome.splits sum.splits option.splits if_splits)
  then show ?thesis
    using assms(3)
    by (auto simp: dh_Handle_def bnd_apply call_apply UpdateIfRequired_def stored_hash_def Let_def)
qed

definition sample_loop :: "mem loop_state" where
  "sample_loop = \<lparr>cur_de = sample_env, world = empty_mem\<lparr>m_des := [sample_env], m_deps := [sample_base]\<rparr>\<rparr>"

lemma sample_loop_run:
  "fst (dh_Handle mem_env sample_handler sample_loop) = Done (sample_handler, None)"
  "\<not> isl (fst (GetDeployment mem_env (dh_searchName sample_handler)
     (world (snd (dh_Handle mem_env sample_handler sample_loop)))))"
  by code_simp+

theorem dh_Handle_converges_witness:
  "\<exists>w. dh_Handle mem_env sample_handler (snd (dh_Handle mem_env sample_handler sample_loop)) =
     (Done (sample_handler, None), (snd (dh_Handle mem_env sample_handler sample_loop))\<lparr>world := w\<rparr>)"
proof -
  let ?t = "snd (dh_Handle mem_env sample_handler sample_loop)"
  have run: "dh_Handle mem_env sample_handler sample_loop = (Done (sample_handler, None), ?t)"
    using sample_loop_run(1) by (metis prod.collapse)
  obtain d w where "GetDeployment mem_env (dh_searchName sample_handler) (world ?t) = (Inr d, w)"
    using sample_loop_run(2) by (metis prod.collapse sum.collapse(2))
  from dh_Handle_converges [OF mem_env_status_echoes run this] show ?thesis by blast
qed

text \<open>
  C29: what the reported status means. The handler asks for its own deployment once and reports: missing
  when there is none; running exactly when the most recent progress condition is true because a new
  replica set is available; failed when that condition is not true; updating or initializing while it is
  in progress, depending on whether this run changed the deployment; unknown when there is no such
  condition. Only a failing request is an error.
\<close>

theorem dh_GetStatus_decides:
  "returns (dh_GetStatus (traced c) h) s (\<lambda>r t. cur_de t = cur_de s \<and>
     (\<exists>ans. log_of t = log_of s @ [GotDeployment (dh_searchName h) ans] \<and>
       (case ans of
          Inl err \<Rightarrow> r = (if IsNotFound err then Inr (dh_status h Missing)
                        else Inl (Wrap ''error searching for deployment'' err))
        | Inr d \<Rightarrow>
            (\<exists>st. r = Inr (dh_status h st) \<and>
               (st = Unknown \<longleftrightarrow> (\<nexists>x. latest DeploymentProgressing (dep_Conditions d) x)) \<and>
               (st = Running \<longleftrightarrow> (\<exists>x. latest DeploymentProgressing (dep_Conditions d) x \<and>
                  dc_Status x = ConditionTrue \<and> dc_Reason x = ''NewReplicaSetAvailable'')) \<and>
               (st = Failed \<longleftrightarrow> (\<exists>x. latest DeploymentProgressing (dep_Conditions d) x \<and>
                  dc_Status x \<noteq> ConditionTrue)) \<and>
               st \<in> {Unknown, Running, Failed, if dh_Updating h then Updating else Initializing}))))"
proof -
  obtain w es where w: "world s = (w, es)" by fastforce
  obtain ans w' where get: "GetDeployment c (dh_searchName h) w = (ans, w')" by fastforce
  show ?thesis
  proof (cases ans)
    case (Inl err)
    with w get show ?thesis by (simp add: dh_GetStatus_def wp log_call_eq)
  next
    case (Inr d)
    show ?thesis
    proof (cases rule: getMostRecent_cases [of DeploymentProgressing "dep_Conditions d"])
      case 1
      then have "\<nexists>x. latest DeploymentProgressing (dep_Conditions d) x" by (auto dest: latest_in)
      with 1 w get Inr show ?thesis by (simp add: dh_GetStatus_def wp log_call_eq)
    next
      case (2 x)
      have "latest DeploymentProgressing (dep_Conditions d) y \<longleftrightarrow> y = x" for y
        using 2(2) latest_unique by blast
      with 2 w get Inr show ?thesis by (simp add: dh_GetStatus_def wp log_call_eq)
    qed
  qed
qed

end
