(* ===== verification/Destination_Rule_Handler.thy ===== *)
theory Destination_Rule_Handler
  imports Handler
begin

text \<open>
  The destination rule handler, \<^verbatim>\<open>pkg/handlers/destinationrule_handler.go\<close>: for every service host of a
  subset it makes sure that there is a destination rule with the version of the dynamic environment. A
  host without a default rule to start from is remembered as ignored.
\<close>

section \<open>The handler\<close>

record DestinationRuleHandler =
  drh_UniqueName :: string
  drh_UniqueVersion :: string
  drh_Namespace :: string
  drh_SubsetName :: string
  drh_VersionLabel :: string
  drh_DefaultVersion :: string
  drh_ServiceHosts :: "string list"
  drh_Owner :: NamespacedName
  drh_ignoredMissing :: "string list"
  drh_activeHosts :: "string list"

definition NewDestinationRuleHandler ::
  "DynamicEnvReconcileData \<Rightarrow> string \<Rightarrow> string \<Rightarrow> string list \<Rightarrow> DestinationRuleHandler" where
  "NewDestinationRuleHandler subsetData versionLabel defaultVersion serviceHosts =
     (let uniqueVersion = UniqueDynamicEnvName (rd_Identifier subsetData);
          uniqueName = MkSubsetUniqueName (sub_Name (rd_Subset subsetData)) uniqueVersion
      in \<lparr>drh_UniqueName = uniqueName,
          drh_UniqueVersion = uniqueVersion,
          drh_Namespace = sub_Namespace (rd_Subset subsetData),
          drh_SubsetName = MKSubsetName (rd_Subset subsetData),
          drh_VersionLabel = versionLabel,
          drh_DefaultVersion = defaultVersion,
          drh_ServiceHosts = serviceHosts,
          drh_Owner = rd_Identifier subsetData,
          drh_ignoredMissing = [],
          drh_activeHosts = []\<rparr>)"

section \<open>Operations\<close>

definition calculateDRName :: "DestinationRuleHandler \<Rightarrow> string \<Rightarrow> string" where
  "calculateDRName h serviceHost = drh_UniqueName h @ ''-'' @ serviceHost"

definition drh_key :: "DestinationRuleHandler \<Rightarrow> string \<Rightarrow> NamespacedName" where
  "drh_key h serviceHost = \<lparr>nn_Namespace = drh_Namespace h, nn_Name = calculateDRName h serviceHost\<rparr>"

definition drh_setStatus ::
  "'w Env \<Rightarrow> DestinationRuleHandler \<Rightarrow> string \<Rightarrow> string \<Rightarrow> LifeCycleStatus \<Rightarrow> ('w, goerror option) go" where
  "drh_setStatus c h sbst drName status =
     AddDestinationRuleStatusEntry c sbst
       \<lparr>rs_Name = drName, rs_Namespace = drh_Namespace h, rs_Status = status\<rparr>"

definition has_default_version :: "DestinationRuleHandler \<Rightarrow> IstioSubset list \<Rightarrow> bool" where
  \<comment> \<open>the inner loop over the subsets of a rule\<close>
  "has_default_version h subsets =
     list_ex (\<lambda>s. gm_get [] (is_Labels s) (drh_VersionLabel h) = drh_DefaultVersion h) subsets"

fun find_default_rule :: "DestinationRuleHandler \<Rightarrow> string \<Rightarrow> DestinationRule list \<Rightarrow> DestinationRule option" where
  "find_default_rule h hostName [] = None"
| "find_default_rule h hostName (dr # items) =
     (if MatchNamespacedHost hostName (drh_Namespace h) (dr_Host dr) (dr_Namespace dr)
         \<and> has_default_version h (dr_Subsets dr) then Some dr
      else find_default_rule h hostName items)"

definition locateDestinationRuleByHostname ::
  "'w Env \<Rightarrow> DestinationRuleHandler \<Rightarrow> string \<Rightarrow> ('w, goerror + DestinationRule) go" where
  "locateDestinationRuleByHostname c h hostName =
     bnd (call (ListDestinationRules c (drh_Namespace h))) (\<lambda>r. case r of
       Inl err \<Rightarrow> ret (Inl (Wrap ''error listing existing destination rules'' err))
     | Inr items \<Rightarrow>
         (case find_default_rule h hostName items of
            Some dr \<Rightarrow> ret (Inr dr)
          | None \<Rightarrow> ret (Inl IgnoredMissing)))"

definition generateOverridingDestinationRule ::
  "'w Env \<Rightarrow> DestinationRuleHandler \<Rightarrow> string \<Rightarrow> ('w, goerror + DestinationRule) go" where
  "generateOverridingDestinationRule c h serviceHost =
     bnd (locateDestinationRuleByHostname c h serviceHost) (\<lambda>r. case r of
       Inl err \<Rightarrow> ret (Inl (Wrap (''locating default destination rule for '' @ [CHR 0x27] @
                     show_slice (drh_ServiceHosts h) @ [CHR 0x27]) err))
     | Inr originalDestinationRule \<Rightarrow>
         ret (Inr \<lparr>dr_Meta = \<lparr>om_Name = calculateDRName h serviceHost, om_Namespace = drh_Namespace h,
                     om_Labels = Some [(drh_VersionLabel h, drh_UniqueVersion h)], om_Annotations = None, om_rest = []\<rparr>,
                   dr_Host = dr_Host originalDestinationRule,
                   dr_Subsets = [\<lparr>is_Name = drh_UniqueVersion h,
                      is_Labels = Some [(drh_VersionLabel h, drh_UniqueVersion h)], is_rest = []\<rparr>],
                   dr_rest = []\<rparr>))"

definition createMissingDestinationRule ::
  "'w Env \<Rightarrow> DestinationRuleHandler \<Rightarrow> string \<Rightarrow> string \<Rightarrow> ('w, DestinationRuleHandler \<times> goerror option) go" where
  "createMissingDestinationRule c h destinationRuleName serviceHost =
     bnd (drh_setStatus c h (drh_SubsetName h) destinationRuleName Initializing) (\<lambda>r. case r of
       Some err \<Rightarrow> ret (h, Some (Wrap (''failed to update status (prior to launching destination rule: '' @
                           serviceHost @ '')'') err))
     | None \<Rightarrow>
         bnd (generateOverridingDestinationRule c h serviceHost) (\<lambda>r. case r of
           Inl err \<Rightarrow>
             if AsIgnoredMissing err then
               ret (h\<lparr>drh_ignoredMissing := drh_ignoredMissing h @ [serviceHost]\<rparr>, None)
             else ret (h, Some (Wrap (''creating destination rule for '' @ [CHR 0x27] @ serviceHost @ [CHR 0x27]) err))
         | Inr newDestinationRule \<Rightarrow>
             let newDestinationRule = newDestinationRule\<lparr>dr_Meta := (dr_Meta newDestinationRule)\<lparr>om_Annotations :=
                   AddToAnnotation (drh_Owner h) (om_Annotations (dr_Meta newDestinationRule))\<rparr>\<rparr>
             in bnd (call (CreateDestinationRule c newDestinationRule)) (\<lambda>r. case r of
                  Some err \<Rightarrow> ret (h, Some (Wrap (''error deploying new destination rule version='' @
                                 go_quote (drh_UniqueName h) @ '' service-host='' @ go_quote destinationRuleName) err))
                | None \<Rightarrow> ret (h\<lparr>drh_activeHosts := drh_activeHosts h @ [serviceHost]\<rparr>, None))))"

fun handle_hosts ::
  "'w Env \<Rightarrow> DestinationRuleHandler \<Rightarrow> string list \<Rightarrow> ('w, DestinationRuleHandler \<times> goerror option) go" where
  \<comment> \<open>the loop over the service hosts\<close>
  "handle_hosts c h [] = ret (h, None)"
| "handle_hosts c h (serviceHost # hosts) =
     bnd (call (GetDestinationRule c (drh_key h serviceHost))) (\<lambda>r. case r of
       Inl err \<Rightarrow>
         if IsNotFound err then
           bnd (createMissingDestinationRule c h (calculateDRName h serviceHost) serviceHost) (\<lambda>(h, r). case r of
             Some err \<Rightarrow> ret (h, Some (Wrap (''creating destination rule for '' @ [CHR 0x27] @ serviceHost @
                                 [CHR 0x27]) err))
           | None \<Rightarrow> handle_hosts c h hosts)
         else ret (h, Some (Wrap (''error locating existing destination rule by name ('' @ serviceHost @ '')'') err))
     | Inr _ \<Rightarrow> handle_hosts c (h\<lparr>drh_activeHosts := drh_activeHosts h @ [serviceHost]\<rparr>) hosts)"

definition drh_Handle :: "'w Env \<Rightarrow> DestinationRuleHandler \<Rightarrow> ('w, DestinationRuleHandler \<times> goerror option) go" where
  "drh_Handle c h =
     bnd (handle_hosts c h (drh_ServiceHosts h)) (\<lambda>(h, r). case r of
       Some err \<Rightarrow> ret (h, Some err)
     | None \<Rightarrow>
         if length (drh_activeHosts h) = 0 then
           ret (h, Some (ErrorString (''no base destination rules were found for subset: '' @ drh_UniqueName h)))
         else ret (h, None))"

fun status_hosts ::
  "'w Env \<Rightarrow> DestinationRuleHandler \<Rightarrow> string list \<Rightarrow> ResourceStatus list \<Rightarrow> ('w, goerror + ResourceStatus list) go" where
  "status_hosts c h [] statuses = ret (Inr statuses)"
| "status_hosts c h (sh # hosts) statuses =
     (let drName = calculateDRName h sh;
          genStatus = (\<lambda>s. \<lparr>rs_Name = drName, rs_Namespace = drh_Namespace h, rs_Status = s\<rparr>)
      in bnd (call (GetDestinationRule c (drh_key h sh))) (\<lambda>r. case r of
           Inl err \<Rightarrow>
             if IsNotFound err then
               if Contains (drh_ignoredMissing h) sh then status_hosts c h hosts (statuses @ [genStatus IgnoredMissingDR])
               else status_hosts c h hosts (statuses @ [genStatus Missing])
             else ret (Inl (Wrap (''error locating existing destination rule by name ('' @ drName @ '')'') err))
         | Inr _ \<Rightarrow> status_hosts c h hosts (statuses @ [genStatus Running])))"

definition drh_GetStatus :: "'w Env \<Rightarrow> DestinationRuleHandler \<Rightarrow> ('w, goerror + ResourceStatus list) go" where
  "drh_GetStatus c h = status_hosts c h (drh_ServiceHosts h) []"

fun apply_dr_statuses :: "'w Env \<Rightarrow> string \<Rightarrow> ResourceStatus list \<Rightarrow> ('w, goerror option) go" where
  "apply_dr_statuses c sbst [] = ret None"
| "apply_dr_statuses c sbst (rs # statuses) =
     bnd (AddDestinationRuleStatusEntry c sbst rs) (\<lambda>r. case r of
       Some err \<Rightarrow> ret (Some err)
     | None \<Rightarrow> apply_dr_statuses c sbst statuses)"

definition drh_ApplyStatus :: "'w Env \<Rightarrow> DestinationRuleHandler \<Rightarrow> ResourceStatus list \<Rightarrow> ('w, goerror option) go" where
  "drh_ApplyStatus c h statuses = apply_dr_statuses c (drh_SubsetName h) statuses"

definition drh_GetSubset :: "DestinationRuleHandler \<Rightarrow> string" where
  "drh_GetSubset h = drh_SubsetName h"

definition drh_GetHosts :: "DestinationRuleHandler \<Rightarrow> string list" where
  "drh_GetHosts h = drh_activeHosts h"

section \<open>The contract of the handler\<close>

text \<open>
  The rule that the handler may create for a host: named after the subset, the version and the host,
  with the version label and one subset that selects the version, and owned by the dynamic environment.
\<close>

definition own_rule :: "DestinationRuleHandler \<Rightarrow> string \<Rightarrow> DestinationRule \<Rightarrow> bool" where
  "own_rule h host d \<longleftrightarrow> meta_key (dr_Meta d) = drh_key h host \<and>
     om_Labels (dr_Meta d) = Some [(drh_VersionLabel h, drh_UniqueVersion h)] \<and>
     om_Annotations (dr_Meta d) = AddToAnnotation (drh_Owner h) None \<and>
     map is_Name (dr_Subsets d) = [drh_UniqueVersion h] \<and>
     map is_Labels (dr_Subsets d) = [Some [(drh_VersionLabel h, drh_UniqueVersion h)]]"

definition own_destination_rule :: "DestinationRuleHandler \<Rightarrow> effect \<Rightarrow> bool" where
  "own_destination_rule h e = (case e of
     GotDestinationRule nn _ \<Rightarrow> nn \<in> drh_key h ` set (drh_ServiceHosts h)
   | CreatedDestinationRule d _ \<Rightarrow> \<exists>host \<in> set (drh_ServiceHosts h). own_rule h host d
   | UpdatedStatus _ _ \<Rightarrow> True
   | _ \<Rightarrow> False)"

text \<open>Two states of a handler that differ in what it found out about the hosts.\<close>

definition same_handler :: "DestinationRuleHandler \<Rightarrow> DestinationRuleHandler \<Rightarrow> bool" where
  "same_handler h h' \<longleftrightarrow> h\<lparr>drh_ignoredMissing := [], drh_activeHosts := []\<rparr> =
     h'\<lparr>drh_ignoredMissing := [], drh_activeHosts := []\<rparr>"

lemma same_handler_refl [simp]: "same_handler h h"
  by (simp add: same_handler_def)

lemma same_handler_update [simp]:
  "same_handler h (h'\<lparr>drh_activeHosts := xs\<rparr>) = same_handler h h'"
  "same_handler h (h'\<lparr>drh_ignoredMissing := xs\<rparr>) = same_handler h h'"
  by (cases h'; simp add: same_handler_def)+

lemma same_handler_fields:
  assumes "same_handler h h'"
  shows "drh_UniqueName h' = drh_UniqueName h \<and> drh_UniqueVersion h' = drh_UniqueVersion h \<and>
    drh_Namespace h' = drh_Namespace h \<and> drh_SubsetName h' = drh_SubsetName h \<and>
    drh_VersionLabel h' = drh_VersionLabel h \<and> drh_ServiceHosts h' = drh_ServiceHosts h \<and>
    drh_Owner h' = drh_Owner h \<and> drh_DefaultVersion h' = drh_DefaultVersion h"
  using assms by (cases h; cases h') (simp add: same_handler_def)

lemma same_handlerD:
  assumes "same_handler h h'"
  shows "drh_SubsetName h' = drh_SubsetName h" "drh_key h' = drh_key h" "own_rule h' = own_rule h"
    "own_destination_rule h' = own_destination_rule h" "drh_ServiceHosts h' = drh_ServiceHosts h"
    "calculateDRName h' = calculateDRName h"
proof -
  note f = same_handler_fields [OF assms]
  show name: "calculateDRName h' = calculateDRName h"
    by (simp add: fun_eq_iff calculateDRName_def f)
  show key: "drh_key h' = drh_key h"
    by (simp add: fun_eq_iff drh_key_def name f)
  show own: "own_rule h' = own_rule h"
    by (simp add: fun_eq_iff own_rule_def key f)
  show "own_destination_rule h' = own_destination_rule h"
    unfolding own_destination_rule_def key own by (simp add: f)
qed (use same_handler_fields [OF assms] in simp_all)

lemma is_status_own_dr: "is_status e \<Longrightarrow> own_destination_rule h e"
  by (cases e) (simp_all add: own_destination_rule_def)

lemma generate_own:
  "generateOverridingDestinationRule c h host s = (Done (Inr d), t) \<Longrightarrow>
   own_rule h host (d\<lparr>dr_Meta := (dr_Meta d)\<lparr>om_Annotations := AddToAnnotation (drh_Owner h) (om_Annotations (dr_Meta d))\<rparr>\<rparr>)"
  by (auto simp: generateOverridingDestinationRule_def bnd_apply own_rule_def drh_key_def
      split: prod.splits outcome.splits sum.splits)

lemma generate_reads: "does A (generateOverridingDestinationRule (traced c) h host)"
  unfolding generateOverridingDestinationRule_def locateDestinationRuleByHostname_def by (intro does_intro)

lemma create_own:
  assumes "host \<in> set (drh_ServiceHosts h)"
  shows "does (own_destination_rule h) (createMissingDestinationRule (traced c) h (calculateDRName h host) host)"
proof -
  let ?owned = "\<lambda>d. d\<lparr>dr_Meta := (dr_Meta d)\<lparr>om_Annotations := AddToAnnotation (drh_Owner h) (om_Annotations (dr_Meta d))\<rparr>\<rparr>"
  have created: "does (own_destination_rule h) (call (CreateDestinationRule (traced c) (?owned d)))"
    if "own_rule h host (?owned d)" for d
    using that assms by (intro does_intro) (auto simp: own_destination_rule_def)
  show ?thesis
    unfolding createMissingDestinationRule_def drh_setStatus_def Let_def
    apply (rule does_bnd, rule does_weaken [OF does_AddDestinationRuleStatusEntry is_status_own_dr], assumption)
    apply (rule does_option)
     apply (rule does_bnd_yields [where Q = "\<lambda>r. \<forall>d. r = Inr d \<longrightarrow> own_rule h host (?owned d)", OF generate_reads])
      apply (blast dest: generate_own)
     apply (rule does_sum)
      apply (intro does_intro)
     apply (rule does_bnd, blast intro: created)
     apply (intro does_intro)+
    done
qed

lemma create_handler:
  "createMissingDestinationRule c h n host s = (Done (h', err), t) \<Longrightarrow> same_handler h h' \<and>
   (err = None \<longrightarrow> h' = h\<lparr>drh_activeHosts := drh_activeHosts h @ [host]\<rparr> \<or>
      h' = h\<lparr>drh_ignoredMissing := drh_ignoredMissing h @ [host]\<rparr>)"
  unfolding createMissingDestinationRule_def Let_def
  by (auto simp: bnd_apply split: prod.splits outcome.splits sum.splits option.splits if_splits)

lemma same_handler_trans: "same_handler h h' \<Longrightarrow> same_handler h' h'' \<Longrightarrow> same_handler h h''"
  by (simp add: same_handler_def)

lemma handle_hosts_own:
  assumes "set hosts \<subseteq> set (drh_ServiceHosts h)"
  shows "does (own_destination_rule h) (handle_hosts (traced c) h hosts)"
  using assms
proof (induction hosts arbitrary: h)
  case (Cons host hosts)
  have step: "does (own_destination_rule h) (handle_hosts (traced c) h' hosts)" if "same_handler h h'" for h'
    using Cons.IH [of h'] Cons.prems same_handlerD [OF that] by simp
  have "does (own_destination_rule h) (bnd (createMissingDestinationRule (traced c) h (calculateDRName h host) host)
      (\<lambda>(h, r). case r of Some err \<Rightarrow> ret (h, Some (Wrap msg err)) | None \<Rightarrow> handle_hosts (traced c) h hosts))" for msg
    by (rule does_bnd_yields [where Q = "\<lambda>(h', _). same_handler h h'"])
      (use Cons.prems in \<open>auto intro!: create_own does_intro step dest: create_handler\<close>)
  note missing = this
  have get: "does (own_destination_rule h) (call (GetDestinationRule (traced c) (drh_key h host)))"
    using Cons.prems by (intro does_intro) (auto simp: own_destination_rule_def)
  show ?case
    unfolding handle_hosts.simps
    by (rule does_bnd [OF get], rule does_sum)
      (auto intro!: missing step does_intro simp del: traced_sel)
qed (simp add: does_intro)

lemma handle_hosts_same: "handle_hosts c h hosts s = (Done (h', err), t) \<Longrightarrow> same_handler h h'"
proof (induction hosts arbitrary: h s)
  case (Cons host hosts)
  have step: "same_handler h h'" if "same_handler h g" "handle_hosts c g hosts u = (Done (h', err), t)" for g u
    using Cons.IH [OF that(2)] that(1) same_handler_trans by blast
  have found: "same_handler h h'"
    if "handle_hosts c (h\<lparr>drh_activeHosts := drh_activeHosts h @ [host]\<rparr>) hosts u = (Done (h', err), t)" for u
    using step [OF _ that] by simp
  from Cons.prems show ?case
    by (auto simp: bnd_apply dest!: create_handler intro: step dest: found
        split: prod.splits outcome.splits sum.splits option.splits if_splits)
qed simp

lemma status_hosts_reads: "does is_read (status_hosts (traced c) h hosts sts)"
proof (induction hosts arbitrary: sts)
  case (Cons host hosts)
  then show ?case unfolding status_hosts.simps Let_def by (intro does_intro) auto
qed (simp add: does_intro)

lemma status_hosts_frame: "keeps (de_is de) (status_hosts c h hosts sts)"
proof (induction hosts arbitrary: sts)
  case (Cons host hosts)
  then show ?case unfolding status_hosts.simps Let_def by (intro keeps_intro) auto
qed (simp add: keeps_intro)

lemma apply_dr_statuses_status: "does is_status (apply_dr_statuses (traced c) k sts)"
proof (induction sts)
  case (Cons st sts)
  then show ?case unfolding apply_dr_statuses.simps by (intro does_intro does_AddDestinationRuleStatusEntry) auto
qed (simp add: does_intro)

interpretation dr_handler: resource_handler drh_Handle drh_GetStatus drh_ApplyStatus drh_GetSubset own_destination_rule
proof unfold_locales
  fix c :: "'a Env" and h
  show "does (own_destination_rule h) (drh_Handle (traced c) h)"
    unfolding drh_Handle_def by (intro does_intro handle_hosts_own) auto
  show "does is_read (drh_GetStatus (traced c) h)"
    unfolding drh_GetStatus_def by (rule status_hosts_reads)
  show "keeps (de_is de) (drh_GetStatus (traced c) h)" for de
    unfolding drh_GetStatus_def by (rule status_hosts_frame)
  show "does is_status (drh_ApplyStatus (traced c) h st)" for st
    unfolding drh_ApplyStatus_def by (rule apply_dr_statuses_status)
  show "drh_GetSubset h' = drh_GetSubset h" if "drh_Handle c' h s = (Done (h', err), t)"
    for c' :: "('a \<times> effect list) Env" and s h' err t
    using that
    by (auto simp: drh_Handle_def drh_GetSubset_def bnd_apply dest: handle_hosts_same same_handlerD(1)
        split: prod.splits outcome.splits option.splits if_splits)
qed

section \<open>Hosts and statuses\<close>

lemma handle_hosts_shuffle:
  "handle_hosts c h hosts s = (Done (h', None), t) \<Longrightarrow>
   \<exists>active ignored. drh_activeHosts h' = drh_activeHosts h @ active \<and>
     drh_ignoredMissing h' = drh_ignoredMissing h @ ignored \<and> hosts \<in> shuffles active ignored"
proof (induction hosts arbitrary: h s)
  case (Cons host hosts)
  have active: ?case
    if "handle_hosts c (h\<lparr>drh_activeHosts := drh_activeHosts h @ [host]\<rparr>) hosts u = (Done (h', None), t)" for u
    using Cons.IH [OF that] by (fastforce intro: Cons_in_shuffles_leftI)
  have ignored: ?case
    if "handle_hosts c (h\<lparr>drh_ignoredMissing := drh_ignoredMissing h @ [host]\<rparr>) hosts u = (Done (h', None), t)" for u
    using Cons.IH [OF that] by (fastforce intro: Cons_in_shuffles_rightI)
  have "\<exists>u. handle_hosts c (h\<lparr>drh_activeHosts := drh_activeHosts h @ [host]\<rparr>) hosts u = (Done (h', None), t) \<or>
      handle_hosts c (h\<lparr>drh_ignoredMissing := drh_ignoredMissing h @ [host]\<rparr>) hosts u = (Done (h', None), t)"
    using Cons.prems
    by (auto simp: bnd_apply dest!: create_handler split: prod.splits outcome.splits sum.splits option.splits if_splits)
  with active ignored show ?case by blast
qed simp

definition dr_status_for :: "DestinationRuleHandler \<Rightarrow> string \<Rightarrow> goerror + DestinationRule \<Rightarrow> ResourceStatus" where
  \<comment> \<open>the status that an answer of the server stands for\<close>
  "dr_status_for h host ans = \<lparr>rs_Name = drh_UniqueName h @ ''-'' @ host, rs_Namespace = drh_Namespace h,
     rs_Status = (case ans of Inr _ \<Rightarrow> Running
                            | Inl _ \<Rightarrow> if host \<in> set (drh_ignoredMissing h) then IgnoredMissingDR else Missing)\<rparr>"

lemma status_hosts_returns:
  "returns (status_hosts (traced c) h hosts sts) s (\<lambda>r t. cur_de t = cur_de s \<and>
     (\<forall>sts'. r = Inr sts' \<longrightarrow> (\<exists>answers. length answers = length hosts \<and>
        log_of t = log_of s @ map2 (\<lambda>host. GotDestinationRule (drh_key h host)) hosts answers \<and>
        sts' = sts @ map2 (dr_status_for h) hosts answers)))"
proof (induction hosts arbitrary: s sts)
  case (Cons host hosts)
  obtain w es where w: "world s = (w, es)" by fastforce
  obtain ans w' where get: "GetDestinationRule c (drh_key h host) w = (ans, w')" by fastforce
  let ?u = "s\<lparr>world := (w', es @ [GotDestinationRule (drh_key h host) ans])\<rparr>"
  have step: "returns (status_hosts (traced c) h hosts (sts @ [dr_status_for h host ans])) ?u (\<lambda>r t. cur_de t = cur_de s \<and>
     (\<forall>sts'. r = Inr sts' \<longrightarrow> (\<exists>answers. length answers = length (host # hosts) \<and>
        log_of t = log_of s @ map2 (\<lambda>host. GotDestinationRule (drh_key h host)) (host # hosts) answers \<and>
        sts' = sts @ map2 (dr_status_for h) (host # hosts) answers)))"
    apply (rule returns_mono [OF Cons.IH])
    apply (clarsimp simp: w)
    subgoal for t answers by (rule exI [of _ "ans # answers"]) simp
    done
  show ?case
  proof (cases ans)
    case (Inl e)
    with step show ?thesis
      by (auto simp: wp w log_call_eq get Let_def dr_status_for_def [of h host "Inl e"] calculateDRName_def)
  next
    case (Inr d)
    with step show ?thesis
      by (auto simp: wp w log_call_eq get Let_def dr_status_for_def [of h host "Inr d"] calculateDRName_def)
  qed
qed (simp add: wp)

section \<open>Properties\<close>


definition sample_dr_data :: DynamicEnvReconcileData where
  "sample_dr_data = \<lparr>rd_Identifier = \<lparr>nn_Namespace = ''ns'', nn_Name = ''env''\<rparr>, rd_BaseDeployment = undefined,
     rd_Subset = \<lparr>sub_Name = ''details'', sub_Namespace = ''ns'', sub_PodLabels = None, sub_Replicas = None,
       sub_Containers = [], sub_InitContainers = [], sub_DefaultVersion = []\<rparr>, rd_Matches = []\<rparr>"

definition sample_rule :: DestinationRule where
  "sample_rule = \<lparr>dr_Meta = \<lparr>om_Name = ''details-dr'', om_Namespace = ''ns'', om_Labels = None, om_Annotations = None,
       om_rest = []\<rparr>, dr_Host = ''details'', dr_Subsets = [\<lparr>is_Name = ''shared'',
       is_Labels = Some [(''version'', ''shared'')], is_rest = []\<rparr>], dr_rest = []\<rparr>"

definition sample_dr_start :: "mem loop_state" where
  "sample_dr_start = (let de = \<lparr>de_Name = ''env'', de_Namespace = ''ns'', de_Finalizers = [],
       de_DeletionTimestamp = None, de_rest = [],
       de_Spec = \<lparr>spec_IstioMatches = None, spec_Subsets = [], spec_Consumers = []\<rparr>,
       de_Status = \<lparr>st_SubsetsStatus = None, st_ConsumersStatus = None, st_State = [], st_TotalCount = 0,
                    st_TotalReady = 0\<rparr>\<rparr>
     in \<lparr>cur_de = de, world = empty_mem\<lparr>m_des := [de], m_drs := [sample_rule]\<rparr>\<rparr>)"

abbreviation sample_dr_handler :: DestinationRuleHandler where
  "sample_dr_handler \<equiv> NewDestinationRuleHandler sample_dr_data ''version'' ''shared'' [''details'', ''other'']"

lemma sample_dr_run:
  "fst (drh_Handle mem_env sample_dr_handler sample_dr_start) =
     Done (sample_dr_handler\<lparr>drh_activeHosts := [''details''], drh_ignoredMissing := [''other'']\<rparr>, None)"
  by code_simp


text \<open>
  The statuses that are reported. When no request fails, every service host has exactly one status, in
  order, under the name of its rule: running when the rule was found, and otherwise missing, or ignored
  when handling had found no default rule. Nothing is written.
\<close>

theorem drh_GetStatus_reports:
  "returns (drh_GetStatus (traced c) h) s (\<lambda>r t. cur_de t = cur_de s \<and>
     (\<forall>sts. r = Inr sts \<longrightarrow> (\<exists>answers. length answers = length (drh_ServiceHosts h) \<and>
        log_of t = log_of s @ map2 (\<lambda>host. GotDestinationRule (drh_key h host)) (drh_ServiceHosts h) answers \<and>
        sts = map2 (dr_status_for h) (drh_ServiceHosts h) answers)))"
  using status_hosts_returns [of c h "drh_ServiceHosts h" "[]" s] by (simp add: drh_GetStatus_def)

theorem drh_GetStatus_reports_witness:
  "returns (drh_GetStatus (traced mem_env) (sample_dr_handler\<lparr>drh_ignoredMissing := [''other'']\<rparr>))
     \<lparr>cur_de = cur_de sample_dr_start, world = (world sample_dr_start, [])\<rparr>
     (\<lambda>r t. cur_de t = cur_de sample_dr_start \<and> map_sum id (map rs_Status) r = Inr [Missing, IgnoredMissingDR])"
proof -
  have eval: "returns (drh_GetStatus (traced mem_env) (sample_dr_handler\<lparr>drh_ignoredMissing := [''other'']\<rparr>))
     \<lparr>cur_de = cur_de sample_dr_start, world = (world sample_dr_start, [])\<rparr>
     (\<lambda>r t. map_sum id (map rs_Status) r = Inr [Missing, IgnoredMissingDR])"
    by (simp add: drh_GetStatus_def wp NewDestinationRuleHandler_def Let_def log_call_eq mem_defs
        sample_dr_start_def sample_rule_def drh_key_def calculateDRName_def sample_dr_data_def
        MkSubsetUniqueName_def UniqueDynamicEnvName_def IsNotFound_def)
  show ?thesis
    by (rule returns_mono [OF returns_conj [OF drh_GetStatus_reports eval]]) simp
qed

end
