(* ===== verification/Virtual_Service_Handler.thy ===== *)
theory Virtual_Service_Handler
  imports Handler
begin

text \<open>
  The virtual service handler, \<^verbatim>\<open>pkg/handlers/virtualservice_handler.go\<close>: it finds the virtual services
  that route to the hosts of a subset, directly or through delegates, and adds routes to the version of
  the dynamic environment in front of the routes to the default version.

  The sources collect pointers to virtual services, and one service may be collected several times: an
  update through one pointer is seen through the others. The model has a heap of virtual services for one
  service host, a list that holds the listed services first and the fetched ones after them; a pointer is
  an index into it. A nil \<open>Destination\<close> panics when a field of it is read.
\<close>

section \<open>The handler\<close>

record VirtualServiceHandler =
  vsh_Identifier :: NamespacedName
  vsh_UniqueName :: string
  vsh_UniqueVersion :: string
  vsh_Namespace :: string
  vsh_SubsetName :: string
  vsh_RoutePrefix :: string
  vsh_ServiceHosts :: "string list"
  vsh_DefaultVersion :: string
  vsh_Matches :: "IstioMatch list"
  vsh_activeHosts :: "string list"
  vsh_virtualServices :: "NamespacedName list gomap"

definition NewVirtualServiceHandler ::
  "DynamicEnvReconcileData \<Rightarrow> string list \<Rightarrow> string \<Rightarrow> VirtualServiceHandler" where
  "NewVirtualServiceHandler subsetData serviceHosts defaultVersion =
     (let uniqueVersion = UniqueDynamicEnvName (rd_Identifier subsetData);
          uniqueName = MkSubsetUniqueName (sub_Name (rd_Subset subsetData)) uniqueVersion
      in \<lparr>vsh_Identifier = rd_Identifier subsetData,
          vsh_UniqueName = uniqueName,
          vsh_UniqueVersion = uniqueVersion,
          vsh_Namespace = sub_Namespace (rd_Subset subsetData),
          vsh_SubsetName = MKSubsetName (rd_Subset subsetData),
          vsh_RoutePrefix = CalculateVirtualServicePrefix uniqueVersion (sub_Name (rd_Subset subsetData)),
          vsh_ServiceHosts = serviceHosts,
          vsh_DefaultVersion = defaultVersion,
          vsh_Matches = rd_Matches subsetData,
          vsh_activeHosts = [],
          vsh_virtualServices = None\<rparr>)"

section \<open>Routes\<close>

fun routesConfiguredWithDynamicEnvRoutes :: "HTTPRoute list \<Rightarrow> string \<Rightarrow> bool" where
  "routesConfiguredWithDynamicEnvRoutes [] pfx = False"
| "routesConfiguredWithDynamicEnvRoutes (r # routes) pfx =
     (if HasPrefix (hr_Name r) pfx then True else routesConfiguredWithDynamicEnvRoutes routes pfx)"

definition default_destination :: "VirtualServiceHandler \<Rightarrow> string \<Rightarrow> string \<Rightarrow> Destination \<Rightarrow> bool" where
  \<comment> \<open>the condition that both loops over route destinations check\<close>
  "default_destination h serviceHost inNamespace dest \<longleftrightarrow>
     MatchNamespacedHost serviceHost (vsh_Namespace h) (dst_Host dest) inNamespace
     \<and> dst_Subset dest = vsh_DefaultVersion h"

fun routeDestinationsMatchesServiceHost ::
  "VirtualServiceHandler \<Rightarrow> string \<Rightarrow> HTTPRouteDestination list \<Rightarrow> string \<Rightarrow> bool outcome" where
  "routeDestinationsMatchesServiceHost h serviceHost [] inNamespace = Done False"
| "routeDestinationsMatchesServiceHost h serviceHost (route # routes) inNamespace =
     (case rd_Destination route of
        None \<Rightarrow> Panic
      | Some dest \<Rightarrow>
          if default_destination h serviceHost inNamespace dest then Done True
          else routeDestinationsMatchesServiceHost h serviceHost routes inNamespace)"

fun filterRouteDestinationByHost ::
  "VirtualServiceHandler \<Rightarrow> HTTPRouteDestination list \<Rightarrow> string \<Rightarrow> string \<Rightarrow> HTTPRouteDestination list outcome" where
  "filterRouteDestinationByHost h [] serviceHost inNamespace = Done []"
| "filterRouteDestinationByHost h (d # destinations) serviceHost inNamespace =
     (case rd_Destination d of
        None \<Rightarrow> Panic
      | Some dest \<Rightarrow>
          map_outcome2 (\<lambda>newDestinations.
            Done (if default_destination h serviceHost inNamespace dest then d # newDestinations
                  else newDestinations))
          (filterRouteDestinationByHost h destinations serviceHost inNamespace))"

definition safeApplyResponseHeaders :: "Headers \<Rightarrow> string \<Rightarrow> string \<Rightarrow> Headers" where
  "safeApplyResponseHeaders headers key val =
     (let response = (case hd_Response headers of None \<Rightarrow> \<lparr>ho_Add = None, ho_rest = []\<rparr> | Some r \<Rightarrow> r);
          currentResponseSet = (case ho_Add response of None \<Rightarrow> gm_make | Some _ \<Rightarrow> ho_Add response)
      in headers\<lparr>hd_Response := Some (response\<lparr>ho_Add := gm_put key val currentResponseSet\<rparr>)\<rparr>)"

definition redirect :: "VirtualServiceHandler \<Rightarrow> HTTPRouteDestination \<Rightarrow> HTTPRouteDestination" where
  \<comment> \<open>the body of the loop over the new route destinations\<close>
  "redirect h rd =
     rd\<lparr>rd_Destination := map_option (\<lambda>dest. dest\<lparr>dst_Subset := vsh_UniqueVersion h\<rparr>) (rd_Destination rd),
        rd_Weight := 0,
        rd_Headers := Some (safeApplyResponseHeaders
          (case rd_Headers rd of None \<Rightarrow> \<lparr>hd_Response = None, hd_rest = []\<rparr> | Some hs \<Rightarrow> hs)
          ''x-dynamic-env'' (vsh_UniqueName h))\<rparr>"

definition toIstioStringMatch :: "StringMatch \<Rightarrow> IstioStringMatch" where
  "toIstioStringMatch v =
     (if sm_Exact v \<noteq> [] then ExactMatch (sm_Exact v)
      else if sm_Prefix v \<noteq> [] then PrefixMatch (sm_Prefix v)
      else RegexMatch (sm_Regex v))"

definition restrict_match :: "IstioMatch \<Rightarrow> HTTPMatchRequest \<Rightarrow> HTTPMatchRequest" where
  \<comment> \<open>the body of the loop over the matches of the route\<close>
  "restrict_match mtch m =
     (let headers = (if gm_len (im_Headers mtch) > 0 \<and> mr_Headers m = None then gm_make else mr_Headers m);
          sourceLabels = (if gm_len (im_SourceLabels mtch) > 0 \<and> mr_SourceLabels m = None then gm_make
                          else mr_SourceLabels m)
      in m\<lparr>mr_Headers := gm_put_all (map (\<lambda>(k, v). (k, toIstioStringMatch v)) (gm_list (im_Headers mtch))) headers,
           mr_SourceLabels := gm_put_all (gm_list (im_SourceLabels mtch)) sourceLabels\<rparr>)"

definition HTTPMatchRequest_zero :: HTTPMatchRequest where
  "HTTPMatchRequest_zero = \<lparr>mr_Headers = None, mr_SourceLabels = None, mr_rest = []\<rparr>"

definition populateRouteWithSubsetData ::
  "'w Env \<Rightarrow> VirtualServiceHandler \<Rightarrow> HTTPRoute \<Rightarrow> string \<Rightarrow> IstioMatch \<Rightarrow> string \<Rightarrow> (goerror + HTTPRoute) outcome" where
  "populateRouteWithSubsetData c h route serviceHost mtch inNamespace =
     map_outcome2 (\<lambda>newRouteDestinations.
       if length newRouteDestinations = 0 then Done (Inl IgnoredMissing)
       else
         let route = route\<lparr>hr_Route := map (redirect h) newRouteDestinations\<rparr>;
             route = (if length (hr_Match route) = 0 then route\<lparr>hr_Match := [HTTPMatchRequest_zero]\<rparr> else route);
             route = route\<lparr>hr_Match := map (restrict_match mtch) (hr_Match route)\<rparr>;
             newRuleHash = AsSha256 (RouteText c route)
         in Done (Inr (route\<lparr>hr_Name := vsh_RoutePrefix h @ ''-'' @ Shorten newRuleHash 10\<rparr>)))
     (filterRouteDestinationByHost h (hr_Route route) serviceHost inNamespace)"

fun subset_routes ::
  "'w Env \<Rightarrow> VirtualServiceHandler \<Rightarrow> string \<Rightarrow> string \<Rightarrow> HTTPRoute \<Rightarrow> IstioMatch list \<Rightarrow> (goerror + HTTPRoute list) outcome" where
  \<comment> \<open>the loop over the matches of the dynamic environment\<close>
  "subset_routes c h serviceHost inNamespace r [] = Done (Inr [])"
| "subset_routes c h serviceHost inNamespace r (mtch # matches) =
     map_outcome2 (\<lambda>res. case res of
         Inl err \<Rightarrow> Done (Inl err)
       | Inr ourSubsetRoute \<Rightarrow>
           map_outcome2 (\<lambda>res. case res of
               Inl err \<Rightarrow> Done (Inl err)
             | Inr ours \<Rightarrow> Done (Inr (ourSubsetRoute # ours)))
           (subset_routes c h serviceHost inNamespace r matches))
     (populateRouteWithSubsetData c h r serviceHost mtch inNamespace)"

fun new_routes ::
  "'w Env \<Rightarrow> VirtualServiceHandler \<Rightarrow> string \<Rightarrow> string \<Rightarrow> HTTPRoute list \<Rightarrow> (goerror + HTTPRoute list) outcome" where
  \<comment> \<open>the loop over the routes of the service\<close>
  "new_routes c h serviceHost inNamespace [] = Done (Inr [])"
| "new_routes c h serviceHost inNamespace (r # routes) =
     (if HasPrefix (hr_Name r) (vsh_RoutePrefix h) then new_routes c h serviceHost inNamespace routes
      else
        map_outcome2 (\<lambda>matches.
        map_outcome2 (\<lambda>res. case res of
            Inl err \<Rightarrow> Done (Inl err)
          | Inr ours \<Rightarrow>
              map_outcome2 (\<lambda>res. case res of
                  Inl err \<Rightarrow> Done (Inl err)
                | Inr newRoutes \<Rightarrow> Done (Inr (ours @ r # newRoutes)))
              (new_routes c h serviceHost inNamespace routes))
        (if matches then subset_routes c h serviceHost inNamespace r (vsh_Matches h) else Done (Inr [])))
        (routeDestinationsMatchesServiceHost h serviceHost (hr_Route r) inNamespace))"

section \<open>Updating a virtual service\<close>

type_synonym vs_heap = "VirtualService list"

definition updateVirtualService ::
  "'w Env \<Rightarrow> VirtualServiceHandler \<Rightarrow> vs_heap \<Rightarrow> nat \<Rightarrow> string \<Rightarrow> ('w, vs_heap \<times> goerror option) go" where
  "updateVirtualService c h heap p serviceHost =
     (let service = heap ! p
      in if routesConfiguredWithDynamicEnvRoutes (vs_Http service) (vsh_RoutePrefix h) then ret (heap, None)
         else
           let newStatus = \<lparr>rs_Name = vs_Name service, rs_Namespace = vs_Namespace service, rs_Status = []\<rparr>
           in bnd (AddVirtualServiceStatusEntry c (vsh_SubsetName h) newStatus) (\<lambda>r. case r of
                Some err \<Rightarrow> ret (heap, Some err)
              | None \<Rightarrow>
                  bnd (lift_outcome (new_routes c h serviceHost (vs_Namespace service) (vs_Http service))) (\<lambda>r. case r of
                    Inl err \<Rightarrow> ret (heap, Some err)
                  | Inr newRoutes \<Rightarrow>
                      let service = service\<lparr>vs_Http := newRoutes\<rparr>;
                          service = service\<lparr>vs_Meta := (vs_Meta service)\<lparr>om_Annotations :=
                            AddToAnnotation (vsh_Identifier h) (om_Annotations (vs_Meta service))\<rparr>\<rparr>
                      in bnd (call (UpdateVirtualService c service)) (\<lambda>(r, service).
                           ret (heap[p := service], r)))))"

section \<open>Finding the virtual services\<close>

fun resolveVirtualServices ::
  "VirtualServiceHandler \<Rightarrow> string \<Rightarrow> string \<Rightarrow> HTTPRoute list \<Rightarrow> (bool \<times> Delegate list) outcome" where
  \<comment> \<open>the loop over the routes of a service in the namespace \<open>inNamespace\<close>\<close>
  "resolveVirtualServices h serviceHost inNamespace [] = Done (False, [])"
| "resolveVirtualServices h serviceHost inNamespace (r # routes) =
     map_outcome2 (\<lambda>matches.
       map_outcome2 (\<lambda>(useSelf, delegated).
         Done (matches \<or> useSelf, (case hr_Delegate r of None \<Rightarrow> delegated | Some d \<Rightarrow> d # delegated)))
       (resolveVirtualServices h serviceHost inNamespace routes))
     (routeDestinationsMatchesServiceHost h serviceHost (hr_Route r) inNamespace)"

fun find_service :: "Delegate \<Rightarrow> VirtualService list \<Rightarrow> nat \<Rightarrow> nat option" where
  "find_service delegate [] idx = None"
| "find_service delegate (s # items) idx =
     (if dg_Name delegate = vs_Name s \<and> dg_Namespace delegate = vs_Namespace s then Some idx
      else find_service delegate items (Suc idx))"

definition extractServiceFromDelegate ::
  "'w Env \<Rightarrow> VirtualServiceHandler \<Rightarrow> Delegate \<Rightarrow> VirtualService list \<Rightarrow> vs_heap \<Rightarrow> ('w, vs_heap \<times> (goerror + nat option)) go" where
  "extractServiceFromDelegate c h delegate items heap =
     (case find_service delegate items 0 of
        Some p \<Rightarrow> ret (heap, Inr (Some p))
      | None \<Rightarrow>
          let msg = ''Wierd, Couldn't find a service with name: '' @ dg_Name delegate @ '', namespace: '' @
                dg_Namespace delegate @ '', in the service list''
          in bnd (AddGlobalVirtualServiceError c (vsh_SubsetName h) msg) (\<lambda>_.
             bnd (call (GetVirtualService c \<lparr>nn_Namespace = dg_Namespace delegate, nn_Name = dg_Name delegate\<rparr>)) (\<lambda>r. case r of
               Inl err \<Rightarrow>
                 if IsNotFound err then
                   let msg = ''Delegate ('' @ dg_Namespace delegate @ ''/'' @ dg_Name delegate @ '') not found''
                   in bnd (AddGlobalVirtualServiceError c (vsh_SubsetName h) msg) (\<lambda>r. case r of
                        Some err \<Rightarrow>
                          if \<not> IsConflict (Some err)
                          then ret (heap, Inl (Wrap ''failed to write global virtual service error'' err))
                          else ret (heap, Inr None)
                      | None \<Rightarrow> ret (heap, Inr None))
                 else ret (heap, Inl (Wrap (''error while loading delegate '' @ [CHR 0x27] @ dg_Namespace delegate @ ''/'' @
                                       dg_Name delegate @ [CHR 0x27]) err))
             | Inr s \<Rightarrow> ret (heap @ [s], Inr (Some (length heap))))))"

fun locate_delegates ::
  "'w Env \<Rightarrow> VirtualServiceHandler \<Rightarrow> VirtualService list \<Rightarrow> Delegate list \<Rightarrow> nat list \<Rightarrow> vs_heap
   \<Rightarrow> ('w, vs_heap \<times> (goerror + nat list)) go" where
  "locate_delegates c h items [] result heap = ret (heap, Inr result)"
| "locate_delegates c h items (d # delegated) result heap =
     bnd (extractServiceFromDelegate c h d items heap) (\<lambda>(heap, r). case r of
       Inl err \<Rightarrow> ret (heap, Inl err)
     | Inr None \<Rightarrow> locate_delegates c h items delegated result heap
     | Inr (Some found) \<Rightarrow> locate_delegates c h items delegated (result @ [found]) heap)"

fun locate_hosts ::
  "'w Env \<Rightarrow> VirtualServiceHandler \<Rightarrow> string \<Rightarrow> VirtualService list \<Rightarrow> nat \<Rightarrow> VirtualService \<Rightarrow> string list \<Rightarrow> nat list
   \<Rightarrow> vs_heap \<Rightarrow> ('w, vs_heap \<times> (goerror + nat list)) go" where
  \<comment> \<open>the loop over the hosts of the service with the index \<open>idx\<close>\<close>
  "locate_hosts c h serviceHost items idx service [] result heap = ret (heap, Inr result)"
| "locate_hosts c h serviceHost items idx service (host # hosts) result heap =
     (if MatchNamespacedHost serviceHost (vsh_Namespace h) host (vs_Namespace service) then
        bnd (lift_outcome (resolveVirtualServices h serviceHost (vs_Namespace service) (vs_Http service))) (\<lambda>(useSelf, delegated).
        bnd (locate_delegates c h items delegated (if useSelf then result @ [idx] else result) heap) (\<lambda>(heap, r). case r of
          Inl err \<Rightarrow> ret (heap, Inl err)
        | Inr result \<Rightarrow> locate_hosts c h serviceHost items idx service hosts result heap))
      else locate_hosts c h serviceHost items idx service hosts result heap)"

fun locate_items ::
  "'w Env \<Rightarrow> VirtualServiceHandler \<Rightarrow> string \<Rightarrow> VirtualService list \<Rightarrow> nat \<Rightarrow> VirtualService list \<Rightarrow> nat list \<Rightarrow> vs_heap
   \<Rightarrow> ('w, vs_heap \<times> (goerror + nat list)) go" where
  "locate_items c h serviceHost items idx [] result heap = ret (heap, Inr result)"
| "locate_items c h serviceHost items idx (service # rest) result heap =
     bnd (locate_hosts c h serviceHost items idx service (vs_Hosts service) result heap) (\<lambda>(heap, r). case r of
       Inl err \<Rightarrow> ret (heap, Inl err)
     | Inr result \<Rightarrow> locate_items c h serviceHost items (Suc idx) rest result heap)"

definition locateVirtualServicesByServiceHost ::
  "'w Env \<Rightarrow> VirtualServiceHandler \<Rightarrow> string \<Rightarrow> ('w, vs_heap \<times> (goerror + nat list)) go" where
  "locateVirtualServicesByServiceHost c h serviceHost =
     bnd (call (ListVirtualServices c)) (\<lambda>r. case r of
       Inl err \<Rightarrow> ret ([], Inl (Wrap (''error locating virtual services for app host '' @ [CHR 0x27] @
                     show_slice (vsh_ServiceHosts h) @ [CHR 0x27]) err))
     | Inr items \<Rightarrow> locate_items c h serviceHost items 0 items [] items)"

definition toNamespacedName :: "vs_heap \<Rightarrow> nat list \<Rightarrow> NamespacedName list" where
  "toNamespacedName heap services = map (\<lambda>p. meta_key (vs_Meta (heap ! p))) services"

section \<open>Operations\<close>

definition vsh_GetSubset :: "VirtualServiceHandler \<Rightarrow> string" where
  "vsh_GetSubset h = vsh_SubsetName h"

definition vsh_GetHosts :: "VirtualServiceHandler \<Rightarrow> string list" where
  "vsh_GetHosts h = vsh_activeHosts h"

fun update_services ::
  "'w Env \<Rightarrow> VirtualServiceHandler \<Rightarrow> string \<Rightarrow> vs_heap \<Rightarrow> nat list \<Rightarrow> bool \<Rightarrow> ('w, bool) go" where
  \<comment> \<open>the loop over the services of a host; the result says whether one of them exists\<close>
  "update_services c h serviceHost heap [] exists = ret exists"
| "update_services c h serviceHost heap (service # services) exists =
     bnd (updateVirtualService c h heap service serviceHost) (\<lambda>(heap, r). case r of
       Some err \<Rightarrow> update_services c h serviceHost heap services exists
     | None \<Rightarrow> update_services c h serviceHost heap services True)"

fun handle_service_hosts ::
  "'w Env \<Rightarrow> VirtualServiceHandler \<Rightarrow> string list \<Rightarrow> ('w, VirtualServiceHandler \<times> goerror option) go" where
  "handle_service_hosts c h [] = ret (h, None)"
| "handle_service_hosts c h (serviceHost # hosts) =
     bnd (locateVirtualServicesByServiceHost c h serviceHost) (\<lambda>(heap, r). case r of
       Inl err \<Rightarrow> ret (h, Some err)
     | Inr services \<Rightarrow>
         let h = h\<lparr>vsh_virtualServices :=
               gm_put serviceHost (toNamespacedName heap services) (vsh_virtualServices h)\<rparr>
         in bnd (update_services c h serviceHost heap services False) (\<lambda>exists.
            handle_service_hosts c
              (if exists then h\<lparr>vsh_activeHosts := vsh_activeHosts h @ [serviceHost]\<rparr> else h) hosts))"

definition vsh_Handle :: "'w Env \<Rightarrow> VirtualServiceHandler \<Rightarrow> ('w, VirtualServiceHandler \<times> goerror option) go" where
  "vsh_Handle c h =
     bnd (handle_service_hosts c (h\<lparr>vsh_virtualServices := gm_make\<rparr>) (vsh_ServiceHosts h)) (\<lambda>(h, r). case r of
       Some err \<Rightarrow> ret (h, Some err)
     | None \<Rightarrow>
         if length (vsh_activeHosts h) = 0 then
           ret (h, Some (ErrorString (''could not find even one virtual service that handles subset '' @
                    go_quote (vsh_GetSubset h))))
         else ret (h, None))"

definition getStatusForService :: "VirtualServiceHandler \<Rightarrow> VirtualService \<Rightarrow> ResourceStatus" where
  "getStatusForService h vs =
     \<lparr>rs_Name = vs_Name vs, rs_Namespace = vs_Namespace vs,
      rs_Status = (if routesConfiguredWithDynamicEnvRoutes (vs_Http vs) (vsh_RoutePrefix h) then Running
                   else IgnoredMissingVS)\<rparr>"

fun fetch_services ::
  "'w Env \<Rightarrow> NamespacedName list \<Rightarrow> VirtualService list \<Rightarrow> ('w, goerror + VirtualService list) go" where
  "fetch_services c [] services = ret (Inr services)"
| "fetch_services c (nn # nns) services =
     bnd (call (GetVirtualService c nn)) (\<lambda>r. case r of
       Inl err \<Rightarrow> ret (Inl (Wrap ''fetching virtual service for status'' err))
     | Inr found \<Rightarrow> fetch_services c nns (services @ [found]))"

definition vsh_GetStatus :: "'w Env \<Rightarrow> VirtualServiceHandler \<Rightarrow> ('w, goerror + ResourceStatus list) go" where
  "vsh_GetStatus c h =
     bnd (fetch_services c (concat (map (\<lambda>serviceHost. case gm_lookup (vsh_virtualServices h) serviceHost of
            Some s \<Rightarrow> s | None \<Rightarrow> []) (vsh_ServiceHosts h))) []) (\<lambda>r. case r of
       Inl err \<Rightarrow> ret (Inl err)
     | Inr services \<Rightarrow> ret (Inr (map (getStatusForService h) services)))"

fun apply_vs_statuses :: "'w Env \<Rightarrow> string \<Rightarrow> ResourceStatus list \<Rightarrow> ('w, goerror option) go" where
  "apply_vs_statuses c sbst [] = ret None"
| "apply_vs_statuses c sbst (rs # statuses) =
     bnd (AddVirtualServiceStatusEntry c sbst rs) (\<lambda>r. case r of
       Some err \<Rightarrow> ret (Some err)
     | None \<Rightarrow> apply_vs_statuses c sbst statuses)"

definition vsh_ApplyStatus :: "'w Env \<Rightarrow> VirtualServiceHandler \<Rightarrow> ResourceStatus list \<Rightarrow> ('w, goerror option) go" where
  "vsh_ApplyStatus c h statuses = apply_vs_statuses c (vsh_SubsetName h) statuses"

section \<open>Reference definitions for the routes\<close>

text \<open>
  What the loops compute when no destination is nil: the routes of the dynamic environment for one route,
  one per match, and the list with those routes in front of the routes they are made from.
\<close>

definition is_default :: "VirtualServiceHandler \<Rightarrow> string \<Rightarrow> string \<Rightarrow> HTTPRouteDestination \<Rightarrow> bool" where
  "is_default h serviceHost inNamespace d \<longleftrightarrow>
     (case rd_Destination d of None \<Rightarrow> False | Some dest \<Rightarrow> default_destination h serviceHost inNamespace dest)"

definition dests_ok :: "HTTPRoute list \<Rightarrow> bool" where
  "dests_ok routes \<longleftrightarrow> (\<forall>r \<in> set routes. \<forall>d \<in> set (hr_Route r). rd_Destination d \<noteq> None)"

definition env_route_body :: "VirtualServiceHandler \<Rightarrow> string \<Rightarrow> string \<Rightarrow> HTTPRoute \<Rightarrow> IstioMatch \<Rightarrow> HTTPRoute" where
  "env_route_body h serviceHost inNamespace r m =
     r\<lparr>hr_Route := map (redirect h) (filter (is_default h serviceHost inNamespace) (hr_Route r)),
       hr_Match := map (restrict_match m) (if hr_Match r = [] then [HTTPMatchRequest_zero] else hr_Match r)\<rparr>"

definition env_route ::
  "'w Env \<Rightarrow> VirtualServiceHandler \<Rightarrow> string \<Rightarrow> string \<Rightarrow> HTTPRoute \<Rightarrow> IstioMatch \<Rightarrow> HTTPRoute" where
  "env_route c h serviceHost inNamespace r m =
     (env_route_body h serviceHost inNamespace r m)\<lparr>hr_Name := vsh_RoutePrefix h @ ''-'' @
        take 10 (AsSha256 (RouteText c (env_route_body h serviceHost inNamespace r m)))\<rparr>"

definition routes_for ::
  "'w Env \<Rightarrow> VirtualServiceHandler \<Rightarrow> string \<Rightarrow> string \<Rightarrow> HTTPRoute \<Rightarrow> HTTPRoute list" where
  "routes_for c h serviceHost inNamespace r =
     (if list_ex (is_default h serviceHost inNamespace) (hr_Route r)
      then map (env_route c h serviceHost inNamespace r) (vsh_Matches h) else [])"

definition with_env_routes ::
  "'w Env \<Rightarrow> VirtualServiceHandler \<Rightarrow> string \<Rightarrow> string \<Rightarrow> HTTPRoute list \<Rightarrow> HTTPRoute list" where
  "with_env_routes c h serviceHost inNamespace routes =
     concat (map (\<lambda>r. routes_for c h serviceHost inNamespace r @ [r])
       (filter (\<lambda>r. \<not> HasPrefix (hr_Name r) (vsh_RoutePrefix h)) routes))"

lemma configured_iff:
  "routesConfiguredWithDynamicEnvRoutes routes pfx \<longleftrightarrow> (\<exists>r \<in> set routes. HasPrefix (hr_Name r) pfx)"
  by (induction routes) auto

lemma matches_service_host:
  "\<forall>d \<in> set ds. rd_Destination d \<noteq> None \<Longrightarrow>
   routeDestinationsMatchesServiceHost h host ds ns = Done (list_ex (is_default h host ns) ds)"
  by (induction ds) (auto simp: is_default_def)

lemma filter_destinations:
  "\<forall>d \<in> set ds. rd_Destination d \<noteq> None \<Longrightarrow>
   filterRouteDestinationByHost h ds host ns = Done (filter (is_default h host ns) ds)"
  by (induction ds) (auto simp: is_default_def)

lemma populate_eq:
  assumes "\<forall>d \<in> set (hr_Route r). rd_Destination d \<noteq> None"
    and "list_ex (is_default h host ns) (hr_Route r)"
  shows "populateRouteWithSubsetData c h r host m ns = Done (Inr (env_route c h host ns r m))"
proof -
  have "filter (is_default h host ns) (hr_Route r) \<noteq> []"
    using assms(2) by (auto simp: list_ex_iff filter_empty_conv)
  then show ?thesis
    by (simp add: populateRouteWithSubsetData_def filter_destinations [OF assms(1)] Let_def env_route_def
        env_route_body_def Shorten_take)
qed

lemma subset_routes_eq:
  "\<forall>d \<in> set (hr_Route r). rd_Destination d \<noteq> None \<Longrightarrow> list_ex (is_default h host ns) (hr_Route r) \<Longrightarrow>
   subset_routes c h host ns r ms = Done (Inr (map (env_route c h host ns r) ms))"
  by (induction ms) (simp_all add: populate_eq)

lemma new_routes_eq:
  "dests_ok routes \<Longrightarrow> new_routes c h host ns routes = Done (Inr (with_env_routes c h host ns routes))"
proof (induction routes)
  case (Cons r routes)
  then have "\<forall>d \<in> set (hr_Route r). rd_Destination d \<noteq> None" "dests_ok routes"
    by (simp_all add: dests_ok_def)
  with Cons.IH show ?case
    by (simp add: matches_service_host subset_routes_eq with_env_routes_def routes_for_def)
qed (simp add: with_env_routes_def)

text \<open>The populate step is reached only for routes with a default destination, so its error is not.\<close>

lemma matches_filter_nonempty:
  "routeDestinationsMatchesServiceHost h host ds ns = Done True \<Longrightarrow> filterRouteDestinationByHost h ds host ns \<noteq> Done []"
  by (induction ds) (auto simp: map_outcome2_Done split: option.splits if_splits)

lemma populate_no_error:
  "routeDestinationsMatchesServiceHost h host (hr_Route r) ns = Done True \<Longrightarrow>
   populateRouteWithSubsetData c h r host m ns \<noteq> Done (Inl e)"
  using matches_filter_nonempty [of h host "hr_Route r" ns]
  by (cases "filterRouteDestinationByHost h (hr_Route r) host ns")
    (auto simp: populateRouteWithSubsetData_def Let_def)

lemma subset_routes_no_error:
  "routeDestinationsMatchesServiceHost h host (hr_Route r) ns = Done True \<Longrightarrow>
   subset_routes c h host ns r ms \<noteq> Done (Inl e)"
proof (induction ms)
  case (Cons m ms)
  then show ?case
    using populate_no_error [OF Cons.prems, of c m]
    by (cases "populateRouteWithSubsetData c h r host m ns"; cases "subset_routes c h host ns r ms")
      (auto split: sum.splits)
qed simp

lemma new_routes_no_error: "new_routes c h host ns routes \<noteq> Done (Inl e)"
proof (induction routes)
  case (Cons r routes)
  show ?case
  proof (cases "routeDestinationsMatchesServiceHost h host (hr_Route r) ns")
    case (Done b)
    with Cons subset_routes_no_error [of h host r ns c "vsh_Matches h"] show ?thesis
      by (cases b; cases "subset_routes c h host ns r (vsh_Matches h)"; cases "new_routes c h host ns routes")
        (auto split: sum.splits)
  qed (use Cons in simp)
qed simp

section \<open>The contract of the handler\<close>

text \<open>
  The handler reads virtual services, writes statuses, and every virtual service that it writes records
  the dynamic environment as an owner.
\<close>

definition own_virtual_service :: "NamespacedName \<Rightarrow> effect \<Rightarrow> bool" where
  "own_virtual_service ident e = (case e of
     GotVirtualService _ _ \<Rightarrow> True
   | UpdatedVirtualService vs _ \<Rightarrow> \<exists>annotations. om_Annotations (vs_Meta vs) = AddToAnnotation ident annotations
   | UpdatedStatus _ _ \<Rightarrow> True
   | _ \<Rightarrow> False)"

lemma is_status_own_vs: "is_status e \<Longrightarrow> own_virtual_service ident e"
  by (cases e) (simp_all add: own_virtual_service_def)

lemmas own_vs_status = does_weaken [OF does_AddVirtualServiceStatusEntry is_status_own_vs]
  does_weaken [OF does_AddGlobalVirtualServiceError is_status_own_vs]

lemma updateVirtualService_own:
  "does (own_virtual_service (vsh_Identifier h)) (updateVirtualService (traced c) h heap p host)"
  unfolding updateVirtualService_def Let_def
  by (intro does_intro own_vs_status) (auto simp: own_virtual_service_def)

lemma extract_own: "does (own_virtual_service ident) (extractServiceFromDelegate (traced c) h d items heap)"
  unfolding extractServiceFromDelegate_def Let_def
  by (intro does_intro own_vs_status) (auto simp: own_virtual_service_def)

lemma locate_delegates_own:
  "does (own_virtual_service ident) (locate_delegates (traced c) h items ds result heap)"
proof (induction ds arbitrary: result heap)
  case (Cons d ds)
  then show ?case unfolding locate_delegates.simps by (intro does_intro extract_own) auto
qed (simp add: does_intro)

lemma locate_hosts_own:
  "does (own_virtual_service ident) (locate_hosts (traced c) h host items idx service hosts result heap)"
proof (induction hosts arbitrary: result heap)
  case (Cons x hosts)
  then show ?case unfolding locate_hosts.simps by (intro does_intro locate_delegates_own) auto
qed (simp add: does_intro)

lemma locate_items_own:
  "does (own_virtual_service ident) (locate_items (traced c) h host items idx rest result heap)"
proof (induction rest arbitrary: idx result heap)
  case (Cons x rest)
  then show ?case unfolding locate_items.simps by (intro does_intro locate_hosts_own) auto
qed (simp add: does_intro)

lemma locate_own: "does (own_virtual_service ident) (locateVirtualServicesByServiceHost (traced c) h host)"
  unfolding locateVirtualServicesByServiceHost_def by (intro does_intro locate_items_own)

lemma update_services_own:
  "does (own_virtual_service (vsh_Identifier h)) (update_services (traced c) h host heap services exists)"
proof (induction services arbitrary: heap exists)
  case (Cons p services)
  then show ?case unfolding update_services.simps by (intro does_intro updateVirtualService_own) auto
qed (simp add: does_intro)

lemma handle_service_hosts_own:
  "does (own_virtual_service (vsh_Identifier h)) (handle_service_hosts (traced c) h hosts)"
proof (induction hosts arbitrary: h)
  case (Cons host hosts)
  let ?h = "\<lambda>v. h\<lparr>vsh_virtualServices := v\<rparr>"
  have update: "does (own_virtual_service (vsh_Identifier h)) (update_services (traced c) (?h v) host heap services False)"
    for v heap services using update_services_own [of "?h v" c host heap services False] by simp
  have rest: "does (own_virtual_service (vsh_Identifier h)) (handle_service_hosts (traced c)
      (if b then (?h v)\<lparr>vsh_activeHosts := a\<rparr> else ?h v) hosts)" for v a b
    using Cons.IH [of "(?h v)\<lparr>vsh_activeHosts := a\<rparr>"] Cons.IH [of "?h v"] by simp
  show ?case
    unfolding handle_service_hosts.simps Let_def by (intro does_intro locate_own update rest)
qed (simp add: does_intro)

lemma handle_service_hosts_fixed:
  "handle_service_hosts c h hosts s = (Done (h', err), t) \<Longrightarrow>
   h'\<lparr>vsh_activeHosts := [], vsh_virtualServices := None\<rparr> = h\<lparr>vsh_activeHosts := [], vsh_virtualServices := None\<rparr>"
proof (induction hosts arbitrary: h s)
  case (Cons host hosts)
  then show ?case
    by (auto simp: bnd_apply Let_def split: prod.splits outcome.splits sum.splits if_splits dest!: Cons.IH)
qed simp

lemma fetch_services_reads: "does is_read (fetch_services (traced c) nns vss)"
proof (induction nns arbitrary: vss)
  case (Cons nn nns)
  then show ?case unfolding fetch_services.simps by (intro does_intro) auto
qed (simp add: does_intro)

lemma fetch_services_frame: "keeps (de_is de) (fetch_services c nns vss)"
proof (induction nns arbitrary: vss)
  case (Cons nn nns)
  then show ?case unfolding fetch_services.simps by (intro keeps_intro) auto
qed (simp add: keeps_intro)

lemma apply_vs_statuses_status: "does is_status (apply_vs_statuses (traced c) k sts)"
proof (induction sts)
  case (Cons st sts)
  then show ?case unfolding apply_vs_statuses.simps by (intro does_intro does_AddVirtualServiceStatusEntry) auto
qed (simp add: does_intro)

interpretation vs_handler: resource_handler vsh_Handle vsh_GetStatus vsh_ApplyStatus vsh_GetSubset
  "\<lambda>h. own_virtual_service (vsh_Identifier h)"
proof unfold_locales
  fix c :: "'a Env" and h
  have "does (own_virtual_service (vsh_Identifier h))
      (handle_service_hosts (traced c) (h\<lparr>vsh_virtualServices := gm_make\<rparr>) (vsh_ServiceHosts h))"
    using handle_service_hosts_own [of "h\<lparr>vsh_virtualServices := gm_make\<rparr>" c] by simp
  then show "does (own_virtual_service (vsh_Identifier h)) (vsh_Handle (traced c) h)"
    unfolding vsh_Handle_def by (intro does_intro)
  show "does is_read (vsh_GetStatus (traced c) h)"
    unfolding vsh_GetStatus_def by (intro does_intro fetch_services_reads)
  show "keeps (de_is de) (vsh_GetStatus (traced c) h)" for de
    unfolding vsh_GetStatus_def by (intro keeps_intro fetch_services_frame)
  show "does is_status (vsh_ApplyStatus (traced c) h st)" for st
    unfolding vsh_ApplyStatus_def by (rule apply_vs_statuses_status)
  show "vsh_GetSubset h' = vsh_GetSubset h" if "vsh_Handle c' h s = (Done (h', err), t)"
    for c' :: "('a \<times> effect list) Env" and s h' err t
    using that
    by (cases h; cases h') (auto simp: vsh_Handle_def vsh_GetSubset_def bnd_apply dest!: handle_service_hosts_fixed
        split: prod.splits outcome.splits option.splits if_splits)
qed

lemma pair_cases: obtains a b d where "x = ((a, b), d)"
  by (cases x) auto

section \<open>Lemmas on routes\<close>

lemma env_route_traced [simp]: "env_route (traced c) = env_route c"
  by (simp add: fun_eq_iff env_route_def)

lemma with_env_routes_traced [simp]: "with_env_routes (traced c) h host ns rs = with_env_routes c h host ns rs"
  unfolding with_env_routes_def routes_for_def env_route_traced ..

lemma env_route_name: "HasPrefix (hr_Name (env_route c h host ns r m)) (vsh_RoutePrefix h)"
  by (simp add: env_route_def)

lemma routes_for_prefixed: "r' \<in> set (routes_for c h host ns r) \<Longrightarrow> HasPrefix (hr_Name r') (vsh_RoutePrefix h)"
  by (auto simp: routes_for_def env_route_name split: if_splits)

lemma with_env_routes_others:
  "filter (\<lambda>r. \<not> HasPrefix (hr_Name r) (vsh_RoutePrefix h)) (with_env_routes c h host ns rs) =
   filter (\<lambda>r. \<not> HasPrefix (hr_Name r) (vsh_RoutePrefix h)) rs"
proof -
  have "filter (\<lambda>r. \<not> HasPrefix (hr_Name r) (vsh_RoutePrefix h)) (routes_for c h host ns r) = []" for r
    by (auto simp: filter_empty_conv dest: routes_for_prefixed)
  then show ?thesis by (induction rs) (simp_all add: with_env_routes_def)
qed

lemma filter_destinations_Done:
  "filterRouteDestinationByHost h ds host ns = Done ds' \<Longrightarrow> ds' = filter (is_default h host ns) ds"
  by (induction ds arbitrary: ds') (auto simp: map_outcome2_Done is_default_def split: option.splits)

lemma restrict_lookup:
  assumes "gm_ok (im_Headers mt)" and "gm_ok (im_SourceLabels mt)"
  shows "gm_lookup (mr_Headers (restrict_match mt m)) k =
      (case gm_lookup (im_Headers mt) k of Some v \<Rightarrow> Some (toIstioStringMatch v) | None \<Rightarrow> gm_lookup (mr_Headers m) k)"
    and "gm_lookup (mr_SourceLabels (restrict_match mt m)) k =
      (case gm_lookup (im_SourceLabels mt) k of Some v \<Rightarrow> Some v | None \<Rightarrow> gm_lookup (mr_SourceLabels m) k)"
proof -
  have keys: "distinct (map fst (map (\<lambda>(k, v). (k, toIstioStringMatch v)) (gm_list (im_Headers mt))))"
    "distinct (map fst (gm_list (im_SourceLabels mt)))"
    using assms by (simp_all add: gm_ok_def gm_keys_def case_prod_beta comp_def)
  have nil: "gm_lookup (if b \<and> x = None then gm_make else x) k = gm_lookup x k" for b and x :: "'a gomap"
    by simp
  have conv: "map_of (map (\<lambda>(k, v). (k, toIstioStringMatch v)) xs) k = map_option toIstioStringMatch (map_of xs k)"
    for xs :: "(string \<times> StringMatch) list" by (simp add: map_of_map comp_def)
  show "gm_lookup (mr_Headers (restrict_match mt m)) k =
      (case gm_lookup (im_Headers mt) k of Some v \<Rightarrow> Some (toIstioStringMatch v) | None \<Rightarrow> gm_lookup (mr_Headers m) k)"
    unfolding restrict_match_def Let_def
    by (simp add: gm_lookup_put_all [OF keys(1)] conv gm_lookup_def [symmetric] split: option.split)
  show "gm_lookup (mr_SourceLabels (restrict_match mt m)) k =
      (case gm_lookup (im_SourceLabels mt) k of Some v \<Rightarrow> Some v | None \<Rightarrow> gm_lookup (mr_SourceLabels m) k)"
    unfolding restrict_match_def Let_def
    by (simp add: gm_lookup_put_all [OF keys(2)] gm_lookup_def [symmetric] split: option.split)
qed

text \<open>A destination that leads to the version of the dynamic environment and announces it.\<close>

definition leads_to :: "VirtualServiceHandler \<Rightarrow> HTTPRouteDestination \<Rightarrow> bool" where
  "leads_to h d \<longleftrightarrow> rd_Weight d = 0 \<and> (\<exists>dest hs resp. rd_Destination d = Some dest \<and>
     dst_Subset dest = vsh_UniqueVersion h \<and> rd_Headers d = Some hs \<and> hd_Response hs = Some resp \<and>
     gm_lookup (ho_Add resp) ''x-dynamic-env'' = Some (vsh_UniqueName h))"

lemma redirect_leads: "is_default h host ns d \<Longrightarrow> leads_to h (redirect h d)"
  by (auto simp: leads_to_def redirect_def safeApplyResponseHeaders_def Let_def is_default_def
      split: option.splits)

lemma handle_service_hosts_hosts:
  "handle_service_hosts c h hosts s = (Done (h', None), t) \<Longrightarrow>
   \<exists>active. vsh_activeHosts h' = vsh_activeHosts h @ active \<and> subseq active hosts \<and>
     (\<forall>k. gm_lookup (vsh_virtualServices h') k \<noteq> None \<longleftrightarrow> k \<in> set hosts \<or> gm_lookup (vsh_virtualServices h) k \<noteq> None)"
proof (induction hosts arbitrary: h s)
  case (Cons host hosts)
  let ?h = "\<lambda>nns. h\<lparr>vsh_virtualServices := gm_put host nns (vsh_virtualServices h)\<rparr>"
  let ?a = "\<lambda>nns. (?h nns)\<lparr>vsh_activeHosts := vsh_activeHosts h @ [host]\<rparr>"
  have inactive: ?case if "handle_service_hosts c (?h nns) hosts u = (Done (h', None), t)" for nns u
    using Cons.IH [OF that] by (force intro: list_emb_Cons)
  have active: ?case if "handle_service_hosts c (?a nns) hosts u = (Done (h', None), t)" for nns u
    using Cons.IH [OF that] by (fastforce intro: subseq_Cons2)
  have "\<exists>nns u. handle_service_hosts c (?h nns) hosts u = (Done (h', None), t) \<or>
      handle_service_hosts c (?a nns) hosts u = (Done (h', None), t)"
    using Cons.prems
    by (auto simp: bnd_apply Let_def split: prod.splits outcome.splits sum.splits if_splits)
  with active inactive show ?case by blast
qed simp

lemma digest_prefix:
  "length (take 10 (AsSha256 x)) = 10" "set (take 10 (AsSha256 x)) \<subseteq> set ''0123456789abcdef''"
  using AsSha256_form [of x] by (simp, meson set_take_subset subset_trans)

section \<open>Properties\<close>

text \<open>
  C25: the route that is added for one match. It leads only to destinations that the original route had
  for the default version of the host, each now to the version of the dynamic environment and announcing
  it in a response header; and it applies only to requests that satisfy one of the original matches and,
  in addition, every header and source label of the dynamic environment's match. Its name is the prefix of
  the subset with ten hexadecimal digits, the start of a digest of the route.
\<close>

theorem populateRoute_correct:
  assumes "populateRouteWithSubsetData c h r host mt ns = Done (Inr r')"
    and "gm_ok (im_Headers mt)" and "gm_ok (im_SourceLabels mt)"
  shows "hr_Route r' = map (redirect h) (filter (is_default h host ns) (hr_Route r)) \<and> hr_Route r' \<noteq> [] \<and>
    list_all (leads_to h) (hr_Route r') \<and>
    list_all2 (\<lambda>m m'. mr_rest m' = mr_rest m \<and>
        (\<forall>k. gm_lookup (mr_Headers m') k =
           (case gm_lookup (im_Headers mt) k of Some v \<Rightarrow> Some (toIstioStringMatch v) | None \<Rightarrow> gm_lookup (mr_Headers m) k)) \<and>
        (\<forall>k. gm_lookup (mr_SourceLabels m') k =
           (case gm_lookup (im_SourceLabels mt) k of Some v \<Rightarrow> Some v | None \<Rightarrow> gm_lookup (mr_SourceLabels m) k)))
      (if hr_Match r = [] then [HTTPMatchRequest_zero] else hr_Match r) (hr_Match r') \<and>
    (\<exists>d. hr_Name r' = vsh_RoutePrefix h @ ''-'' @ d \<and> length d = 10 \<and> set d \<subseteq> set ''0123456789abcdef'') \<and> hr_Delegate r' = hr_Delegate r \<and> hr_rest r' = hr_rest r"
proof -
  from assms(1) obtain ds where ds: "filterRouteDestinationByHost h (hr_Route r) host ns = Done ds" and "ds \<noteq> []"
    by (auto simp: populateRouteWithSubsetData_def map_outcome2_Done Let_def split: if_splits)
  with filter_destinations_Done [OF ds] assms(1)
  have r': "r' = env_route c h host ns r mt" and ne: "filter (is_default h host ns) (hr_Route r) \<noteq> []"
    by (auto simp: populateRouteWithSubsetData_def Let_def env_route_def env_route_body_def Shorten_take)
  have rest: "mr_rest (restrict_match mt m) = mr_rest m" for m
    by (simp add: restrict_match_def Let_def)
  have name: "\<exists>d. hr_Name r' = vsh_RoutePrefix h @ ''-'' @ d \<and> length d = 10 \<and> set d \<subseteq> set ''0123456789abcdef''"
    unfolding r' env_route_def by (intro exI conjI, simp) (rule digest_prefix)+
  show ?thesis
    unfolding conj_assoc [symmetric]
    using ne name
    by (auto simp: r' env_route_def env_route_body_def list_all_iff redirect_leads list_all2_conv_all_nth
        restrict_lookup [OF assms(2,3)] rest)
qed

definition sample_vs_handler :: VirtualServiceHandler where
  "sample_vs_handler = NewVirtualServiceHandler \<lparr>rd_Identifier = \<lparr>nn_Namespace = ''ns'', nn_Name = ''env''\<rparr>,
       rd_BaseDeployment = undefined, rd_Subset = \<lparr>sub_Name = ''details'', sub_Namespace = ''ns'', sub_PodLabels = None,
         sub_Replicas = None, sub_Containers = [], sub_InitContainers = [], sub_DefaultVersion = []\<rparr>,
       rd_Matches = [\<lparr>im_Headers = Some [(''end-user'', \<lparr>sm_Exact = ''jason'', sm_Prefix = [], sm_Regex = []\<rparr>)],
         im_SourceLabels = None\<rparr>]\<rparr> [''details''] ''shared''"

definition sample_route :: HTTPRoute where
  "sample_route = \<lparr>hr_Name = ''r'', hr_Match = [], hr_Route = [\<lparr>rd_Destination = Some \<lparr>dst_Host = ''details'',
       dst_Subset = ''shared'', dst_rest = []\<rparr>, rd_Weight = 100, rd_Headers = None\<rparr>], hr_Delegate = None, hr_rest = []\<rparr>"

definition sample_vs :: VirtualService where
  "sample_vs = \<lparr>vs_Meta = \<lparr>om_Name = ''details-vs'', om_Namespace = ''ns'', om_Labels = None, om_Annotations = None,
       om_rest = []\<rparr>, vs_Hosts = [''details''], vs_Http = [sample_route], vs_rest = []\<rparr>"

definition sample_vs_env :: DynamicEnv where
  "sample_vs_env = \<lparr>de_Name = ''env'', de_Namespace = ''ns'', de_Finalizers = [], de_DeletionTimestamp = None,
     de_rest = [], de_Spec = \<lparr>spec_IstioMatches = None, spec_Subsets = [], spec_Consumers = []\<rparr>,
     de_Status = \<lparr>st_SubsetsStatus = None, st_ConsumersStatus = None, st_State = [], st_TotalCount = 0,
                  st_TotalReady = 0\<rparr>\<rparr>"

abbreviation sample_match :: IstioMatch where
  "sample_match \<equiv> \<lparr>im_Headers = Some [(''end-user'', \<lparr>sm_Exact = ''jason'', sm_Prefix = [], sm_Regex = []\<rparr>)],
     im_SourceLabels = None\<rparr>"

lemma sample_default: "list_ex (is_default sample_vs_handler ''details'' ''ns'') (hr_Route sample_route)"
  "dests_ok [sample_route]" "\<forall>d \<in> set (hr_Route sample_route). rd_Destination d \<noteq> None"
  by (simp_all add: sample_route_def is_default_def default_destination_def sample_vs_handler_def
      NewVirtualServiceHandler_def Let_def MatchNamespacedHost_def dests_ok_def)

theorem populateRoute_correct_witness:
  "\<exists>r'. populateRouteWithSubsetData mem_env sample_vs_handler sample_route ''details'' sample_match ''ns'' = Done (Inr r') \<and>
     list_all (leads_to sample_vs_handler) (hr_Route r') \<and> length (hr_Route r') = 1"
proof -
  let ?r = "env_route mem_env sample_vs_handler ''details'' ''ns'' sample_route sample_match"
  have run: "populateRouteWithSubsetData mem_env sample_vs_handler sample_route ''details'' sample_match ''ns'' = Done (Inr ?r)"
    by (rule populate_eq [OF sample_default(3,1)])
  from populateRoute_correct [OF run] run sample_default(1) show ?thesis
    by (auto simp: gm_ok_def gm_keys_def sample_route_def)
qed




definition sample_vs_start :: "mem loop_state" where
  "sample_vs_start = \<lparr>cur_de = sample_vs_env, world = empty_mem\<lparr>m_des := [sample_vs_env], m_vss := [sample_vs]\<rparr>\<rparr>"

lemma sample_vs_update:
  "map_outcome snd (fst (updateVirtualService mem_env sample_vs_handler [sample_vs] 0 ''details'' sample_vs_start)) = Done None"
  by code_simp


text \<open>
  Routes of one subset can pass for those of another. When the name of a second subset of the same
  dynamic environment starts with the name of the first and a dash, a route added for the second has the
  prefix of the first; a virtual service that carries it is skipped when the first subset is handled, and
  the first subset gets no route.
\<close>

theorem route_prefix_collision:
  assumes "sub_Name (rd_Subset data2) = sub_Name (rd_Subset data1) @ ''-'' @ rest"
    and "rd_Identifier data2 = rd_Identifier data1"
    and "h1 = NewVirtualServiceHandler data1 hosts1 version1" and "h2 = NewVirtualServiceHandler data2 hosts2 version2"
    and "env_route c h2 host ns r m \<in> set (vs_Http (heap ! p))"
  shows "updateVirtualService c h1 heap p host1 s = (Done (heap, None), s)"
proof -
  have "HasPrefix (vsh_RoutePrefix h2) (vsh_RoutePrefix h1)"
    by (simp add: assms(1-4) NewVirtualServiceHandler_def Let_def Prefix_append HasPrefix_prefix)
  then have "HasPrefix (hr_Name (env_route c h2 host ns r m)) (vsh_RoutePrefix h1)"
    using env_route_name HasPrefix_trans by blast
  with assms(5) show ?thesis by (auto simp: updateVirtualService_def Let_def configured_iff)
qed

definition sample_named :: "string \<Rightarrow> DynamicEnvReconcileData" where
  "sample_named name = \<lparr>rd_Identifier = \<lparr>nn_Namespace = ''ns'', nn_Name = ''env''\<rparr>, rd_BaseDeployment = undefined,
     rd_Subset = \<lparr>sub_Name = name, sub_Namespace = ''ns'', sub_PodLabels = None, sub_Replicas = None,
       sub_Containers = [], sub_InitContainers = [], sub_DefaultVersion = []\<rparr>, rd_Matches = [sample_match]\<rparr>"

theorem route_prefix_collision_witness:
  "let heap = [sample_vs\<lparr>vs_Http := [env_route mem_env
                 (NewVirtualServiceHandler (sample_named ''details-v2'') [''details-v2''] ''shared'')
                 ''details-v2'' ''ns'' sample_route sample_match, sample_route]\<rparr>]
   in updateVirtualService mem_env (NewVirtualServiceHandler (sample_named ''details'') [''details''] ''shared'')
        heap 0 ''details'' sample_vs_start = (Done (heap, None), sample_vs_start)"
  unfolding Let_def
  by (rule route_prefix_collision [where rest = "''v2''" and ?data2.0 = "sample_named ''details-v2''" and
        ?hosts2.0 = "[''details-v2'']" and ?version2.0 = "''shared''" and host = "''details-v2''" and ns = "''ns''" and
        r = sample_route and m = sample_match, OF _ _ refl refl])
    (simp_all add: sample_named_def)

text \<open>
  Which hosts are active. When a run of a new handler succeeds, its active hosts are some of its
  service hosts, in order, and at least one; and the located virtual services are remembered for exactly
  the service hosts.
\<close>

theorem vsh_Handle_active_hosts:
  assumes "vsh_Handle c (NewVirtualServiceHandler data hosts version) s = (Done (h', None), t)"
  shows "subseq (vsh_GetHosts h') hosts \<and> vsh_GetHosts h' \<noteq> [] \<and>
    (\<forall>k. gm_lookup (vsh_virtualServices h') k \<noteq> None \<longleftrightarrow> k \<in> set hosts)"
proof -
  let ?h = "(NewVirtualServiceHandler data hosts version)\<lparr>vsh_virtualServices := gm_make\<rparr>"
  have fields: "vsh_ServiceHosts (NewVirtualServiceHandler data hosts version) = hosts" "vsh_activeHosts ?h = []"
    by (simp_all add: NewVirtualServiceHandler_def Let_def)
  from assms obtain u where run: "handle_service_hosts c ?h hosts s = (Done (h', None), u)" and "vsh_activeHosts h' \<noteq> []"
    by (auto simp: vsh_Handle_def bnd_apply fields split: prod.splits outcome.splits option.splits if_splits)
  with handle_service_hosts_hosts [OF run] fields(2) show ?thesis by (auto simp: vsh_GetHosts_def)
qed

lemma sample_vs_run:
  "map_outcome snd (fst (vsh_Handle mem_env (NewVirtualServiceHandler (sample_named ''details'') [''details'', ''none''] ''shared'')
     sample_vs_start)) = Done None"
  by code_simp

theorem vsh_Handle_active_hosts_witness:
  "\<exists>h t. vsh_Handle mem_env (NewVirtualServiceHandler (sample_named ''details'') [''details'', ''none''] ''shared'')
     sample_vs_start = (Done (h, None), t) \<and> subseq (vsh_GetHosts h) [''details'', ''none'']"
proof -
  obtain r t where run: "vsh_Handle mem_env (NewVirtualServiceHandler (sample_named ''details'') [''details'', ''none'']
      ''shared'') sample_vs_start = (r, t)" by fastforce
  with sample_vs_run obtain h where "r = Done (h, None)" by (cases r) auto
  with run vsh_Handle_active_hosts [of mem_env "sample_named ''details''" "[''details'', ''none'']" "''shared''"
      sample_vs_start h t] show ?thesis by blast
qed

end
