(* ===== verification/Controller.thy ===== *)
theory Controller
  imports Cleanup_Manager Deployment_Handler Destination_Rule_Handler Virtual_Service_Handler
begin

text \<open>
  The reconciler, \<^verbatim>\<open>internal/controller/dynamicenv_controller.go\<close>: one call of \<open>Reconcile\<close> brings the
  cluster closer to a dynamic environment and writes its global state.

  The sources collect pointers to handlers and go on to change the handlers through them; the model adds a
  handler to its list after it was run, in the state it then has. An \<open>MRHandler\<close> is one of the two handlers
  that implement the interface.
\<close>

section \<open>Data\<close>

record DynamicEnvReconciler =
  r_VersionLabel :: string
  r_DefaultVersion :: string
  r_LabelsToRemove :: "string list"

record ReconcileLoopStatus =
  rls_returnError :: NonMaskingError
  rls_degradedExists :: bool
  rls_subsetMessages :: "SubsetMessages gomap"
  rls_consumerMessages :: "string list gomap"
  rls_nonReadyCS :: "bool gomap"

record processStatusesResponse =
  psr_msgs :: "string list gomap"
  psr_degraded :: bool
  psr_nonReady :: "bool gomap"

datatype MRHandler = DRH DestinationRuleHandler | VSH VirtualServiceHandler

fun mrh_GetSubset :: "MRHandler \<Rightarrow> string" where
  "mrh_GetSubset (DRH h) = drh_GetSubset h"
| "mrh_GetSubset (VSH h) = vsh_GetSubset h"

fun mrh_GetStatus :: "'w Env \<Rightarrow> MRHandler \<Rightarrow> ('w, goerror + ResourceStatus list) go" where
  "mrh_GetStatus c (DRH h) = drh_GetStatus c h"
| "mrh_GetStatus c (VSH h) = vsh_GetStatus c h"

fun mrh_ApplyStatus :: "'w Env \<Rightarrow> MRHandler \<Rightarrow> ResourceStatus list \<Rightarrow> ('w, goerror option) go" where
  "mrh_ApplyStatus c (DRH h) statuses = drh_ApplyStatus c h statuses"
| "mrh_ApplyStatus c (VSH h) statuses = vsh_ApplyStatus c h statuses"

section \<open>Helpers\<close>

definition addDeploymentMessage :: "ReconcileLoopStatus \<Rightarrow> string \<Rightarrow> SubsetOrConsumer \<Rightarrow> string \<Rightarrow> ReconcileLoopStatus" where
  "addDeploymentMessage rls sbst tpe msg =
     (if tpe = CONSUMER then
        rls\<lparr>rls_consumerMessages := gm_put sbst (gm_get [] (rls_consumerMessages rls) sbst @ [msg]) (rls_consumerMessages rls)\<rparr>
      else
        rls\<lparr>rls_subsetMessages := gm_put sbst
              (AppendDeploymentMsg (gm_get SubsetMessages_zero (rls_subsetMessages rls) sbst) msg) (rls_subsetMessages rls)\<rparr>)"

definition add_subset_message ::
  "(SubsetMessages \<Rightarrow> string \<Rightarrow> SubsetMessages) \<Rightarrow> string \<Rightarrow> string \<Rightarrow> ReconcileLoopStatus \<Rightarrow> ReconcileLoopStatus" where
  \<comment> \<open>\<open>rls.subsetMessages[name] = rls.subsetMessages[name].Append...Msg(msg)\<close>\<close>
  "add_subset_message app name msg rls =
     rls\<lparr>rls_subsetMessages := gm_put name
       (app (gm_get SubsetMessages_zero (rls_subsetMessages rls) name) msg) (rls_subsetMessages rls)\<rparr>"

definition force_error :: "goerror \<Rightarrow> ReconcileLoopStatus \<Rightarrow> ReconcileLoopStatus" where
  "force_error err rls = rls\<lparr>rls_returnError := ForceError (rls_returnError rls) (Some err)\<rparr>"

definition set_non_ready :: "string \<Rightarrow> ReconcileLoopStatus \<Rightarrow> ReconcileLoopStatus" where
  "set_non_ready name rls = rls\<lparr>rls_nonReadyCS := gm_put name True (rls_nonReadyCS rls)\<rparr>"

definition markedForDeletion :: "DynamicEnv \<Rightarrow> bool" where
  "markedForDeletion de \<longleftrightarrow> de_DeletionTimestamp de \<noteq> None"

definition mergeSubsetsAndConsumers :: "Subset list \<Rightarrow> Subset list \<Rightarrow> SubsetType list" where
  "mergeSubsetsAndConsumers subsets consumers =
     map (\<lambda>s. \<lparr>sbt_Type = SUBSET, sbt_Subset = s\<rparr>) subsets @ map (\<lambda>s. \<lparr>sbt_Type = CONSUMER, sbt_Subset = s\<rparr>) consumers"

definition ensureFinalizers :: "'w Env \<Rightarrow> ('w, goerror option) go" where
  "ensureFinalizers c =
     bnd readDE (\<lambda>de.
     if length (de_Finalizers de) = 0 then
       bnd (writeDE (de\<lparr>de_Finalizers := [DeleteDeployments, DeleteDestinationRules, CleanupVirtualServices]\<rparr>)) (\<lambda>_.
       bnd (UpdateDE c) (\<lambda>r. case r of
         Some err \<Rightarrow> ret (Some (Wrap ''could not update finalizers'' err))
       | None \<Rightarrow> ret None))
     else ret None)"

fun match_services :: "'w Env \<Rightarrow> string gomap \<Rightarrow> Service list \<Rightarrow> goerror + Service list" where
  "match_services c ls [] = Inr []"
| "match_services c ls (service # items) =
     (case AsValidatedSelector c (svc_Selector service) of
        Inl err \<Rightarrow> Inl (Wrap (''error converting service selector (from: '' @ LabelsString c (svc_Selector service) @ '')'') err)
      | Inr selects \<Rightarrow>
          (case match_services c ls items of
             Inl err \<Rightarrow> Inl err
           | Inr matchingServices \<Rightarrow> Inr (if selects ls then service # matchingServices else matchingServices)))"

definition locateMatchingServiceHostnames ::
  "'w Env \<Rightarrow> string \<Rightarrow> string gomap \<Rightarrow> ('w, goerror + string list) go" where
  "locateMatchingServiceHostnames c namespace ls =
     bnd (call (ListServices c namespace)) (\<lambda>r. case r of
       Inl err \<Rightarrow> ret (Inl (Wrap (''error fetching services list for namespace '' @ namespace) err))
     | Inr items \<Rightarrow>
         (case match_services c ls items of
            Inl err \<Rightarrow> ret (Inl err)
          | Inr matchingServices \<Rightarrow>
              if length matchingServices = 0 then
                ret (Inl (ErrorString (''couldn't find service with matching labels: ('' @ LabelsString c ls @
                     '') in namespace: '' @ namespace)))
              else ret (Inr (sort (map svc_Name matchingServices)))))"

section \<open>The loop over subsets and consumers\<close>

type_synonym loop_vars = "ReconcileLoopStatus \<times> DeploymentHandler list \<times> MRHandler list"

definition process_mesh ::
  "'w Env \<Rightarrow> DynamicEnvReconciler \<Rightarrow> DynamicEnvReconcileData \<Rightarrow> string list \<Rightarrow> loop_vars \<Rightarrow> ('w, loop_vars) go" where
  \<comment> \<open>the destination rules and virtual services of a subset, once its hosts are known\<close>
  "process_mesh c r subsetData serviceHosts = (\<lambda>(rls, dhs, mrhs).
     let s = rd_Subset subsetData;
         uniqueName = MkSubsetUniqueName (sub_Name s) (UniqueDynamicEnvName (rd_Identifier subsetData));
         defaultVersionForSubset = (if sub_DefaultVersion s \<noteq> [] then sub_DefaultVersion s else r_DefaultVersion r);
         subsetName = MKSubsetName s
     in bnd (drh_Handle c (NewDestinationRuleHandler subsetData (r_VersionLabel r) defaultVersionForSubset serviceHosts))
          (\<lambda>(destinationRuleHandler, err).
        let mrhs = mrhs @ [DRH destinationRuleHandler]
        in case err of
             Some err \<Rightarrow>
               ret (add_subset_message AppendDestinationRuleMsg subsetName (ErrorMsg err) (force_error err rls), dhs, mrhs)
           | None \<Rightarrow>
               bnd (vsh_Handle c (NewVirtualServiceHandler subsetData serviceHosts defaultVersionForSubset))
                 (\<lambda>(virtualServiceHandler, err).
               let mrhs = mrhs @ [VSH virtualServiceHandler];
                   rls = (case err of
                            Some err \<Rightarrow>
                              let msg = ''error updating virtual service for subset ('' @ uniqueName @ '')''
                              in add_subset_message AppendVirtualServiceMsg subsetName (msg @ '': '' @ ErrorMsg err)
                                   (force_error (Wrap msg err) rls)
                          | None \<Rightarrow> rls);
                   commonHostExists = CommonValueExists (drh_GetHosts destinationRuleHandler) (vsh_GetHosts virtualServiceHandler)
               in ret (if \<not> commonHostExists then
                         add_subset_message AppendGlobalMsg subsetName
                           ''Couldn't find common active service hostname across DestinationRules and VirtualServices''
                           (set_non_ready subsetName (rls\<lparr>rls_degradedExists := True\<rparr>))
                       else rls, dhs, mrhs))))"

definition process_one ::
  "'w Env \<Rightarrow> DynamicEnvReconciler \<Rightarrow> NamespacedName \<Rightarrow> SubsetType \<Rightarrow> loop_vars \<Rightarrow> ('w, loop_vars) go" where
  \<comment> \<open>the body of the loop\<close>
  "process_one c r ident st = (\<lambda>(rls, dhs, mrhs).
     let s = sbt_Subset st; subsetName = MKSubsetName s
     in bnd (call (GetDeployment c \<lparr>nn_Namespace = sub_Namespace s, nn_Name = sub_Name s\<rparr>)) (\<lambda>res. case res of
          Inl err \<Rightarrow>
            let msg = ''couldn't find the deployment we need to override (name: '' @ sub_Name s @ '', ns: '' @
                  sub_Namespace s @ '')''
            in ret (set_non_ready subsetName
                      (addDeploymentMessage (force_error (Wrap msg err) rls) subsetName (sbt_Type st)
                        (msg @ '', '' @ ErrorMsg err)), dhs, mrhs)
        | Inr baseDeployment \<Rightarrow>
            bnd readDE (\<lambda>de.
            let subsetData = \<lparr>rd_Identifier = ident, rd_BaseDeployment = baseDeployment, rd_Subset = s,
                              rd_Matches = IstioMatches_list (de_Spec de)\<rparr>
            in bnd (dh_Handle c (NewDeploymentHandler subsetData (sbt_Type st) (r_LabelsToRemove r) (r_VersionLabel r)))
                 (\<lambda>(deploymentHandler, err).
               let dhs = dhs @ [deploymentHandler]
               in case err of
                    Some err \<Rightarrow>
                      ret (addDeploymentMessage (force_error err rls) subsetName (sbt_Type st) (ErrorMsg err), dhs, mrhs)
                  | None \<Rightarrow>
                      if sbt_Type st = SUBSET then
                        bnd (locateMatchingServiceHostnames c (sub_Namespace s)
                               (pt_Labels (dsp_Template (dep_Spec baseDeployment)))) (\<lambda>res. case res of
                          Inl err \<Rightarrow>
                            let msg = ''locating service hostname for deployment '' @ [CHR 0x27] @
                                  dep_Name baseDeployment @ [CHR 0x27]
                            in ret (add_subset_message AppendGlobalMsg subsetName (msg @ '': '' @ ErrorMsg err)
                                      (force_error (Wrap msg err) rls), dhs, mrhs)
                        | Inr serviceHosts \<Rightarrow> process_mesh c r subsetData serviceHosts (rls, dhs, mrhs))
                      else ret (rls, dhs, mrhs)))))"

fun process_loop ::
  "'w Env \<Rightarrow> DynamicEnvReconciler \<Rightarrow> NamespacedName \<Rightarrow> SubsetType list \<Rightarrow> loop_vars \<Rightarrow> ('w, loop_vars) go" where
  "process_loop c r ident [] vars = ret vars"
| "process_loop c r ident (st # sts) vars =
     bnd (process_one c r ident st vars) (\<lambda>vars. process_loop c r ident sts vars)"

definition ReconcileLoopStatus_new :: ReconcileLoopStatus where
  "ReconcileLoopStatus_new = \<lparr>rls_returnError = \<lparr>nme_error = None\<rparr>, rls_degradedExists = False,
     rls_subsetMessages = gm_make, rls_consumerMessages = gm_make, rls_nonReadyCS = gm_make\<rparr>"

definition processSubsetsAndConsumers :: "'w Env \<Rightarrow> DynamicEnvReconciler \<Rightarrow> ('w, loop_vars) go" where
  "processSubsetsAndConsumers c r =
     bnd readDE (\<lambda>de.
     process_loop c r (de_ident de) (mergeSubsetsAndConsumers (spec_Subsets (de_Spec de)) (spec_Consumers (de_Spec de)))
       (ReconcileLoopStatus_new, [], []))"

section \<open>The statuses of the handlers\<close>

definition add_response_msg :: "string \<Rightarrow> string \<Rightarrow> processStatusesResponse \<Rightarrow> processStatusesResponse" where
  "add_response_msg name msg response =
     response\<lparr>psr_msgs := gm_put name (gm_get [] (psr_msgs response) name @ [msg]) (psr_msgs response)\<rparr>"

type_synonym status_vars = "processStatusesResponse \<times> NonMaskingError"

fun process_srhs :: "'w Env \<Rightarrow> DeploymentHandler list \<Rightarrow> status_vars \<Rightarrow> ('w, status_vars) go" where
  "process_srhs c [] vars = ret vars"
| "process_srhs c (handler # srhs) (response, returnError) =
     bnd (dh_GetStatus c handler) (\<lambda>r. case r of
       Inl err \<Rightarrow>
         process_srhs c srhs (add_response_msg (dh_GetSubset handler) (''error fetching status: '' @ ErrorMsg err) response,
           SetIfNotMasking returnError (Some err))
     | Inr newStatus \<Rightarrow>
         bnd (dh_ApplyStatus c handler newStatus) (\<lambda>r.
         let (response, returnError) = (case r of
               Some err \<Rightarrow> (add_response_msg (dh_GetSubset handler) (''error updating status: '' @ ErrorMsg err) response,
                            SetIfNotMasking returnError (Some err))
             | None \<Rightarrow> (response, returnError));
             response = (if rs_Status newStatus \<noteq> Running
                         then response\<lparr>psr_nonReady := gm_put (dh_GetSubset handler) True (psr_nonReady response)\<rparr>
                         else response);
             response = (if IsFailedStatus (rs_Status newStatus) then response\<lparr>psr_degraded := True\<rparr> else response)
         in process_srhs c srhs (response, returnError)))"

definition note_failed :: "string \<Rightarrow> ResourceStatus \<Rightarrow> processStatusesResponse \<Rightarrow> processStatusesResponse" where
  \<comment> \<open>the body of the loop over the statuses of one handler\<close>
  "note_failed name s response =
     (if IsFailedStatus (rs_Status s)
      then response\<lparr>psr_nonReady := gm_put name True (psr_nonReady response), psr_degraded := True\<rparr> else response)"

fun process_mrhs :: "'w Env \<Rightarrow> MRHandler list \<Rightarrow> status_vars \<Rightarrow> ('w, status_vars) go" where
  "process_mrhs c [] vars = ret vars"
| "process_mrhs c (handler # mrhs) (response, returnError) =
     bnd (mrh_GetStatus c handler) (\<lambda>r. case r of
       Inl err \<Rightarrow>
         process_mrhs c mrhs (add_response_msg (mrh_GetSubset handler) (''error fetching status: '' @ ErrorMsg err) response,
           SetIfNotMasking returnError (Some err))
     | Inr statuses \<Rightarrow>
         bnd (mrh_ApplyStatus c handler statuses) (\<lambda>r.
         let (response, returnError) = (case r of
               Some err \<Rightarrow> (add_response_msg (mrh_GetSubset handler) (''error updating status: '' @ ErrorMsg err) response,
                            SetIfNotMasking returnError (Some err))
             | None \<Rightarrow> (response, returnError))
         in process_mrhs c mrhs (fold (note_failed (mrh_GetSubset handler)) statuses response, returnError)))"

definition processHandlersStatus ::
  "'w Env \<Rightarrow> DeploymentHandler list \<Rightarrow> MRHandler list \<Rightarrow> ('w, processStatusesResponse \<times> goerror option) go" where
  "processHandlersStatus c srhs mrhs =
     bnd (process_srhs c srhs (\<lparr>psr_msgs = gm_make, psr_degraded = False, psr_nonReady = gm_make\<rparr>, \<lparr>nme_error = None\<rparr>)) (\<lambda>vars.
     bnd (process_mrhs c mrhs vars) (\<lambda>(response, returnError).
     ret (response, NonMaskingError_Get returnError)))"

section \<open>Reconcile\<close>

definition cleanup_removed :: "'w Env \<Rightarrow> SubsetType list \<Rightarrow> ('w, bool \<times> goerror option) go" where
  \<comment> \<open>\<open>cleanupInProgress\<close> and \<open>cleanupError\<close>\<close>
  "cleanup_removed c subsetsAndConsumers =
     bnd readDE (\<lambda>de.
     let toRemove = CheckForRemovedSubsetsAndConsumers de subsetsAndConsumers
     in if gm_len toRemove > 0 then RemoveSubsetsAndConsumers c toRemove else ret (False, None))"

definition global_state :: "bool \<Rightarrow> bool \<Rightarrow> NonMaskingError \<Rightarrow> GlobalReadyStatus" where
  "global_state nonReadyExists degradedExists returnError =
     (let globalState = Processing;
          globalState = (if \<not> nonReadyExists then Ready else globalState);
          globalState = (if degradedExists then Degraded else globalState)
      in if \<not> NonMaskingError_IsNil returnError then Degraded else globalState)"

definition finish :: "'w Env \<Rightarrow> nat \<Rightarrow> bool \<Rightarrow> ReconcileLoopStatus \<Rightarrow> ('w, Result \<times> goerror option) go" where
  \<comment> \<open>from the global state on\<close>
  "finish c totalCount nonReadyExists rls =
     (let globalState = global_state nonReadyExists (rls_degradedExists rls) (rls_returnError rls)
      in bnd (SyncSubsetMessagesToStatus c (rls_subsetMessages rls)) (\<lambda>_.
         bnd (SyncConsumerMessagesToStatus c (rls_consumerMessages rls)) (\<lambda>_.
         bnd (SetGlobalState c globalState (int totalCount) (int (gm_len (rls_nonReadyCS rls)))) (\<lambda>r.
         let returnError = (case r of Some err \<Rightarrow> SetIfNotMasking (rls_returnError rls) (Some err)
                                    | None \<Rightarrow> rls_returnError rls)
         in if nonReadyExists \<and> NonMaskingError_IsNil returnError then ret (\<lparr>Requeue = True\<rparr>, None)
            else if IsConflict (NonMaskingError_Get returnError) then ret (\<lparr>Requeue = True\<rparr>, None)
            else ret (Result_zero, NonMaskingError_Get returnError)))))"

definition reconcile_live :: "'w Env \<Rightarrow> DynamicEnvReconciler \<Rightarrow> ('w, Result \<times> goerror option) go" where
  \<comment> \<open>the part for an environment that is not being deleted, after its finalizers are ensured\<close>
  "reconcile_live c r =
     bnd readDE (\<lambda>de.
     let subsetsAndConsumers = mergeSubsetsAndConsumers (spec_Subsets (de_Spec de)) (spec_Consumers (de_Spec de))
     in bnd (cleanup_removed c subsetsAndConsumers) (\<lambda>(cleanupInProgress, cleanupError).
        bnd (processSubsetsAndConsumers c r) (\<lambda>(rls, deploymentHandlers, mrHandlers).
        let rls = (case cleanupError of
              Some err \<Rightarrow> rls\<lparr>rls_returnError := SetIfNotMasking (rls_returnError rls) (Some err)\<rparr>
            | None \<Rightarrow> rls)
        in bnd (processHandlersStatus c deploymentHandlers mrHandlers) (\<lambda>(response, err).
           let rls = (case err of
                 Some err \<Rightarrow> rls\<lparr>rls_returnError := SetIfNotMasking (rls_returnError rls) (Some err)\<rparr>
               | None \<Rightarrow> rls);
               nonReadyExists = (gm_len (psr_nonReady response) > 0 \<or> cleanupInProgress);
               rls = rls\<lparr>rls_nonReadyCS := gm_put_all (gm_list (psr_nonReady response)) (rls_nonReadyCS rls)\<rparr>
           in finish c (length subsetsAndConsumers) nonReadyExists rls))))"

definition reconcile_env :: "'w Env \<Rightarrow> DynamicEnvReconciler \<Rightarrow> ('w, Result \<times> goerror option) go" where
  "reconcile_env c r =
     bnd readDE (\<lambda>dynamicEnv.
     if markedForDeletion dynamicEnv then DeleteAllResources c
     else
       bnd (ensureFinalizers c) (\<lambda>res. case res of
         Some err \<Rightarrow> ret (Result_zero, Some err)
       | None \<Rightarrow> reconcile_live c r))"

definition Reconcile ::
  "'w Env \<Rightarrow> DynamicEnvReconciler \<Rightarrow> NamespacedName \<Rightarrow> 'w \<Rightarrow> (Result \<times> goerror option) outcome \<times> 'w" where
  "Reconcile c r req w =
     (case GetDynamicEnv c req w of
        (Inl err, w) \<Rightarrow>
          if IsNotFound err then (Done (Result_zero, None), w)
          else (Done (Result_zero, Some (Wrap ''failed to fetch dynamic environment'' err)), w)
      | (Inr dynamicEnv, w) \<Rightarrow>
          (case reconcile_env c r \<lparr>cur_de = dynamicEnv, world = w\<rparr> of (res, s) \<Rightarrow> (res, world s)))"

section \<open>What the loop over subsets and consumers establishes\<close>

text \<open>
  Every name that is marked as not ready, and every handler, belongs to one of the names \<open>N\<close>; and while no
  error is recorded, every subset and consumer handled so far has a deployment handler.
\<close>

definition overriding_key :: "NamespacedName \<Rightarrow> SubsetType \<Rightarrow> NamespacedName" where
  "overriding_key ident st = \<lparr>nn_Namespace = sub_Namespace (sbt_Subset st),
     nn_Name = sub_Name (sbt_Subset st) @ ''-'' @ UniqueDynamicEnvName ident\<rparr>"

definition names_inv :: "string set \<Rightarrow> loop_vars \<Rightarrow> bool" where
  "names_inv N = (\<lambda>(rls, dhs, mrhs). gm_ok (rls_nonReadyCS rls) \<and> set (gm_keys (rls_nonReadyCS rls)) \<subseteq> N \<and>
     (\<forall>h \<in> set dhs. dh_GetSubset h \<in> N) \<and> (\<forall>h \<in> set mrhs. mrh_GetSubset h \<in> N))"

definition covers :: "NamespacedName \<Rightarrow> SubsetType list \<Rightarrow> loop_vars \<Rightarrow> bool" where
  "covers ident sts = (\<lambda>(rls, dhs, mrhs). nme_error (rls_returnError rls) = None \<longrightarrow>
     (\<forall>st \<in> set sts. \<exists>h \<in> set dhs. dh_searchName h = overriding_key ident st))"

lemma rls_updates [simp]:
  "rls_returnError (add_subset_message app n m rls) = rls_returnError rls"
  "rls_nonReadyCS (add_subset_message app n m rls) = rls_nonReadyCS rls"
  "rls_nonReadyCS (force_error e rls) = rls_nonReadyCS rls"
  "nme_error (rls_returnError (force_error e rls)) = Some e"
  "rls_returnError (set_non_ready n rls) = rls_returnError rls"
  "rls_nonReadyCS (set_non_ready n rls) = gm_put n True (rls_nonReadyCS rls)"
  "rls_returnError (addDeploymentMessage rls n tpe m) = rls_returnError rls"
  "rls_nonReadyCS (addDeploymentMessage rls n tpe m) = rls_nonReadyCS rls"
  by (simp_all add: add_subset_message_def force_error_def set_non_ready_def addDeploymentMessage_def)

lemma dh_Handle_yields:
  fixes c :: "('w \<times> effect list) Env"
  shows "yields (dh_Handle c h) s (\<lambda>(h', err) t. dh_GetSubset h' = dh_GetSubset h \<and> dh_searchName h' = dh_searchName h)"
  by (rule yieldsI) (auto dest: dep_handler.subset_law dh_Handle_handler)

lemma drh_Handle_yields:
  fixes c :: "('w \<times> effect list) Env"
  shows "yields (drh_Handle c h) s (\<lambda>(h', err) t. drh_GetSubset h' = drh_GetSubset h)"
  by (rule yieldsI) (auto dest: dr_handler.subset_law)

lemma vsh_Handle_yields:
  fixes c :: "('w \<times> effect list) Env"
  shows "yields (vsh_Handle c h) s (\<lambda>(h', err) t. vsh_GetSubset h' = vsh_GetSubset h)"
  by (rule yieldsI) (auto dest: vs_handler.subset_law)

lemma new_handler_names [simp]:
  "dh_GetSubset (NewDeploymentHandler data dt ls vl) = MKSubsetName (rd_Subset data)"
  "drh_GetSubset (NewDestinationRuleHandler data vl dv hosts) = MKSubsetName (rd_Subset data)"
  "vsh_GetSubset (NewVirtualServiceHandler data hosts dv) = MKSubsetName (rd_Subset data)"
  by (simp_all add: dh_GetSubset_def NewDeploymentHandler_def drh_GetSubset_def NewDestinationRuleHandler_def
      vsh_GetSubset_def NewVirtualServiceHandler_def Let_def)

lemma new_handler_key:
  "dh_searchName (NewDeploymentHandler \<lparr>rd_Identifier = ident, rd_BaseDeployment = b, rd_Subset = sbt_Subset st,
     rd_Matches = ms\<rparr> dt ls vl) = overriding_key ident st"
  by (simp add: dh_searchName_def NewDeploymentHandler_def overriding_key_def MkSubsetUniqueName_def Let_def)

lemma process_mesh_inv:
  fixes c :: "('w \<times> effect list) Env"
  assumes "names_inv N vars" and "MKSubsetName (rd_Subset data) \<in> N"
  shows "yields (process_mesh c r data hosts vars) s (\<lambda>vars' t. names_inv N vars' \<and>
    fst (snd vars') = fst (snd vars) \<and>
    (nme_error (rls_returnError (fst vars')) = None \<longrightarrow> nme_error (rls_returnError (fst vars)) = None))"
proof -
  obtain rls dhs mrhs where vars: "vars = (rls, dhs, mrhs)" by (cases vars)
  have name: "drh_GetSubset (NewDestinationRuleHandler data vl dv hosts) \<in> N"
    "vsh_GetSubset (NewVirtualServiceHandler data hosts dv) \<in> N" for vl dv
    using assms(2) by simp_all
  show ?thesis
    unfolding process_mesh_def vars Let_def prod.case yields_bnd
    apply (rule yields_mono [OF drh_Handle_yields], clarify)
    subgoal for t d err
      using assms name
      by (cases err; simp only: option.case yields_simps prod.case fst_conv snd_conv)
        (auto simp: names_inv_def vars yields_simps intro!: yields_mono [OF vsh_Handle_yields] split: option.split)
    done
qed

lemma covers_snoc:
  assumes "covers ident sts (rls, dhs, mrhs)" and "dh_searchName h = overriding_key ident st"
    and "nme_error (rls_returnError rls') = None \<longrightarrow> nme_error (rls_returnError rls) = None"
  shows "covers ident (sts @ [st]) (rls', dhs @ [h], mrhs')"
  using assms by (auto simp: covers_def)

lemma process_one_inv:
  fixes c :: "('w \<times> effect list) Env"
  assumes "names_inv N vars" and "covers ident sts vars" and "MKSubsetName (sbt_Subset st) \<in> N"
  shows "yields (process_one c r ident st vars) s (\<lambda>vars' t. names_inv N vars' \<and> covers ident (sts @ [st]) vars')"
proof -
  obtain rls dhs mrhs where vars: "vars = (rls, dhs, mrhs)" by (cases vars)
  let ?P = "\<lambda>vars' t. names_inv N vars' \<and> covers ident (sts @ [st]) vars'"
  let ?data = "\<lambda>b u. \<lparr>rd_Identifier = ident, rd_BaseDeployment = b, rd_Subset = sbt_Subset st,
      rd_Matches = IstioMatches_list (de_Spec (cur_de u))\<rparr>"
  have mesh: "yields (process_mesh c r (?data b u) hosts (rls, dhs @ [h], mrhs)) t ?P"
    if "dh_GetSubset h = MKSubsetName (sbt_Subset st)" "dh_searchName h = overriding_key ident st" for h b u hosts t
  proof (rule yields_mono [OF process_mesh_inv])
    show "names_inv N (rls, dhs @ [h], mrhs)" using assms(1,3) vars that by (auto simp: names_inv_def)
    show "MKSubsetName (rd_Subset (?data b u)) \<in> N" using assms(3) by simp
    show "?P vars' t" if "names_inv N vars' \<and> fst (snd vars') = fst (snd (rls, dhs @ [h], mrhs)) \<and>
        (nme_error (rls_returnError (fst vars')) = None \<longrightarrow>
         nme_error (rls_returnError (fst (rls, dhs @ [h], mrhs))) = None)" for vars' t
      using that assms(2) vars covers_snoc [OF _ \<open>dh_searchName h = _\<close>, of sts rls dhs mrhs]
      by (cases vars') auto
  qed
  have plain: "?P (rls', dhs @ [h], mrhs) t"
    if "dh_GetSubset h = MKSubsetName (sbt_Subset st)" "dh_searchName h = overriding_key ident st"
      "rls_nonReadyCS rls' = rls_nonReadyCS rls"
      "nme_error (rls_returnError rls') = None \<longrightarrow> nme_error (rls_returnError rls) = None" for h rls' t
    using that assms vars covers_snoc by (auto simp: names_inv_def)
  have missing: "?P (set_non_ready (MKSubsetName (sbt_Subset st)) (addDeploymentMessage (force_error e rls) n tpe m), dhs, mrhs) t"
    for e n tpe m t
    using assms vars by (auto simp: names_inv_def covers_def)
  show ?thesis
    unfolding process_one_def vars Let_def prod.case yields_bnd
    apply (simp only: yields_call split_beta, rule yields_sum)
    subgoal by (simp only: yields_simps) (rule missing)
    subgoal for b
      apply (simp only: yields_simps)
      apply (rule yields_mono [OF dh_Handle_yields], clarsimp simp only: new_handler_key new_handler_names
          DynamicEnvReconcileData.simps split_conv)
      subgoal for t h err
        apply (rule yields_option)
         apply (rule yields_if; simp only: yields_simps)
          apply (rule yields_mono [OF yields_any], rule yields_sum; (simp only: yields_simps)?)
           apply (rule plain; simp)
          apply (rule mesh; assumption)
         apply (rule plain; simp)
        apply (simp only: yields_simps, rule plain; simp)
        done
      done
    done
qed

lemma process_loop_inv:
  fixes c :: "('w \<times> effect list) Env"
  shows "names_inv N vars \<Longrightarrow> covers ident sts vars \<Longrightarrow> (\<lambda>st. MKSubsetName (sbt_Subset st)) ` set sts' \<subseteq> N \<Longrightarrow>
    yields (process_loop c r ident sts' vars) s (\<lambda>vars' t. names_inv N vars' \<and> covers ident (sts @ sts') vars')"
proof (induction sts' arbitrary: vars sts s)
  case (Cons st sts')
  have rest: "yields (process_loop c r ident sts' vars') t
      (\<lambda>vars'' t. names_inv N vars'' \<and> covers ident (sts @ st # sts') vars'')"
    if "names_inv N vars' \<and> covers ident (sts @ [st]) vars'" for vars' t
    using Cons.IH [of vars' "sts @ [st]" t] Cons.prems(3) that by simp
  show ?case
    using Cons.prems by (auto simp: yields_simps intro!: yields_mono [OF process_one_inv] rest)
qed (simp add: yields_simps)

end
