(* ===== verification/Reconcile_Correct.thy ===== *)
theory Reconcile_Correct
  imports Controller "HOL-Library.Multiset"
begin

text \<open>
  What a call of \<open>Reconcile\<close> guarantees: what the state it reports means, that it reports counts that add up,
  and what it does for an environment that is gone or is being deleted. The runs are runs in \<open>traced c\<close>,
  so the theorems speak of the requests made in one call and of the answers they got.
\<close>

section \<open>What was seen of a deployment\<close>

definition available :: "Deployment \<Rightarrow> bool" where
  \<comment> \<open>the most recent \<open>Progressing\<close> condition says that the new replica set is available\<close>
  "available d \<longleftrightarrow> (\<exists>x. latest DeploymentProgressing (dep_Conditions d) x \<and>
     dc_Status x = ConditionTrue \<and> dc_Reason x = ''NewReplicaSetAvailable'')"

definition seen_available :: "NamespacedName \<Rightarrow> effect list \<Rightarrow> bool" where
  "seen_available key es \<longleftrightarrow> (\<exists>d. GotDeployment key (Inr d) \<in> set es \<and> available d)"

lemma seen_available_append [simp]: "seen_available key es \<Longrightarrow> seen_available key (es @ fs)"
  by (auto simp: seen_available_def)

lemma seen_available_mono: "seen_available key es \<Longrightarrow> set es \<subseteq> set fs \<Longrightarrow> seen_available key fs"
  by (auto simp: seen_available_def)

lemma yields_log:
  assumes "does A m" and "yields m s Q"
  shows "yields m s (\<lambda>x t. Q x t \<and> (\<exists>es. log_of t = log_of s @ es))"
  using assms unfolding yields_def by (meson doesD)

lemma dh_GetStatus_seen:
  "yields (dh_GetStatus (traced c) h) s (\<lambda>r t. (\<exists>es. log_of t = log_of s @ es) \<and>
     (\<forall>st. r = Inr st \<longrightarrow> rs_Status st = Running \<longrightarrow> seen_available (dh_searchName h) (log_of t)))"
proof -
  obtain w es where w: "world s = (w, es)" by (cases "world s")
  obtain r w' where get: "GetDeployment c (dh_searchName h) w = (r, w')" by fastforce
  show ?thesis
  proof (cases r)
    case (Inl e)
    with w get show ?thesis by (simp add: dh_GetStatus_def yields_simps log_call_eq dh_status_def)
  next
    case (Inr d)
    show ?thesis
    proof (cases rule: getMostRecent_cases [of DeploymentProgressing "dep_Conditions d"])
      case 1
      with w get Inr show ?thesis by (simp add: dh_GetStatus_def yields_simps log_call_eq dh_status_def)
    next
      case (2 x)
      with w get Inr show ?thesis
        by (auto simp: dh_GetStatus_def yields_simps log_call_eq dh_status_def seen_available_def available_def)
    qed
  qed
qed

section \<open>The statuses of the handlers\<close>

text \<open>
  Every name that is marked belongs to one of the names \<open>N\<close>; and while there is no error and no name is
  marked, the deployments of all handlers asked so far were seen available.
\<close>

definition status_inv :: "string set \<Rightarrow> DeploymentHandler list \<Rightarrow> status_vars \<Rightarrow> effect list \<Rightarrow> bool" where
  "status_inv N hs = (\<lambda>(response, err) es. gm_ok (psr_nonReady response) \<and> set (gm_keys (psr_nonReady response)) \<subseteq> N \<and>
     (nme_error err = None \<and> gm_len (psr_nonReady response) = 0 \<longrightarrow>
        (\<forall>h \<in> set hs. seen_available (dh_searchName h) es)))"

lemma status_inv_append: "status_inv N hs vars es \<Longrightarrow> status_inv N hs vars (es @ fs)"
  by (auto simp: status_inv_def)

lemma psr_updates [simp]:
  "psr_nonReady (add_response_msg n m resp) = psr_nonReady resp"
  by (simp add: add_response_msg_def)

lemma gm_len_put [simp]: "gm_len (gm_put k v m) \<noteq> 0"
  by (metis gm_keys_put gm_len_zero insert_not_empty list.set(1))

lemma status_inv_error:
  assumes "status_inv N hs (response, err) es"
  shows "status_inv N hs' (add_response_msg n m response, SetIfNotMasking err (Some e)) (es @ fs)"
  using assms by (auto simp: status_inv_def split: option.splits)

lemma does_dh_GetStatus: "does is_read (dh_GetStatus (traced c) h)"
  by (rule dep_handler.get_law)

lemma does_dh_ApplyStatus: "does is_status (dh_ApplyStatus (traced c) h st)"
  by (rule dep_handler.apply_law)

lemma process_srhs_inv:
  "status_inv N hs vars (log_of s) \<Longrightarrow> \<forall>h \<in> set hs'. dh_GetSubset h \<in> N \<Longrightarrow>
   yields (process_srhs (traced c) hs' vars) s (\<lambda>vars' t. status_inv N (hs @ hs') vars' (log_of t))"
proof (induction hs' arbitrary: hs vars s)
  case (Cons h hs')
  obtain response err where vars: "vars = (response, err)" by (cases vars)
  have rest: "yields (process_srhs (traced c) hs' vars') t
      (\<lambda>vars'' t. status_inv N (hs @ h # hs') vars'' (log_of t))"
    if "status_inv N (hs @ [h]) vars' (log_of t)" for vars' t
    using Cons.IH [OF that] Cons.prems(2) by simp
  note inv = Cons.prems(1) [unfolded vars]
  show ?case
    unfolding vars process_srhs.simps yields_bnd
    apply (rule yields_mono [OF dh_GetStatus_seen], clarify)
    apply (rule yields_sum)
    subgoal by (rule rest) (metis status_inv_error [OF inv])
    subgoal for r t es st
      unfolding yields_bnd
      apply (rule yields_mono [OF yields_log [OF does_dh_ApplyStatus yields_any]], clarify)
      unfolding Let_def split_beta
      apply (rule rest)
      using inv Cons.prems(2) by (auto simp: status_inv_def split: option.splits elim: seen_available_mono)
    done
qed (simp add: yields_simps)

lemma fold_note_failed:
  assumes "n \<in> N" and "gm_ok (psr_nonReady resp)" and "set (gm_keys (psr_nonReady resp)) \<subseteq> N"
  shows "gm_ok (psr_nonReady (fold (note_failed n) sts resp)) \<and>
    set (gm_keys (psr_nonReady (fold (note_failed n) sts resp))) \<subseteq> N \<and>
    (gm_len (psr_nonReady (fold (note_failed n) sts resp)) = 0 \<longrightarrow> gm_len (psr_nonReady resp) = 0)"
  using assms(2,3)
proof (induction sts arbitrary: resp)
  case (Cons st sts)
  have "gm_ok (psr_nonReady (note_failed n st resp))" "set (gm_keys (psr_nonReady (note_failed n st resp))) \<subseteq> N"
    "gm_len (psr_nonReady (note_failed n st resp)) = 0 \<longrightarrow> gm_len (psr_nonReady resp) = 0"
    using Cons.prems assms(1) by (auto simp: note_failed_def)
  with Cons.IH [of "note_failed n st resp"] show ?case by simp
qed simp

lemma status_inv_fold:
  assumes "status_inv N hs (resp, err) es" and "n \<in> N"
  shows "status_inv N hs (fold (note_failed n) sts resp, err) es"
  using assms fold_note_failed [OF assms(2), of resp sts] by (auto simp: status_inv_def)

lemma does_mrh_GetStatus: "does is_read (mrh_GetStatus (traced c) h)"
  by (cases h) (simp_all add: dr_handler.get_law vs_handler.get_law)

lemma does_mrh_ApplyStatus: "does is_status (mrh_ApplyStatus (traced c) h sts)"
  by (cases h) (simp_all add: dr_handler.apply_law vs_handler.apply_law)

lemma process_mrhs_inv:
  "status_inv N hs vars (log_of s) \<Longrightarrow> \<forall>h \<in> set mrhs. mrh_GetSubset h \<in> N \<Longrightarrow>
   yields (process_mrhs (traced c) mrhs vars) s (\<lambda>vars' t. status_inv N hs vars' (log_of t))"
proof (induction mrhs arbitrary: vars s)
  case (Cons h mrhs)
  obtain response err where vars: "vars = (response, err)" by (cases vars)
  have rest: "yields (process_mrhs (traced c) mrhs vars') t (\<lambda>vars'' t. status_inv N hs vars'' (log_of t))"
    if "status_inv N hs vars' (log_of t)" for vars' t
    using Cons.IH [OF that] Cons.prems(2) by simp
  note inv = Cons.prems(1) [unfolded vars]
  have name: "mrh_GetSubset h \<in> N" using Cons.prems(2) by simp
  show ?case
    unfolding vars process_mrhs.simps yields_bnd
    apply (rule yields_mono [OF yields_log [OF does_mrh_GetStatus yields_any]], clarify)
    apply (rule yields_sum)
    subgoal by (rule rest) (metis status_inv_error [OF inv])
    subgoal for r t es sts
      unfolding yields_bnd
      apply (rule yields_mono [OF yields_log [OF does_mrh_ApplyStatus yields_any]], clarify)
      unfolding Let_def split_beta
      apply (rule rest, rule status_inv_fold [OF _ name])
      subgoal for e t' fs
        using status_inv_append [OF inv, of "es @ fs"] status_inv_error [OF inv, where fs = "es @ fs"]
        by (cases e) simp_all
      done
    done
qed (simp add: yields_simps)

lemma processHandlersStatus_inv:
  assumes "\<forall>h \<in> set hs. dh_GetSubset h \<in> N" and "\<forall>h \<in> set mrhs. mrh_GetSubset h \<in> N"
  shows "yields (processHandlersStatus (traced c) hs mrhs) s
    (\<lambda>(response, err) t. status_inv N hs (response, \<lparr>nme_error = err\<rparr>) (log_of t))"
  unfolding processHandlersStatus_def yields_bnd
  apply (rule yields_mono [OF process_srhs_inv [where hs = "[]" and N = N, OF _ assms(1)]])
   apply (simp add: status_inv_def gm_make_def gm_ok_def gm_keys_def)
  apply (rule yields_mono [OF process_mrhs_inv [OF _ assms(2)]])
   apply simp
  apply (clarsimp simp: yields_simps NonMaskingError_Get_def status_inv_def)
  done

section \<open>The report\<close>

lemma does_SyncGlobalErrors [does_intro]: "does A (SyncGlobalErrors (traced c) msg errs)"
proof -
  have "does A (refresh_errors (traced c) msg errs)" for errs
    by (induction errs) (auto intro!: does_intro does_silent)
  then show ?thesis unfolding SyncGlobalErrors_def by (intro does_intro)
qed

lemma does_sync_messages [does_intro]: "does A (sync_messages (traced c) msgs errs)"
  by (induction msgs arbitrary: errs) (auto intro!: does_intro)

lemma does_SyncSubsetMessages: "does A (SyncSubsetMessagesToStatus (traced c) messages)"
proof -
  have "does A (sync_subset (traced c) n m)" for n m
    unfolding sync_subset_def by (intro does_intro)
  then have "does A (sync_subsets (traced c) messages keys)" for keys
    by (induction keys) (auto intro!: does_intro)
  then show ?thesis unfolding SyncSubsetMessagesToStatus_def by (intro does_intro)
qed

lemma does_SyncConsumerMessages: "does A (SyncConsumerMessagesToStatus (traced c) messages)"
proof -
  have "does A (sync_consumer (traced c) n m)" for n m
    unfolding sync_consumer_def by (intro does_intro)
  then have "does A (sync_consumers (traced c) messages keys)" for keys
    by (induction keys) (auto intro!: does_intro)
  then show ?thesis unfolding SyncConsumerMessagesToStatus_def by (intro does_intro)
qed

lemma yields_no_request:
  assumes "\<And>A. does A m"
  shows "yields m s (\<lambda>x t. log_of t = log_of s)"
proof (rule yieldsI)
  fix x t assume "m s = (Done x, t)"
  with assms [of "\<lambda>_. False"] show "log_of t = log_of s"
    by (auto elim!: doesD simp: list_all_iff)
qed

text \<open>What the last request of a run says, and what \<open>Reconcile\<close> returns after it.\<close>

definition report :: "nat \<Rightarrow> bool \<Rightarrow> ReconcileLoopStatus \<Rightarrow> DynamicEnv \<Rightarrow> bool" where
  "report n nonReady rls de \<longleftrightarrow>
     st_State (de_Status de) = global_state nonReady (rls_degradedExists rls) (rls_returnError rls) \<and>
     st_TotalCount (de_Status de) = int n \<and>
     st_TotalReady (de_Status de) = int n - int (gm_len (rls_nonReadyCS rls))"

definition answer :: "bool \<Rightarrow> goerror option \<Rightarrow> Result \<times> goerror option" where
  "answer nonReady err =
     (if nonReady \<and> err = None \<or> IsConflict err then (\<lparr>Requeue = True\<rparr>, None) else (Result_zero, err))"

lemma SetGlobalState_yields:
  "yields (SetGlobalState (traced c) g n m) s (\<lambda>e t. \<exists>de. log_of t = log_of s @ [UpdatedStatus de e] \<and>
     st_State (de_Status de) = g \<and> st_TotalCount (de_Status de) = n \<and> st_TotalReady (de_Status de) = n - m)"
  unfolding SetGlobalState_def yields_bnd yields_modifyStatus
  by (rule yieldsI)
    (auto simp: StatusUpdate_def write_back_apply log_call_def split: prod.splits)

lemma finish_report:
  "yields (finish (traced c) n nonReady rls) s (\<lambda>r t. \<exists>de e.
     log_of t = log_of s @ [UpdatedStatus de e] \<and> report n nonReady rls de \<and>
     r = answer nonReady (case nme_error (rls_returnError rls) of None \<Rightarrow> e | Some x \<Rightarrow> Some x))"
  unfolding finish_def Let_def yields_bnd
  apply (rule yields_mono [OF yields_no_request [OF does_SyncSubsetMessages]])
  apply (rule yields_mono [OF yields_no_request [OF does_SyncConsumerMessages]])
  apply (rule yields_mono [OF SetGlobalState_yields], clarify)
  subgoal for x t y u e v de
    by (intro yields_if; simp only: yields_simps)
      (auto simp: report_def answer_def NonMaskingError_IsNil_def NonMaskingError_Get_def split: option.splits)
  done

section \<open>The spec is kept\<close>

text \<open>
  Documented behaviour of updates: the answer to an update of the object, or of its status, carries the
  object's name and spec as they were sent.
\<close>

definition spec_echoes :: "'w Env \<Rightarrow> bool" where
  "spec_echoes c \<longleftrightarrow> (\<forall>de w. let de' = snd (fst (UpdateDynamicEnv c de w)); de'' = snd (fst (UpdateDynamicEnvStatus c de w))
     in de_Spec de' = de_Spec de \<and> de_ident de' = de_ident de \<and> de_Spec de'' = de_Spec de \<and> de_ident de'' = de_ident de)"

definition same_env :: "DynamicEnv \<Rightarrow> 'w loop_state \<Rightarrow> bool" where
  "same_env de s \<longleftrightarrow> de_Spec (cur_de s) = de_Spec de \<and> de_ident (cur_de s) = de_ident de"

lemma keeps_same_env:
  assumes "spec_echoes c"
  shows "keeps (same_env de) (StatusUpdate (traced c))" "keeps (same_env de) (UpdateDE (traced c))"
  using assms
  by (auto simp: keeps_def same_env_def StatusUpdate_def UpdateDE_def write_back_apply log_call_def spec_echoes_def
      Let_def split: prod.splits) (metis fst_conv snd_conv)+

lemma keeps_same_env_basic [keeps_intro]:
  "keeps (same_env de) (call f)" "keeps (same_env de) (modifyStatus g)"
  by (auto simp: keeps_def same_env_def call_apply de_ident_def split: prod.splits)

lemma keeps_assign [keeps_intro]:
  "keeps (same_env de) (assignSubsetStatus k v)" "keeps (same_env de) (assignConsumerStatus k u)"
  unfolding assignSubsetStatus_def assignConsumerStatus_def by (intro keeps_intro)+

lemma keeps_reads_only: "reads_only m \<Longrightarrow> keeps (same_env de) m"
  unfolding reads_only_def keeps_def same_env_def by metis

lemma removeConsumer_same_env: "spec_echoes c \<Longrightarrow> keeps (same_env de) (removeConsumer (traced c) n)"
  unfolding removeConsumer_def deleteDeployment_def by (intro keeps_intro keeps_same_env)

lemma removeSubset_same_env: "spec_echoes c \<Longrightarrow> keeps (same_env de) (removeSubset (traced c) n)"
  unfolding removeSubset_def
  by (intro keeps_intro keeps_same_env keeps_reads_only [OF remove_subset_resources_reads])

lemma cleanup_removed_same_env: "spec_echoes c \<Longrightarrow> keeps (same_env de) (cleanup_removed (traced c) sts)"
proof -
  assume c: "spec_echoes c"
  have "keeps (same_env de) (remove_all (traced c) m names b)" for m names b
    by (induction names arbitrary: b)
      (auto intro!: keeps_intro removeConsumer_same_env [OF c] removeSubset_same_env [OF c])
  then show ?thesis
    unfolding cleanup_removed_def RemoveSubsetsAndConsumers_def by (intro keeps_intro)
qed

lemma ensureFinalizers_same_env:
  assumes "spec_echoes c" and "same_env de s"
  shows "yields (ensureFinalizers (traced c)) s (\<lambda>r t. same_env de t)"
proof -
  have "same_env de (s\<lparr>cur_de := (cur_de s)\<lparr>de_Finalizers := fs\<rparr>\<rparr>)" for fs
    using assms(2) by (simp add: same_env_def de_ident_def)
  then have upd: "yields (UpdateDE (traced c)) (s\<lparr>cur_de := (cur_de s)\<lparr>de_Finalizers := fs\<rparr>\<rparr>) (\<lambda>r. same_env de)" for fs
    using keeps_same_env(2) [OF assms(1)] by (auto simp: yields_def dest: keepsD)
  then show ?thesis
    unfolding ensureFinalizers_def
    by (auto simp: yields_simps assms(2) intro!: yields_mono [OF upd] yields_option)
qed

section \<open>A run for an environment that is not being deleted\<close>

abbreviation subsets_and_consumers :: "DynamicEnv \<Rightarrow> SubsetType list" where
  "subsets_and_consumers de \<equiv> mergeSubsetsAndConsumers (spec_Subsets (de_Spec de)) (spec_Consumers (de_Spec de))"

abbreviation names_of :: "DynamicEnv \<Rightarrow> string set" where
  "names_of de \<equiv> (\<lambda>st. MKSubsetName (sbt_Subset st)) ` set (subsets_and_consumers de)"

lemma processSubsetsAndConsumers_inv:
  fixes c :: "('w \<times> effect list) Env"
  assumes "same_env de s"
  shows "yields (processSubsetsAndConsumers c r) s (\<lambda>vars t. names_inv (names_of de) vars \<and>
    covers (de_ident de) (subsets_and_consumers de) vars)"
proof -
  have "names_inv N (ReconcileLoopStatus_new, [], [])" "covers (de_ident de) [] (ReconcileLoopStatus_new, [], [])" for N
    by (simp_all add: names_inv_def covers_def ReconcileLoopStatus_new_def gm_keys_def gm_make_def gm_ok_def)
  from process_loop_inv [OF this order.refl] assms show ?thesis
    by (simp add: processSubsetsAndConsumers_def yields_simps same_env_def)
qed

text \<open>
  \<open>reported de nde e res es\<close>: after the requests \<open>es\<close> of a run for \<open>de\<close>, the status of \<open>nde\<close> is sent and answered
  with \<open>e\<close>, and the run returns \<open>res\<close>.
\<close>

definition reported ::
  "DynamicEnv \<Rightarrow> DynamicEnv \<Rightarrow> goerror option \<Rightarrow> Result \<times> goerror option \<Rightarrow> effect list \<Rightarrow> bool" where
  "reported de nde e res es \<longleftrightarrow>
     st_TotalCount (de_Status nde) = int (length (subsets_and_consumers de)) \<and>
     0 \<le> st_TotalReady (de_Status nde) \<and> st_TotalReady (de_Status nde) \<le> st_TotalCount (de_Status nde) \<and>
     (st_State (de_Status nde) = Ready \<longrightarrow> res = answer False e \<and>
        (\<forall>st \<in> set (subsets_and_consumers de). seen_available (overriding_key (de_ident de) st) es)) \<and>
     (st_State (de_Status nde) = Processing \<longrightarrow> res = answer True e)"

lemma gm_list_keys: "fst ` set (gm_list m) = set (gm_keys m)"
  by (simp add: gm_keys_def)

lemma count_bound:
  assumes "gm_ok m" and "set (gm_keys m) \<subseteq> f ` set xs"
  shows "gm_len m \<le> length xs"
proof -
  have "gm_len m = card (set (gm_keys m))" using assms(1) by (rule gm_len_card)
  also have "\<dots> \<le> card (f ` set xs)" using assms(2) by (simp add: card_mono)
  also have "\<dots> \<le> length xs" by (metis card_length card_image_le finite_set le_trans)
  finally show ?thesis .
qed

lemma keeps_yields: "keeps I m \<Longrightarrow> I s \<Longrightarrow> yields m s (\<lambda>x t. I t)"
  by (auto simp: yields_def dest: keepsD)

lemma global_state_cases:
  "global_state nonReady degraded err = Ready \<longleftrightarrow> nme_error err = None \<and> \<not> nonReady \<and> \<not> degraded"
  "global_state nonReady degraded err = Processing \<longleftrightarrow> nme_error err = None \<and> nonReady \<and> \<not> degraded"
  by (auto simp: global_state_def NonMaskingError_IsNil_def Ready_def Processing_def Degraded_def)

lemma reported_step:
  assumes "names_inv (names_of de) (rls, dhs, mrhs)" and "covers (de_ident de) (subsets_and_consumers de) (rls, dhs, mrhs)"
    and "status_inv (names_of de) dhs (response, \<lparr>nme_error = err\<rparr>) es"
    and "report (length (subsets_and_consumers de)) nonReady rls' nde"
    and "res = answer nonReady (case nme_error (rls_returnError rls') of None \<Rightarrow> e | Some x \<Rightarrow> Some x)"
    and "nonReady \<longleftrightarrow> gm_len (psr_nonReady response) > 0 \<or> cleanup"
    and "rls_nonReadyCS rls' = gm_put_all (gm_list (psr_nonReady response)) (rls_nonReadyCS rls)"
    and "nme_error (rls_returnError rls') = None \<longrightarrow> nme_error (rls_returnError rls) = None \<and> err = None"
  shows "reported de nde e res es"
proof -
  have "gm_ok (rls_nonReadyCS rls')" "set (gm_keys (rls_nonReadyCS rls')) \<subseteq> names_of de"
    using assms(1,3,7) by (auto simp: names_inv_def status_inv_def gm_list_keys)
  from count_bound [OF this] have bound: "gm_len (rls_nonReadyCS rls') \<le> length (subsets_and_consumers de)" .
  have "\<exists>h \<in> set dhs. dh_searchName h = overriding_key (de_ident de) st"
    if "nme_error (rls_returnError rls') = None" "st \<in> set (subsets_and_consumers de)" for st
    using assms(2,8) that by (simp add: covers_def)
  moreover have "\<forall>h \<in> set dhs. seen_available (dh_searchName h) es"
    if "nme_error (rls_returnError rls') = None" "\<not> nonReady"
    using assms(3,6,8) that by (simp add: status_inv_def)
  ultimately have seen: "seen_available (overriding_key (de_ident de) st) es"
    if "nme_error (rls_returnError rls') = None" "\<not> nonReady" "st \<in> set (subsets_and_consumers de)" for st
    using that by metis
  show ?thesis
    using assms(4,5) bound seen by (auto simp: reported_def report_def global_state_cases)
qed

lemma reconcile_live_reported:
  assumes "spec_echoes c" and "same_env de s"
  shows "yields (reconcile_live (traced c) r) s (\<lambda>res t. \<exists>es nde e. log_of t = es @ [UpdatedStatus nde e] \<and>
    reported de nde e res es)"
proof -
  have sts: "mergeSubsetsAndConsumers (spec_Subsets (de_Spec (cur_de s))) (spec_Consumers (de_Spec (cur_de s))) =
      subsets_and_consumers de"
    using assms(2) by (simp add: same_env_def)
  show ?thesis
    unfolding reconcile_live_def yields_bnd yields_readDE Let_def sts
    apply (rule yields_mono [OF keeps_yields [OF cleanup_removed_same_env [OF assms(1)] assms(2)]], clarify)
    apply (simp only: yields_bnd, rule yields_mono [OF processSubsetsAndConsumers_inv], assumption, clarify)
    apply (simp only: yields_bnd, rule yields_mono [OF processHandlersStatus_inv [where N = "names_of de"]])
      apply (simp add: names_inv_def, simp add: names_inv_def, clarify)
    apply (rule yields_mono [OF finish_report], clarify)
    apply (intro exI conjI, assumption, erule (4) reported_step)
      apply (simp_all split: option.splits)
    done
qed

section \<open>Which resources a run writes\<close>

text \<open>
  A deployment that is created or updated is the overriding deployment of one of the subsets and consumers,
  owned by the environment, and a destination rule that is created is in the namespace of one of them, owned by the environment, and
  has one subset, the environment's version. A request of a clean-up creates nothing and updates no deployment.
\<close>

definition own_writes :: "NamespacedName \<Rightarrow> SubsetType list \<Rightarrow> effect \<Rightarrow> bool" where
  "own_writes ident sts e = (case e of
     CreatedDeployment d _ \<Rightarrow> meta_key (dep_Meta d) \<in> overriding_key ident ` set sts \<and>
       om_Annotations (dep_Meta d) = AddToAnnotation ident None
   | UpdatedDeployment d _ \<Rightarrow> meta_key (dep_Meta d) \<in> overriding_key ident ` set sts \<and>
       om_Annotations (dep_Meta d) = AddToAnnotation ident None
   | CreatedDestinationRule d _ \<Rightarrow> dr_Namespace d \<in> (\<lambda>st. sub_Namespace (sbt_Subset st)) ` set sts \<and>
       om_Annotations (dr_Meta d) = AddToAnnotation ident None \<and> map is_Name (dr_Subsets d) = [UniqueDynamicEnvName ident]
   | _ \<Rightarrow> True)"

fun is_cleanup :: "effect \<Rightarrow> bool" where
  "is_cleanup (CreatedDeployment _ _) = False"
| "is_cleanup (UpdatedDeployment _ _) = False"
| "is_cleanup (CreatedDestinationRule _ _) = False"
| "is_cleanup (UpdatedStatus _ _) = False"
| "is_cleanup _ = True"

lemma own_writes_weaken:
  "is_cleanup e \<Longrightarrow> own_writes ident sts e" "is_status e \<Longrightarrow> own_writes ident sts e" "is_read e \<Longrightarrow> own_writes ident sts e"
  by (cases e; simp add: own_writes_def)+

lemma own_deployment_writes:
  "own_deployment h e \<Longrightarrow> dh_searchName h \<in> overriding_key ident ` set sts \<Longrightarrow> dh_Owner h = ident \<Longrightarrow>
   own_writes ident sts e"
  by (cases e) (simp_all add: own_deployment_def own_writes_def)

lemma own_destination_rule_writes:
  "own_destination_rule (NewDestinationRuleHandler data vl dv hosts) e \<Longrightarrow> rd_Identifier data = ident \<Longrightarrow>
   rd_Subset data \<in> sbt_Subset ` set sts \<Longrightarrow> own_writes ident sts e"
  by (cases e) (auto simp: own_destination_rule_def own_rule_def own_writes_def NewDestinationRuleHandler_def
      drh_key_def Let_def)

lemma own_virtual_service_writes: "own_virtual_service i e \<Longrightarrow> own_writes ident sts e"
  by (cases e) (simp_all add: own_virtual_service_def own_writes_def)

text \<open>The requests of a call from one state, also when it panics.\<close>

definition logs :: "(effect \<Rightarrow> bool) \<Rightarrow> ('w \<times> effect list, 'a) go \<Rightarrow> ('w \<times> effect list) loop_state \<Rightarrow> bool" where
  "logs A m s \<longleftrightarrow> (\<exists>es. log_of (snd (m s)) = log_of s @ es \<and> list_all A es)"

lemma does_logs: "does A m \<Longrightarrow> logs A m s"
  by (simp add: does_def logs_def)

lemma logs_bnd:
  assumes "logs A m s" and "yields m s (\<lambda>x t. logs A (f x) t)"
  shows "logs A (bnd m f) s"
  using assms unfolding logs_def yields_def bnd_apply by (fastforce split: prod.splits outcome.splits)

lemma process_mesh_writes:
  assumes "rd_Identifier data = ident" and "rd_Subset data \<in> sbt_Subset ` set sts"
  shows "does (own_writes ident sts) (process_mesh (traced c) r data hosts vars)"
proof -
  have drh: "does (own_writes ident sts) (drh_Handle (traced c) (NewDestinationRuleHandler data vl dv hosts))" for vl dv
    by (rule does_weaken [OF dr_handler.handle_law own_destination_rule_writes [OF _ assms]])
  have vsh: "does (own_writes ident sts) (vsh_Handle (traced c) h)" for h
    by (rule does_weaken [OF vs_handler.handle_law own_virtual_service_writes])
  show ?thesis
    unfolding process_mesh_def by (intro does_intro drh vsh)
qed

lemma process_one_writes:
  assumes "st \<in> set sts"
  shows "does (own_writes ident sts) (process_one (traced c) r ident st vars)"
proof -
  let ?data = "\<lambda>b ms. \<lparr>rd_Identifier = ident, rd_BaseDeployment = b, rd_Subset = sbt_Subset st, rd_Matches = ms\<rparr>"
  have key: "dh_searchName (NewDeploymentHandler (?data b ms) dt ls vl) \<in> overriding_key ident ` set sts" for b ms dt ls vl
    using assms by (simp add: new_handler_key)
  have dh: "does (own_writes ident sts) (dh_Handle (traced c) (NewDeploymentHandler (?data b ms) dt ls vl))" for b ms dt ls vl
    by (rule does_weaken [OF dep_handler.handle_law own_deployment_writes [OF _ key]])
      (simp_all add: NewDeploymentHandler_def Let_def)
  have mesh: "does (own_writes ident sts) (process_mesh (traced c) r (?data b ms) hosts v)" for b ms hosts v
    using assms by (intro process_mesh_writes) simp_all
  show ?thesis
    unfolding process_one_def locateMatchingServiceHostnames_def
    by (intro does_intro dh mesh) (simp add: own_writes_def)
qed

lemma process_loop_writes:
  "set sts' \<subseteq> set sts \<Longrightarrow> does (own_writes ident sts) (process_loop (traced c) r ident sts' vars)"
  by (induction sts' arbitrary: vars) (auto intro!: does_intro process_one_writes)

lemma process_srhs_requests: "does (\<lambda>e. is_read e \<or> is_status e) (process_srhs (traced c) hs vars)"
proof (induction hs arbitrary: vars)
  case (Cons h hs)
  obtain response err where vars: "vars = (response, err)" by (cases vars)
  show ?case
    unfolding vars process_srhs.simps
    by (rule dep_handler.get_then_apply; (intro does_intro)?) (rule Cons.IH)+
qed (simp add: does_intro)

lemma process_mrhs_requests: "does (\<lambda>e. is_read e \<or> is_status e) (process_mrhs (traced c) mrhs vars)"
proof (induction mrhs arbitrary: vars)
  case (Cons h mrhs)
  obtain response err where vars: "vars = (response, err)" by (cases vars)
  show ?case
    unfolding vars process_mrhs.simps
    by (intro does_intro Cons.IH does_weaken [OF does_mrh_GetStatus] does_weaken [OF does_mrh_ApplyStatus]) simp_all
qed (simp add: does_intro)

lemma processHandlersStatus_writes: "does (own_writes ident sts) (processHandlersStatus (traced c) hs mrhs)"
  unfolding processHandlersStatus_def
  by (intro does_intro does_weaken [OF process_srhs_requests] does_weaken [OF process_mrhs_requests])
    (auto simp: own_writes_weaken)

lemma finish_writes: "does (own_writes ident sts) (finish (traced c) n nonReady rls)"
  unfolding finish_def SetGlobalState_def
  by (intro does_intro does_SyncSubsetMessages does_SyncConsumerMessages does_weaken [OF does_StatusUpdate])
    (simp add: own_writes_weaken)

text \<open>The requests of the cleanup manager.\<close>

lemma delete_requests [does_intro]:
  "does is_cleanup (deleteDeployment (traced c) rs)" "does is_cleanup (deleteDestinationRule (traced c) rs)"
  "does is_cleanup (cleanupVirtualService (traced c) rs)"
  unfolding deleteDeployment_def deleteDestinationRule_def cleanupVirtualService_def
  by (intro does_intro; simp)+

lemma delete_loops_requests [does_intro]:
  "does is_cleanup (delete_deployments (traced c) rss n)" "does is_cleanup (delete_destination_rules (traced c) rss n)"
  "does is_cleanup (cleanup_virtual_services (traced c) rss)" "does is_cleanup (remove_drs (traced c) rss b)"
  "does is_cleanup (remove_vss (traced c) rss)"
  by (induction rss arbitrary: n b; auto intro!: does_intro)+

lemma DeleteAllResources_requests: "does is_cleanup (DeleteAllResources (traced c))"
  unfolding DeleteAllResources_def finalizer_block_def deleteFinalizer_def deleteAllDeployments_def
    deleteAllDestinationRules_def cleanupVirtualServices_def
  by (intro does_intro) simp_all

lemma cleanup_removed_requests: "does (\<lambda>e. is_cleanup e \<or> is_status e) (cleanup_removed (traced c) sts)"
proof -
  have "does (\<lambda>e. is_cleanup e \<or> is_status e) (removeConsumer (traced c) n)" for n
    unfolding removeConsumer_def by (intro does_intro does_weaken [OF delete_requests(1)]) simp_all
  moreover have "does (\<lambda>e. is_cleanup e \<or> is_status e) (removeSubset (traced c) n)" for n
    unfolding removeSubset_def remove_subset_resources_def
    by (intro does_intro does_weaken [OF delete_requests(1)] does_weaken [OF delete_loops_requests(4)]
        does_weaken [OF delete_loops_requests(5)]) simp_all
  ultimately have "does (\<lambda>e. is_cleanup e \<or> is_status e) (remove_all (traced c) m names b)" for m names b
    by (induction names arbitrary: b) (auto intro!: does_intro)
  then show ?thesis
    unfolding cleanup_removed_def RemoveSubsetsAndConsumers_def by (intro does_intro)
qed

lemma reconcile_live_writes:
  assumes "spec_echoes c" and "same_env de s"
  shows "logs (own_writes (de_ident de) (subsets_and_consumers de)) (reconcile_live (traced c) r) s"
proof -
  let ?A = "own_writes (de_ident de) (subsets_and_consumers de)"
  have loop: "logs ?A (processSubsetsAndConsumers (traced c) r) t" if "same_env de t" for t
    using that unfolding processSubsetsAndConsumers_def
    by (intro logs_bnd does_logs does_intro)
      (auto simp: yields_simps same_env_def intro!: does_logs process_loop_writes)
  have cleanup: "does ?A (cleanup_removed (traced c) sts)" for sts
    by (rule does_weaken [OF cleanup_removed_requests]) (auto simp: own_writes_weaken)
  have tail: "does ?A (bnd (processHandlersStatus (traced c) dhs mrhs) (\<lambda>(response, err). f response err))"
    if "\<And>resp err. does ?A (f resp err)" for dhs mrhs f
    by (intro does_intro processHandlersStatus_writes that)
  show ?thesis
    unfolding reconcile_live_def Let_def
    apply (intro logs_bnd does_logs [OF does_state(1)])
    apply (simp only: yields_readDE)
    apply (intro logs_bnd does_logs [OF cleanup])
    apply (rule yields_mono [OF keeps_yields [OF cleanup_removed_same_env [OF assms(1)] assms(2)]], clarify)
    apply (intro logs_bnd loop, assumption)
    apply (rule yields_mono [OF yields_any], clarify)
    apply (intro does_logs tail finish_writes)
    done
qed

section \<open>The whole call\<close>

abbreviation loaded :: "DynamicEnv \<Rightarrow> 'w \<Rightarrow> NamespacedName \<Rightarrow> ('w \<times> effect list) loop_state" where
  "loaded de w req \<equiv> \<lparr>cur_de = de, world = (w, [GotDynamicEnv req (Inr de)])\<rparr>"

lemma Reconcile_loaded:
  "GetDynamicEnv c req w = (Inr de, w1) \<Longrightarrow> Reconcile (traced c) r req (w, []) =
     (fst (reconcile_env (traced c) r (loaded de w1 req)), world (snd (reconcile_env (traced c) r (loaded de w1 req))))"
  by (simp add: Reconcile_def log_call_eq split: prod.split)

lemma Reconcile_loaded_yields:
  assumes "GetDynamicEnv c req w = (Inr de, w1)" and "yields (reconcile_env (traced c) r) (loaded de w1 req) Q"
    and "Reconcile (traced c) r req (w, []) = (Done res, w', log)"
  shows "\<exists>t. Q res t \<and> world t = (w', log)"
  using assms(2,3) unfolding Reconcile_loaded [OF assms(1)] yields_def
  by (metis fst_conv prod.collapse snd_conv)

lemma reconcile_env_reported:
  assumes "spec_echoes c" and "de_DeletionTimestamp de = None"
  shows "yields (reconcile_env (traced c) r) (loaded de w req) (\<lambda>res t.
    (\<exists>es nde e. log_of t = es @ [UpdatedStatus nde e] \<and> reported de nde e res es) \<or>
    (\<exists>nde e. log_of t = [GotDynamicEnv req (Inr de), UpdatedDynamicEnv nde (Some e)] \<and> de_Finalizers de = [] \<and>
       res = (Result_zero, Some (Wrap ''could not update finalizers'' e))))"
proof -
  have same: "same_env de (loaded de w req)" by (simp add: same_env_def)
  have fin: "yields (ensureFinalizers (traced c)) (loaded de w req) (\<lambda>r t. r = None \<or>
      (\<exists>nde e. log_of t = [GotDynamicEnv req (Inr de), UpdatedDynamicEnv nde (Some e)] \<and> de_Finalizers de = [] \<and>
        r = Some (Wrap ''could not update finalizers'' e)))"
    by (rule yieldsI) (auto simp: ensureFinalizers_def bnd_apply UpdateDE_def write_back_apply log_call_eq
        split: if_splits prod.splits option.splits)
  show ?thesis
    unfolding reconcile_env_def yields_bnd
    apply (simp add: yields_simps markedForDeletion_def assms(2))
    apply (rule yields_mono [OF yields_conj [OF ensureFinalizers_same_env [OF assms(1) same] fin]])
    apply (elim conjE disjE exE; simp add: yields_simps)
    apply (rule yields_mono [OF reconcile_live_reported [OF assms(1)]], assumption, blast)
    done
qed

lemma reconcile_env_writes:
  assumes "spec_echoes c"
  shows "logs (own_writes (de_ident de) (subsets_and_consumers de)) (reconcile_env (traced c) r) (loaded de w req)"
proof -
  let ?A = "own_writes (de_ident de) (subsets_and_consumers de)"
  have same: "same_env de (loaded de w req)" by (simp add: same_env_def)
  have fin: "does ?A (ensureFinalizers (traced c))"
    unfolding ensureFinalizers_def by (intro does_intro) (simp add: own_writes_def)
  have del: "does ?A (DeleteAllResources (traced c))"
    by (rule does_weaken [OF DeleteAllResources_requests]) (simp add: own_writes_weaken)
  have live: "logs ?A (bnd (ensureFinalizers (traced c)) (\<lambda>res. case res of
      Some err \<Rightarrow> ret (Result_zero, Some err) | None \<Rightarrow> reconcile_live (traced c) r)) (loaded de w req)"
    apply (rule logs_bnd [OF does_logs [OF fin]])
    apply (rule yields_mono [OF ensureFinalizers_same_env [OF assms same]])
    subgoal for res t
      by (cases res) (simp_all add: reconcile_live_writes [OF assms] does_logs does_intro)
    done
  show ?thesis
    unfolding reconcile_env_def
    by (rule logs_bnd [OF does_logs [OF does_state(1)]]) (simp add: yields_simps live does_logs [OF del])
qed

section \<open>Sample runs\<close>

text \<open>An environment with one consumer, in a cluster with its base deployment and the overriding deployment \<open>d\<close>.\<close>

definition sample_consumer_env :: DynamicEnv where
  "sample_consumer_env = \<lparr>de_Name = ''env'', de_Namespace = ''ns'',
     de_Finalizers = [DeleteDeployments, DeleteDestinationRules, CleanupVirtualServices],
     de_DeletionTimestamp = None, de_rest = [],
     de_Spec = \<lparr>spec_IstioMatches = None, spec_Subsets = [], spec_Consumers = [sample_override]\<rparr>,
     de_Status = \<lparr>st_SubsetsStatus = None,
       st_ConsumersStatus = Some [(''ns/details'', ConsumerStatus_zero\<lparr>cs_Hash := 12\<rparr>)],
       st_State = [], st_TotalCount = 0, st_TotalReady = 0\<rparr>\<rparr>"

definition progressing :: "string \<Rightarrow> string \<Rightarrow> Deployment" where
  \<comment> \<open>the overriding deployment with one \<open>Progressing\<close> condition\<close>
  "progressing status reason = sample_base\<lparr>dep_Meta := (dep_Meta sample_base)\<lparr>om_Name := ''details-ns-env''\<rparr>,
     dep_Conditions := [\<lparr>dc_Type = DeploymentProgressing, dc_Status = status, dc_Reason = reason,
       dc_LastUpdateTime = 1, dc_rest = []\<rparr>]\<rparr>"

definition sample_world :: "Deployment \<Rightarrow> mem" where
  "sample_world d = empty_mem\<lparr>m_des := [sample_consumer_env, sample_deleted\<lparr>de_Name := ''old''\<rparr>], m_deps := [sample_base, d]\<rparr>"

definition sample_reconciler :: DynamicEnvReconciler where
  "sample_reconciler = \<lparr>r_VersionLabel = ''version'', r_DefaultVersion = ''shared'', r_LabelsToRemove = [''argo'']\<rparr>"

definition sample_req :: "string \<Rightarrow> NamespacedName" where
  "sample_req name = \<lparr>nn_Namespace = ''ns'', nn_Name = name\<rparr>"

definition sample_reconcile :: "string \<Rightarrow> Deployment \<Rightarrow> (Result \<times> goerror option) outcome \<times> mem \<times> effect list" where
  "sample_reconcile name d = Reconcile (traced mem_env) sample_reconciler (sample_req name) (sample_world d, [])"

definition sample_available :: Deployment where
  "sample_available = progressing ConditionTrue ''NewReplicaSetAvailable''"

fun reported_state :: "effect \<Rightarrow> string option" where
  "reported_state (UpdatedStatus de e) = Some (st_State (de_Status de))"
| "reported_state _ = None"

lemma mem_env_spec_echoes [simp]: "spec_echoes mem_env"
  by (simp add: spec_echoes_def mem_env_def)

lemma sample_get:
  "GetDynamicEnv mem_env (sample_req ''env'') (sample_world d) = (Inr sample_consumer_env, sample_world d)"
  "GetDynamicEnv mem_env (sample_req ''old'') (sample_world d) = (Inr (sample_deleted\<lparr>de_Name := ''old''\<rparr>), sample_world d)"
  by (simp_all add: mem_env_def sample_req_def sample_world_def sample_consumer_env_def sample_deleted_def)

lemma sample_consumers: "subsets_and_consumers sample_consumer_env = [\<lparr>sbt_Type = CONSUMER, sbt_Subset = sample_override\<rparr>]"
  by (simp add: sample_consumer_env_def mergeSubsetsAndConsumers_def)

lemma sample_ready:
  "fst (sample_reconcile ''env'' sample_available) = Done (Result_zero, None)"
  "reported_state (last (snd (snd (sample_reconcile ''env'' sample_available)))) = Some Ready"
  "length (snd (snd (sample_reconcile ''env'' sample_available))) = 6"
  by code_simp+

lemma last_report:
  assumes "reported_state (last es) = Some st" and "es \<noteq> []"
  obtains nde e where "es = butlast es @ [UpdatedStatus nde e]" and "st_State (de_Status nde) = st"
  using assms by (cases "last es") (metis append_butlast_last_id option.inject reported_state.simps option.distinct(1))+

section \<open>Matching services\<close>

definition selects :: "'w Env \<Rightarrow> string gomap \<Rightarrow> Service \<Rightarrow> bool" where
  "selects c ls svc \<longleftrightarrow> (case AsValidatedSelector c (svc_Selector svc) of Inl _ \<Rightarrow> False | Inr p \<Rightarrow> p ls)"

lemma match_services_eq:
  "match_services c ls items = Inr xs \<longleftrightarrow>
     (\<forall>svc \<in> set items. \<not> isl (AsValidatedSelector c (svc_Selector svc))) \<and> xs = filter (selects c ls) items"
proof (induction items arbitrary: xs)
  case (Cons svc items)
  show ?case
  proof (cases "match_services c ls items")
    case (Inl err)
    then have "\<not> (\<forall>svc \<in> set items. \<not> isl (AsValidatedSelector c (svc_Selector svc)))"
      using Cons.IH by auto
    with Inl show ?thesis by (auto split: sum.split)
  next
    case (Inr ys)
    with Cons.IH [of ys] show ?thesis by (auto simp: selects_def split: sum.split)
  qed
qed auto

section \<open>Properties\<close>

text \<open>
  C1: the state \<open>Ready\<close> is never reported too early. When the last request of a run reports \<open>Ready\<close>, then for every
  subset and consumer of the spec the run has asked for its overriding deployment, and the answer said, in the most
  recent progress condition, that the new replica set is available. Such a run returns no error and asks for
  another run only when the report itself met a conflict; another failure of the report is returned.
\<close>

theorem Reconcile_ready_sound:
  assumes "spec_echoes c" and "GetDynamicEnv c req w = (Inr de, w1)" and "de_DeletionTimestamp de = None"
    and "Reconcile (traced c) r req (w, []) = (Done (res, err), w', es @ [UpdatedStatus nde e])"
    and "st_State (de_Status nde) = Ready"
  shows "(\<forall>st \<in> set (subsets_and_consumers de). seen_available (overriding_key (de_ident de) st) es) \<and>
    Requeue res = IsConflict e \<and> err = (if IsConflict e then None else e)"
  using Reconcile_loaded_yields [OF assms(2) reconcile_env_reported [OF assms(1,3)] assms(4)] assms(5)
  by (auto simp: reported_def answer_def Result_zero_def)

theorem Reconcile_ready_sound_witness:
  "\<exists>es nde e. snd (snd (sample_reconcile ''env'' sample_available)) = es @ [UpdatedStatus nde e] \<and>
     seen_available \<lparr>nn_Namespace = ''ns'', nn_Name = ''details-ns-env''\<rparr> es"
proof -
  let ?log = "snd (snd (sample_reconcile ''env'' sample_available))"
  have "?log \<noteq> []" using sample_ready(3) by auto
  then obtain nde e where log: "?log = butlast ?log @ [UpdatedStatus nde e]" and ready: "st_State (de_Status nde) = Ready"
    using last_report [OF sample_ready(2)] by blast
  have run: "Reconcile (traced mem_env) sample_reconciler (sample_req ''env'') (sample_world sample_available, []) =
      (Done (Result_zero, None), fst (snd (sample_reconcile ''env'' sample_available)), butlast ?log @ [UpdatedStatus nde e])"
    using sample_ready(1) log unfolding sample_reconcile_def by (metis prod.collapse)
  have live: "de_DeletionTimestamp sample_consumer_env = None" by (simp add: sample_consumer_env_def)
  have key: "overriding_key (de_ident sample_consumer_env) \<lparr>sbt_Type = CONSUMER, sbt_Subset = sample_override\<rparr> =
      \<lparr>nn_Namespace = ''ns'', nn_Name = ''details-ns-env''\<rparr>"
    by (simp add: overriding_key_def de_ident_def sample_consumer_env_def sample_override_def UniqueDynamicEnvName_def)
  show ?thesis
    using Reconcile_ready_sound [OF mem_env_spec_echoes sample_get(1) live run ready] log key
    by (auto simp: sample_consumers)
qed





text \<open>
  An environment that is gone or going. When the environment cannot be fetched the run ends after that one
  request, without an error exactly when it does not exist. When it is marked for deletion, the run creates
  nothing, updates no deployment and reports no status, whatever the server answers.
\<close>

theorem Reconcile_gone:
  "case GetDynamicEnv c req w of
     (Inl err, w1) \<Rightarrow> \<exists>res err'. Reconcile (traced c) r req (w, []) = (Done (res, err'), w1, [GotDynamicEnv req (Inl err)]) \<and>
       \<not> Requeue res \<and> (err' = None \<longleftrightarrow> IsNotFound err)
   | (Inr de, w1) \<Rightarrow> de_DeletionTimestamp de \<noteq> None \<longrightarrow> list_all is_cleanup (snd (snd (Reconcile (traced c) r req (w, []))))"
proof -
  have del: "list_all is_cleanup (snd (snd (Reconcile (traced c) r req (w, []))))"
    if "GetDynamicEnv c req w = (Inr de, w1)" "de_DeletionTimestamp de \<noteq> None" for de w1
    using does_logs [OF DeleteAllResources_requests, of c "loaded de w1 req"] that(2)
    unfolding Reconcile_loaded [OF that(1)]
    by (auto simp: reconcile_env_def bnd_apply markedForDeletion_def logs_def split: prod.splits outcome.splits)
  then show ?thesis
    by (auto simp: Reconcile_def log_call_eq Result_zero_def split: prod.split sum.split)
qed

theorem Reconcile_gone_witness:
  "list_all is_cleanup (snd (snd (sample_reconcile ''old'' sample_base)))"
  using Reconcile_gone [where c = mem_env and req = "sample_req ''old''" and w = "sample_world sample_base"
    and r = sample_reconciler]
  by (simp add: sample_get sample_reconcile_def) (simp add: sample_deleted_def)

text \<open>
  The service hostnames of a subset. They are the names of the listed services whose selector matches the
  labels, each as often as it is listed and in sorted order; the call fails exactly when some selector is invalid or
  no service matches, and it makes no other request.
\<close>

theorem locateMatchingServiceHostnames_correct:
  assumes "ListServices c ns (world s) = (Inr items, w)"
  shows "\<exists>res. locateMatchingServiceHostnames c ns ls s = (Done res, s\<lparr>world := w\<rparr>) \<and>
    (isl res \<longleftrightarrow> (\<exists>svc \<in> set items. isl (AsValidatedSelector c (svc_Selector svc))) \<or> (\<forall>svc \<in> set items. \<not> selects c ls svc)) \<and>
    (\<forall>hosts. res = Inr hosts \<longrightarrow> sorted hosts \<and> mset hosts = image_mset svc_Name (filter_mset (selects c ls) (mset items)))"
proof (cases "match_services c ls items")
  case (Inl err)
  then have "\<exists>svc \<in> set items. isl (AsValidatedSelector c (svc_Selector svc))"
    using match_services_eq [of c ls items "filter (selects c ls) items"] by auto
  with assms Inl show ?thesis by (simp add: locateMatchingServiceHostnames_def bnd_apply call_apply)
next
  case (Inr xs)
  with match_services_eq [of c ls items xs] have "\<forall>svc \<in> set items. \<not> isl (AsValidatedSelector c (svc_Selector svc))"
    and "xs = filter (selects c ls) items" by simp_all
  with assms Inr show ?thesis
    by (auto simp: locateMatchingServiceHostnames_def bnd_apply call_apply filter_empty_conv)
qed

theorem locateMatchingServiceHostnames_correct_witness:
  "\<exists>hosts w. locateMatchingServiceHostnames mem_env ''ns'' (Some [(''app'', ''details'')])
     \<lparr>cur_de = sample_consumer_env, world = empty_mem\<lparr>m_svcs :=
        [(''ns'', \<lparr>svc_Name = ''details'', svc_Selector = Some [(''app'', ''details'')]\<rparr>)]\<rparr>\<rparr> = (Done (Inr hosts), w) \<and>
     mset hosts = {#''details''#}"
proof -
  let ?s = "\<lparr>cur_de = sample_consumer_env, world = empty_mem\<lparr>m_svcs :=
        [(''ns'', \<lparr>svc_Name = ''details'', svc_Selector = Some [(''app'', ''details'')]\<rparr>)]\<rparr>\<rparr>"
  have list: "ListServices mem_env ''ns'' (world ?s) =
      (Inr [\<lparr>svc_Name = ''details'', svc_Selector = Some [(''app'', ''details'')]\<rparr>], world ?s)"
    by (simp add: mem_defs)
  have match: "selects mem_env (Some [(''app'', ''details'')]) \<lparr>svc_Name = ''details'', svc_Selector = Some [(''app'', ''details'')]\<rparr>"
    by (simp add: selects_def mem_defs)
  obtain res where "locateMatchingServiceHostnames mem_env ''ns'' (Some [(''app'', ''details'')]) ?s = (Done res, ?s\<lparr>world := world ?s\<rparr>)"
    "\<not> isl res" "\<forall>hosts. res = Inr hosts \<longrightarrow> mset hosts = {#''details''#}"
    using locateMatchingServiceHostnames_correct [OF list, of "Some [(''app'', ''details'')]"] match
    by (auto simp: mem_defs)
  then show ?thesis by (cases res) auto
qed

text \<open>
  A failed deployment is not reported as degraded. In the sample cluster the most recent progress condition of
  the overriding deployment is not true; the run records the deployment as failed, and the state it reports is
  \<open>Processing\<close>: that a handler's resource has failed is collected but plays no part in the state.
\<close>

theorem Reconcile_failed_is_processing:
  "case last (snd (snd (Reconcile (traced mem_env) sample_reconciler (sample_req ''env'')
          (sample_world (progressing ''False'' ''ProgressDeadlineExceeded''), [])))) of
     UpdatedStatus nde e \<Rightarrow>
       rs_Status (cs_ResourceStatus (gm_get ConsumerStatus_zero (st_ConsumersStatus (de_Status nde)) ''ns/details'')) = Failed \<and>
       st_State (de_Status nde) = Processing
   | _ \<Rightarrow> False"
  by code_simp

end
