(* ===== verification/Totality.thy ===== *)
theory Totality
  imports Reconcile_Correct
begin

text \<open>
  A call of \<open>Reconcile\<close> returns. Every loop of the model is a recursion over a list and ends; what is left are the
  run-time panics of the sources: assignments to entries of nil maps, and nil pointers in objects that the API server
  returned. \<open>gives m Q\<close> is total correctness for a call from any state; its rules follow the structure of a call, and
  the theory goes through the whole call graph of the reconciler with them.
\<close>

named_theorems gives_intro \<open>rules for calls that return from every state\<close>

section \<open>Calls that return\<close>

definition gives :: "('s, 'a) prog \<Rightarrow> ('a \<Rightarrow> bool) \<Rightarrow> bool" where
  "gives m Q \<longleftrightarrow> (\<forall>s. returns m s (\<lambda>x t. Q x))"

abbreviation halts :: "('s, 'a) prog \<Rightarrow> bool" where
  "halts m \<equiv> gives m (\<lambda>_. True)"

lemma givesI: "(\<And>s. returns m s (\<lambda>x t. Q x)) \<Longrightarrow> gives m Q"
  by (simp add: gives_def)

lemma givesD: "gives m Q \<Longrightarrow> returns m s (\<lambda>x t. Q x)"
  by (simp add: gives_def)

lemma gives_Done: "gives m Q \<Longrightarrow> \<exists>x t. m s = (Done x, t) \<and> Q x"
  by (auto simp: gives_def returns_iff dest!: spec [of _ s])

lemma gives_weaken: "gives m Q \<Longrightarrow> (\<And>x. Q x \<Longrightarrow> R x) \<Longrightarrow> gives m R"
  unfolding gives_def by (blast intro: returns_mono)

lemma gives_total: "gives m Q \<Longrightarrow> halts m"
  by (erule gives_weaken) simp

lemma gives_ret [gives_intro]: "Q x \<Longrightarrow> gives (ret x) Q"
  by (simp add: gives_def wp)

lemma gives_Pair [gives_intro]: "Q x \<Longrightarrow> gives (Pair (Done x)) Q"
  by (simp add: gives_def wp)

lemma gives_bnd: "gives m P \<Longrightarrow> (\<And>x. P x \<Longrightarrow> gives (f x) Q) \<Longrightarrow> gives (bnd m f) Q"
  unfolding gives_def returns_bnd by (blast intro: returns_mono)

lemma total_bnd [gives_intro]: "halts m \<Longrightarrow> (\<And>x. gives (f x) Q) \<Longrightarrow> gives (bnd m f) Q"
  by (rule gives_bnd)

lemma gives_call [gives_intro]: "(\<And>w. Q (fst (f w))) \<Longrightarrow> gives (call f) Q"
  unfolding gives_def by (auto simp: wp split: prod.split) (metis fst_conv)

lemma total_state [gives_intro]: "halts readDE" "halts (writeDE de)" "halts (modifyStatus g)" "halts (write_back u)"
  by (auto simp: gives_def wp split: prod.split)

lemma gives_bnd_lift: "r \<noteq> Panic \<Longrightarrow> (\<And>x. r = Done x \<Longrightarrow> gives (f x) Q) \<Longrightarrow> gives (bnd (lift_outcome r) f) Q"
  by (cases r) (simp_all add: gives_def wp)

lemma bnd_lift_Done [simp]: "bnd (lift_outcome (Done x)) f = f x"
  by (simp add: bnd_def fun_eq_iff)

lemma gives_if [gives_intro]: "(b \<Longrightarrow> gives m Q) \<Longrightarrow> (\<not> b \<Longrightarrow> gives n Q) \<Longrightarrow> gives (if b then m else n) Q"
  by simp

lemma gives_option [gives_intro]:
  "(v = None \<Longrightarrow> gives m Q) \<Longrightarrow> (\<And>x. v = Some x \<Longrightarrow> gives (f x) Q) \<Longrightarrow> gives (case v of None \<Rightarrow> m | Some x \<Rightarrow> f x) Q"
  by (cases v) simp_all

lemma gives_sum [gives_intro]:
  "(\<And>e. v = Inl e \<Longrightarrow> gives (f e) Q) \<Longrightarrow> (\<And>x. v = Inr x \<Longrightarrow> gives (g x) Q) \<Longrightarrow>
     gives (case v of Inl e \<Rightarrow> f e | Inr x \<Rightarrow> g x) Q"
  by (cases v) simp_all

lemma gives_prod [gives_intro]: "(\<And>a b. v = (a, b) \<Longrightarrow> gives (f a b) Q) \<Longrightarrow> gives (case v of (a, b) \<Rightarrow> f a b) Q"
  by (cases v) simp

lemma gives_let [gives_intro]: "gives (f v) Q \<Longrightarrow> gives (let x = v in f x) Q"
  by simp

section \<open>The status manager\<close>

lemma total_StatusUpdate [gives_intro]: "halts (StatusUpdate c)" "halts (UpdateDE c)"
  unfolding StatusUpdate_def UpdateDE_def by (intro gives_intro)+

lemma total_entries [gives_intro]:
  "halts (AddDeploymentStatusEntry c k r tpe)" "halts (AddDestinationRuleStatusEntry c k r)"
  "halts (AddVirtualServiceStatusEntry c k r)"
proof -
  have never: "halts m" if "\<And>s t. m s \<noteq> (Panic, t)" for m :: "('a, goerror option) go"
    using that by (auto simp: gives_def returns_def split: prod.split outcome.split)
  show "halts (AddDeploymentStatusEntry c k r tpe)"
    unfolding AddDeploymentStatusEntry_def
    by (intro gives_if never subset_dep.add_no_panic consumer_dep.add_no_panic)
  show "halts (AddDestinationRuleStatusEntry c k r)" "halts (AddVirtualServiceStatusEntry c k r)"
    by (intro never subset_dr.add_no_panic subset_vs.add_no_panic)+
qed

lemma total_SyncGlobalErrors [gives_intro]: "halts (SyncGlobalErrors c msg errs)"
  by (rule givesI) (rule returns_mono [OF SyncGlobalErrors_returns], rule TrueI)

lemma total_sync_messages [gives_intro]: "halts (sync_messages c msgs errs)"
  by (rule givesI) (rule returns_mono [OF sync_messages_returns], rule TrueI)

lemma total_AddGlobalVirtualServiceError [gives_intro]: "halts (AddGlobalVirtualServiceError c k msg)"
proof (rule givesI)
  fix s :: "'a loop_state"
  have assign: "returns (assignSubsetStatus k v) t (\<lambda>x u. True)"
    if "cur_de t = (cur_de s)\<lparr>de_Status := init_subsets (status_of s)\<rparr>" for v t
    using that by (simp add: returns_def assignSubsetStatus_apply)
  show "returns (AddGlobalVirtualServiceError c k msg) s (\<lambda>x t. True)"
    unfolding AddGlobalVirtualServiceError_def Let_def returns_bnd
    apply (simp add: returns_def [of "safeGetSubsetsStatus k"] safeGetSubsetsStatus_apply)
    apply (rule returns_mono [OF SyncGlobalErrors_returns], clarsimp)
    apply (rule returns_mono [OF assign], simp)
    apply (rule givesD [OF total_StatusUpdate(1)])
    done
qed

lemma total_SyncMessages [gives_intro]:
  "halts (SyncSubsetMessagesToStatus c messages)" "halts (SyncConsumerMessagesToStatus c cmessages)"
proof -
  have "halts (sync_subset c k m)" "halts (sync_consumer c k ms)" for k m ms
    unfolding sync_subset_def sync_consumer_def by (intro gives_intro)+
  then have "halts (sync_subsets c messages ks)" "halts (sync_consumers c cmessages ks)" for ks
    by (induction ks) (auto intro!: gives_intro)
  then show "halts (SyncSubsetMessagesToStatus c messages)" "halts (SyncConsumerMessagesToStatus c cmessages)"
    unfolding SyncSubsetMessagesToStatus_def SyncConsumerMessagesToStatus_def by (auto intro!: gives_intro)
qed

lemma total_SetGlobalState [gives_intro]: "halts (SetGlobalState c g n m)"
  unfolding SetGlobalState_def by (intro gives_intro)

text \<open>
  Storing the hash of a subset assigns to the map of the status without a check for nil: it relies on the status entry
  of the deployment that was written before it.
\<close>

definition hash_ready :: "SubsetOrConsumer \<Rightarrow> 'w loop_state \<Rightarrow> bool" where
  "hash_ready tpe s \<longleftrightarrow> tpe = CONSUMER \<or> st_SubsetsStatus (status_of s) \<noteq> None"

lemma ApplyHash_returns: "hash_ready tpe s \<Longrightarrow> returns (ApplyHash c k h tpe) s (\<lambda>x t. True)"
  using givesD [OF total_StatusUpdate(1), of c]
  by (auto simp: ApplyHash_def returns_def setHashForSubset_apply setHashForConsumer_apply hash_ready_def
      split: if_splits)

lemma StatusUpdate_returns: "status_echoes c \<Longrightarrow> returns (StatusUpdate c) s (\<lambda>x t. status_of t = status_of s)"
  using givesD [OF total_StatusUpdate(1), of c s]
  by (auto simp: returns_iff dest: StatusUpdate_echo)

lemma AddDeploymentStatusEntry_ready:
  assumes "status_echoes c"
  shows "returns (AddDeploymentStatusEntry c k r tpe) s (\<lambda>x t. hash_ready tpe t)"
proof (cases tpe)
  case SUBSET
  let ?st = "init_subsets (status_of s)"
  have sent: "returns (StatusUpdate c) (with_status s (put_subset k v ?st)) (\<lambda>x t. hash_ready tpe t)" for v
    by (intro returns_mono [OF StatusUpdate_returns [OF assms]]) (simp add: hash_ready_def put_subset_def)
  have silent: "hash_ready tpe (with_status s ?st)"
    using init_subsets_not_nil [of "status_of s"] by (simp add: hash_ready_def del: not_None_eq)
  have "returns (addSubsetDeploymentStatusEntry c k r) s (\<lambda>x t. hash_ready tpe t)"
    unfolding returns_def subset_dep.add_law Let_def
    using sent silent by (simp add: returns_def)
  with SUBSET show ?thesis by (simp add: AddDeploymentStatusEntry_def)
next
  case CONSUMER
  then show ?thesis
    by (intro returns_mono [OF givesD [OF total_entries(1)]]) (simp add: hash_ready_def)
qed

section \<open>The cleanup manager\<close>

lemma total_delete [gives_intro]:
  "halts (deleteDeployment c r)" "halts (deleteDestinationRule c r)" "halts (cleanupVirtualService c r)"
  unfolding deleteDeployment_def deleteDestinationRule_def cleanupVirtualService_def by (intro gives_intro TrueI)+

lemma total_delete_loops [gives_intro]:
  "halts (delete_deployments c rs n)" "halts (delete_destination_rules c rs n)" "halts (cleanup_virtual_services c rs)"
  "halts (remove_drs c rs b)" "halts (remove_vss c rs)"
  by (induction rs arbitrary: n b; auto intro!: gives_intro)+

lemma total_DeleteAllResources [gives_intro]: "halts (DeleteAllResources c)"
  unfolding DeleteAllResources_def finalizer_block_def deleteFinalizer_def deleteAllDeployments_def
    deleteAllDestinationRules_def cleanupVirtualServices_def
  by (intro gives_intro TrueI)

text \<open>The assignments of the removal are guarded: the entry was looked up before, and only requests come between.\<close>

lemma keeps_delete [keeps_intro]:
  "keeps (de_is de) (deleteDeployment c r)" "keeps (de_is de) (deleteDestinationRule c r)"
  "keeps (de_is de) (cleanupVirtualService c r)"
  unfolding deleteDeployment_def deleteDestinationRule_def cleanupVirtualService_def by (intro keeps_intro)+

lemma keeps_remove_loops [keeps_intro]:
  "keeps (de_is de) (remove_drs c rs b)" "keeps (de_is de) (remove_vss c rs)"
  by (induction rs arbitrary: b; auto intro!: keeps_intro)+

lemma keeps_remove_subset_resources: "keeps (de_is de) (remove_subset_resources c st)"
  unfolding remove_subset_resources_def by (intro keeps_intro)

lemma returns_frame:
  assumes "halts m" and "\<And>de. keeps (de_is de) m"
  shows "returns m s (\<lambda>x t. cur_de t = cur_de s)"
proof -
  from gives_Done [OF assms(1)] obtain x t where run: "m s = (Done x, t)" by blast
  from keepsD [OF assms(2) refl run] run show ?thesis by (simp add: returns_def)
qed

lemma assign_returns:
  "st_SubsetsStatus (status_of s) \<noteq> None \<Longrightarrow> returns (assignSubsetStatus k v) s (\<lambda>x t. True)"
  "st_ConsumersStatus (status_of s) \<noteq> None \<Longrightarrow> returns (assignConsumerStatus k u) s (\<lambda>x t. True)"
  by (simp_all add: returns_def assignSubsetStatus_apply assignConsumerStatus_apply)

lemma total_remove_subset_resources: "halts (remove_subset_resources c st)"
  unfolding remove_subset_resources_def by (intro gives_intro TrueI)

lemma total_send [gives_intro]: "halts (bnd (StatusUpdate c) (\<lambda>err. ret (b, err)))"
  by (intro gives_intro TrueI)

lemma total_removeConsumer [gives_intro]: "halts (removeConsumer c name)"
proof (rule givesI)
  fix s :: "'a loop_state"
  note frame = returns_frame [OF total_delete(1) keeps_delete(1)]
  show "returns (removeConsumer c name) s (\<lambda>x t. True)"
  proof (cases "gm_lookup (st_ConsumersStatus (status_of s)) name")
    case (Some st)
    then have "st_ConsumersStatus (status_of s) \<noteq> None" by (cases "st_ConsumersStatus (status_of s)") auto
    then show ?thesis
      unfolding removeConsumer_def returns_bnd returns_readDE Some option.case Let_def
      apply (intro returns_mono [OF frame])
      apply (auto simp: returns_bnd returns_readDE returns_ret returns_modifyStatus split: option.split)
       apply (rule returns_mono [OF assign_returns(2)], simp, rule givesD [OF total_StatusUpdate(1)])
      apply (rule givesD [OF total_StatusUpdate(1)])
      done
  qed (simp add: removeConsumer_def wp)
qed

lemma total_removeSubset [gives_intro]: "halts (removeSubset c name)"
proof (rule givesI)
  fix s :: "'a loop_state"
  note frame = returns_frame [OF total_remove_subset_resources keeps_remove_subset_resources]
  show "returns (removeSubset c name) s (\<lambda>x t. True)"
  proof (cases "gm_lookup (st_SubsetsStatus (status_of s)) name")
    case (Some st)
    then have "st_SubsetsStatus (status_of s) \<noteq> None" by (cases "st_SubsetsStatus (status_of s)") auto
    then show ?thesis
      unfolding removeSubset_def returns_bnd returns_readDE Some option.case Let_def
      apply (intro returns_mono [OF frame])
      apply (auto simp: returns_bnd returns_readDE returns_ret returns_modifyStatus split: option.split)
       apply (rule returns_mono [OF assign_returns(1)], simp, rule givesD [OF total_StatusUpdate(1)])
      apply (rule givesD [OF total_StatusUpdate(1)])
      done
  next
    case None
    then show ?thesis
      unfolding removeSubset_def returns_bnd returns_readDE None option.case returns_ret
      by (simp add: returns_bnd returns_modifyStatus returns_ret givesD [OF total_StatusUpdate(1)])
  qed
qed

lemma total_cleanup_removed [gives_intro]: "halts (cleanup_removed c sts)"
proof -
  have "halts (remove_all c m names b)" for m names b
    by (induction names arbitrary: b) (auto intro!: gives_intro)
  then show ?thesis
    unfolding cleanup_removed_def RemoveSubsetsAndConsumers_def by (intro gives_intro TrueI)
qed

section \<open>The handlers of deployments and destination rules\<close>

lemma createOverridingDeployment_returns:
  "base_complete (dh_BaseDeployment h) \<Longrightarrow> createOverridingDeployment h \<noteq> Panic"
  using createOverridingDeployment_complete by fastforce

lemma call_keeps_ready: "hash_ready tpe s \<Longrightarrow> returns (call f) s (\<lambda>x t. hash_ready tpe t)"
  by (auto simp: wp hash_ready_def split: prod.split)

lemma UpdateIfRequired_total:
  assumes "status_echoes c" and "base_complete (dh_BaseDeployment h)"
  shows "halts (UpdateIfRequired c h)"
proof -
  have built: "createOverridingDeployment (h\<lparr>dh_Updating := True\<rparr>) \<noteq> Panic"
    using createOverridingDeployment_returns [of "h\<lparr>dh_Updating := True\<rparr>"] assms(2) by simp
  have writes: "halts (bnd (dh_setStatus c g Updating) (\<lambda>r. case r of
      Some err \<Rightarrow> ret (g, Some (e1 err))
    | None \<Rightarrow> bnd (call (UpdateDeployment c d)) (\<lambda>r. case r of
        Some err \<Rightarrow> ret (g, Some (e2 err))
      | None \<Rightarrow> bnd (ApplyHash c (dh_SubsetName g) hash (dh_DeploymentType g)) (\<lambda>r. case r of
          Some err \<Rightarrow> ret (g, Some (e3 err)) | None \<Rightarrow> ret (g, None)))))" for g d hash e1 e2 e3
    by (rule givesI, unfold returns_bnd dh_setStatus_def, rule returns_mono [OF AddDeploymentStatusEntry_ready [OF assms(1)]])
      (auto simp: returns_bnd returns_ret split: option.split intro!: returns_mono [OF call_keeps_ready]
        returns_mono [OF ApplyHash_returns])
  show ?thesis
    unfolding UpdateIfRequired_def Let_def
    by (intro gives_intro gives_bnd_lift [OF built] writes TrueI)
qed

lemma total_dh_Handle:
  assumes "status_echoes c" and "base_complete (dh_BaseDeployment h)"
  shows "halts (dh_Handle c h)"
proof -
  note built = createOverridingDeployment_returns [OF assms(2)]
  have new: "halts (bnd (dh_setStatus c h Initializing) (\<lambda>r. case r of
      Some err \<Rightarrow> ret (h, Some (e1 err))
    | None \<Rightarrow> bnd (lift_outcome (createOverridingDeployment h)) (\<lambda>r. case r of
        Inl err2 \<Rightarrow> ret (h, Some err2)
      | Inr d \<Rightarrow> bnd (call (CreateDeployment c d)) (\<lambda>r. case r of
          Some err2 \<Rightarrow> ret (h, Some err2)
        | None \<Rightarrow> case HashStructure c (dh_Subset h) of
            Inl err \<Rightarrow> ret (h, Some (e2 err))
          | Inr hash \<Rightarrow> bnd (ApplyHash c (dh_SubsetName h) hash (dh_DeploymentType h)) (\<lambda>r. case r of
              Some err \<Rightarrow> ret (h, Some (e3 err)) | None \<Rightarrow> ret (h, None))))))" for e1 e2 e3
    unfolding dh_setStatus_def
    using built
    by (intro givesI, unfold returns_bnd, intro returns_mono [OF AddDeploymentStatusEntry_ready [OF assms(1)]])
      (auto simp: returns_bnd returns_ret returns_lift_outcome split: option.split outcome.split sum.split
        intro!: returns_mono [OF call_keeps_ready] returns_mono [OF ApplyHash_returns])
  show ?thesis
    unfolding dh_Handle_def by (intro gives_intro UpdateIfRequired_total assms new TrueI)
qed

lemma total_drh_Handle [gives_intro]: "halts (drh_Handle c h)"
proof -
  have "halts (createMissingDestinationRule c h n host)" for h n host
    unfolding createMissingDestinationRule_def drh_setStatus_def generateOverridingDestinationRule_def
      locateDestinationRuleByHostname_def
    by (intro gives_intro TrueI)
  then have "halts (handle_hosts c h hosts)" for h hosts
    by (induction hosts arbitrary: h) (auto intro!: gives_intro)
  then show ?thesis unfolding drh_Handle_def by (intro gives_intro TrueI)
qed

section \<open>The handler of virtual services\<close>

text \<open>
  No route of a virtual service that the server returns has a destination that is nil. An index is a pointer into the
  heap: the loops collect only indices that are in range, and updating keeps the heap well-formed.
\<close>

definition vs_answers_ok :: "'w Env \<Rightarrow> bool" where
  "vs_answers_ok c \<longleftrightarrow>
     (\<forall>w items. fst (ListVirtualServices c w) = Inr items \<longrightarrow> (\<forall>vs \<in> set items. dests_ok (vs_Http vs))) \<and>
     (\<forall>nn w vs. fst (GetVirtualService c nn w) = Inr vs \<longrightarrow> dests_ok (vs_Http vs)) \<and>
     (\<forall>vs w. dests_ok (vs_Http vs) \<longrightarrow> dests_ok (vs_Http (snd (fst (UpdateVirtualService c vs w)))))"

definition heap_ok :: "vs_heap \<Rightarrow> bool" where
  "heap_ok heap \<longleftrightarrow> (\<forall>vs \<in> set heap. dests_ok (vs_Http vs))"

lemma find_service_bound: "find_service d items i = Some p \<Longrightarrow> p < i + length items"
  by (induction items arbitrary: i) (fastforce split: if_splits)+

lemma resolve_total: "dests_ok routes \<Longrightarrow> resolveVirtualServices h host ns routes \<noteq> Panic"
proof (induction routes)
  case (Cons r routes)
  then have "\<forall>d \<in> set (hr_Route r). rd_Destination d \<noteq> None" "dests_ok routes"
    by (simp_all add: dests_ok_def)
  with Cons.IH show ?case
    by (auto simp: matches_service_host outcome_iffs)
qed simp

lemma dests_with_env_routes: "dests_ok routes \<Longrightarrow> dests_ok (with_env_routes c h host ns routes)"
  by (auto simp: dests_ok_def with_env_routes_def routes_for_def env_route_def env_route_body_def redirect_def
      split: if_splits)

definition located :: "vs_heap \<Rightarrow> vs_heap \<times> (goerror + nat list) \<Rightarrow> bool" where
  "located heap = (\<lambda>(heap', r). heap_ok heap' \<and> length heap \<le> length heap' \<and>
     (\<forall>ps. r = Inr ps \<longrightarrow> (\<forall>p \<in> set ps. p < length heap')))"

lemma located_mono: "located heap' x \<Longrightarrow> length heap \<le> length heap' \<Longrightarrow> located heap x"
  by (auto simp: located_def)

lemma extract_total:
  assumes "vs_answers_ok c" and "heap_ok heap" and "length items \<le> length heap"
  shows "gives (extractServiceFromDelegate c h d items heap) (\<lambda>(heap', r). heap_ok heap' \<and>
    length heap \<le> length heap' \<and> (\<forall>p. r = Inr (Some p) \<longrightarrow> p < length heap'))"
proof (cases "find_service d items 0")
  case (Some p)
  with find_service_bound [OF this] assms(2,3) show ?thesis
    by (auto simp: extractServiceFromDelegate_def intro!: gives_intro)
next
  case None
  have "gives (call (GetVirtualService c nn)) (\<lambda>r. \<forall>vs. r = Inr vs \<longrightarrow> dests_ok (vs_Http vs))" for nn
    using assms(1) by (intro gives_intro) (simp add: vs_answers_ok_def)
  note get = gives_bnd [OF this]
  show ?thesis
    unfolding extractServiceFromDelegate_def None option.case Let_def
    by (rule total_bnd [OF total_AddGlobalVirtualServiceError], rule get)
      (use assms(2) in \<open>auto intro!: gives_intro simp: heap_ok_def\<close>)
qed

lemma locate_delegates_total:
  assumes "vs_answers_ok c" and "heap_ok heap" and "length items \<le> length heap" and "\<forall>p \<in> set result. p < length heap"
  shows "gives (locate_delegates c h items ds result heap) (located heap)"
  using assms(2-)
proof (induction ds arbitrary: result heap)
  case (Cons d ds)
  show ?case
    unfolding locate_delegates.simps
  proof (rule gives_bnd [OF extract_total [OF assms(1) Cons.prems(1,2)]], clarify, intro gives_intro)
    fix heap' r
    assume heap': "heap_ok heap'" "length heap \<le> length heap'" "\<forall>p. r = Inr (Some p) \<longrightarrow> p < length heap'"
    have result: "\<forall>p \<in> set result. p < length heap'" using Cons.prems(3) heap'(2) by auto
    have IH: "gives (locate_delegates c h items ds res heap') (located heap)" if "\<forall>p \<in> set res. p < length heap'" for res
      using Cons.IH [OF heap'(1) _ that] heap'(2) Cons.prems(2) by (auto elim: gives_weaken intro: located_mono)
    show "gives (locate_delegates c h items ds result heap') (located heap)" by (rule IH [OF result])
    show "gives (locate_delegates c h items ds (result @ [p]) heap') (located heap)" if "r = Inr x" "x = Some p" for p x
      using that heap'(3) result by (intro IH) auto
  qed (simp_all add: located_def)
qed (simp add: located_def gives_intro)

lemma locate_hosts_total:
  assumes "vs_answers_ok c" and "dests_ok (vs_Http service)" and "heap_ok heap" and "length items \<le> length heap"
    and "idx < length items" and "\<forall>p \<in> set result. p < length heap"
  shows "gives (locate_hosts c h host items idx service hosts result heap) (located heap)"
  using assms(3-)
proof (induction hosts arbitrary: result heap)
  case (Cons x hosts)
  have next': "gives (bnd (locate_delegates c h items ds (if b then result @ [idx] else result) heap) (\<lambda>(heap, r). case r of
      Inl err \<Rightarrow> ret (heap, Inl err)
    | Inr result \<Rightarrow> locate_hosts c h host items idx service hosts result heap)) (located heap)" for ds b
    using Cons.prems
    by (intro gives_bnd [OF locate_delegates_total [OF assms(1)]])
      (auto simp: located_def split: sum.split intro!: gives_intro gives_weaken [OF Cons.IH])
  show ?case
    unfolding locate_hosts.simps
    using Cons by (intro gives_intro gives_bnd_lift resolve_total assms(2) next') auto
qed (simp add: located_def gives_intro)

lemma locate_items_total:
  assumes "vs_answers_ok c"
  shows "heap_ok heap \<Longrightarrow> length items \<le> length heap \<Longrightarrow> idx + length rest = length items \<Longrightarrow> heap_ok rest \<Longrightarrow>
    \<forall>p \<in> set result. p < length heap \<Longrightarrow>
    gives (locate_items c h host items idx rest result heap) (located heap)"
proof (induction rest arbitrary: idx result heap)
  case (Cons service rest)
  then have service: "dests_ok (vs_Http service)" "idx < length items" "heap_ok rest"
    by (simp_all add: heap_ok_def)
  show ?case
    unfolding locate_items.simps
    by (rule gives_bnd [OF locate_hosts_total [OF assms service(1) Cons.prems(1,2) service(2) Cons.prems(5)]])
      (use Cons.prems(2,3) service(3) in \<open>auto simp: located_def intro!: gives_intro gives_weaken [OF Cons.IH]\<close>)
qed (simp add: located_def gives_intro)

lemma locate_total: "vs_answers_ok c \<Longrightarrow> gives (locateVirtualServicesByServiceHost c h host) (located [])"
proof -
  assume ok: "vs_answers_ok c"
  then have "gives (call (ListVirtualServices c)) (\<lambda>r. \<forall>items. r = Inr items \<longrightarrow> heap_ok items)"
    by (intro gives_intro) (simp add: vs_answers_ok_def heap_ok_def)
  note list_services = gives_bnd [OF this]
  show ?thesis
    unfolding locateVirtualServicesByServiceHost_def
    by (rule list_services) (auto intro!: gives_intro gives_weaken [OF locate_items_total [OF ok]] simp: located_def heap_ok_def [of "[]"])
qed

lemma updateVirtualService_total:
  assumes "vs_answers_ok c" and "heap_ok heap" and "p < length heap"
  shows "gives (updateVirtualService c h heap p host) (\<lambda>(heap', r). heap_ok heap' \<and> length heap' = length heap)"
proof -
  have ok: "dests_ok (vs_Http (heap ! p))" using assms(2,3) by (simp add: heap_ok_def)
  have stored: "heap_ok (heap[p := v])" if "dests_ok (vs_Http v)" for v
    using that assms(2) set_update_subset_insert [of heap p v] by (auto simp: heap_ok_def)
  have sent: "gives (call (UpdateVirtualService c vs)) (\<lambda>(r, v). dests_ok (vs_Http v))" if "dests_ok (vs_Http vs)" for vs
    using assms(1) that by (intro gives_intro) (simp add: vs_answers_ok_def split_beta)
  have new: "dests_ok (with_env_routes c h host ns (vs_Http (heap ! p)))" for ns
    by (rule dests_with_env_routes [OF ok])
  show ?thesis
    unfolding updateVirtualService_def Let_def new_routes_eq [OF ok] bnd_lift_Done sum.case
    by (intro gives_if gives_ret total_bnd total_entries gives_option gives_bnd [OF sent])
      (auto simp: assms(2) new intro!: gives_intro stored)
qed

lemma update_services_total:
  assumes "vs_answers_ok c"
  shows "heap_ok heap \<Longrightarrow> \<forall>p \<in> set ps. p < length heap \<Longrightarrow> halts (update_services c h host heap ps b)"
proof (induction ps arbitrary: heap b)
  case (Cons p ps)
  then show ?case
    unfolding update_services.simps
    by (intro gives_bnd [OF updateVirtualService_total [OF assms]]) (auto intro!: gives_intro)
qed (simp add: gives_intro)

lemma total_vsh_Handle:
  assumes "vs_answers_ok c"
  shows "halts (vsh_Handle c h)"
proof -
  have "halts (handle_service_hosts c h hosts)" for h hosts
  proof (induction hosts arbitrary: h)
    case (Cons host hosts)
    show ?case
      unfolding handle_service_hosts.simps Let_def
      by (rule gives_bnd [OF locate_total [OF assms]])
        (auto simp: located_def intro!: gives_intro update_services_total [OF assms] Cons.IH)
  qed (simp add: gives_intro)
  then show ?thesis unfolding vsh_Handle_def by (intro gives_intro TrueI)
qed

section \<open>The statuses\<close>

lemma total_dh_status [gives_intro]: "halts (dh_GetStatus c h)" "halts (dh_ApplyStatus c h st)"
  unfolding dh_GetStatus_def dh_ApplyStatus_def by (intro gives_intro TrueI)+

lemma total_status_loops [gives_intro]:
  "halts (status_hosts c h hosts sts)" "halts (apply_dr_statuses c k rss)" "halts (apply_vs_statuses c k rss)"
  "halts (fetch_services c nns vss)"
     apply (induction hosts arbitrary: sts; auto simp: Let_def intro!: gives_intro)
    apply (induction rss; auto intro!: gives_intro)
   apply (induction rss; auto intro!: gives_intro)
  apply (induction nns arbitrary: vss; auto intro!: gives_intro)
  done

lemma total_mrh_status [gives_intro]: "halts (mrh_GetStatus c mh)" "halts (mrh_ApplyStatus c mh sts)"
  by (cases mh; auto simp: drh_GetStatus_def drh_ApplyStatus_def vsh_GetStatus_def vsh_ApplyStatus_def intro!: gives_intro)+

lemma total_processHandlersStatus [gives_intro]: "halts (processHandlersStatus c dhs mrhs)"
proof -
  have "halts (process_srhs c dhs vars)" for vars
    by (induction dhs arbitrary: vars) (auto simp: split_paired_all Let_def split_beta intro!: gives_intro)
  moreover have "halts (process_mrhs c mrhs vars)" for vars
    by (induction mrhs arbitrary: vars) (auto simp: split_paired_all Let_def split_beta intro!: gives_intro)
  ultimately show ?thesis
    unfolding processHandlersStatus_def by (intro gives_intro TrueI)
qed

section \<open>The reconciler\<close>

text \<open>Every deployment that the server returns has the fields that the deployment handler dereferences.\<close>

definition deployments_complete :: "'w Env \<Rightarrow> bool" where
  "deployments_complete c \<longleftrightarrow> (\<forall>nn w d. fst (GetDeployment c nn w) = Inr d \<longrightarrow> base_complete d)"

lemma total_process_mesh: "vs_answers_ok c \<Longrightarrow> halts (process_mesh c r data hosts vars)"
  unfolding process_mesh_def by (intro gives_intro total_vsh_Handle TrueI)

lemma total_process_one:
  assumes "status_echoes c" and "vs_answers_ok c" and "deployments_complete c"
  shows "halts (process_one c r ident st vars)"
proof -
  have "gives (call (GetDeployment c nn)) (\<lambda>r. \<forall>d. r = Inr d \<longrightarrow> base_complete d)" for nn
    using assms(3) by (intro gives_intro) (simp add: deployments_complete_def)
  note get = gives_bnd [OF this]
  have handled: "halts (dh_Handle c (NewDeploymentHandler data dt ls vl))" if "base_complete (rd_BaseDeployment data)" for data dt ls vl
    using that by (intro total_dh_Handle assms(1)) (simp add: NewDeploymentHandler_def Let_def)
  have hosts: "halts (locateMatchingServiceHostnames c ns ls)" for ns ls
    unfolding locateMatchingServiceHostnames_def by (intro gives_intro TrueI)
  show ?thesis
    unfolding process_one_def split_beta Let_def
    by (rule get)
      (auto intro!: gives_intro handled hosts total_process_mesh [OF assms(2)])
qed

lemma total_reconcile_env:
  assumes "status_echoes c" and "vs_answers_ok c" and "deployments_complete c"
  shows "halts (reconcile_env c r)"
proof -
  have "halts (process_loop c r ident sts vars)" for ident sts vars
    by (induction sts arbitrary: vars) (auto intro!: gives_intro total_process_one [OF assms])
  then have "halts (processSubsetsAndConsumers c r)"
    unfolding processSubsetsAndConsumers_def by (intro gives_intro)
  then show ?thesis
    unfolding reconcile_env_def reconcile_live_def ensureFinalizers_def finish_def
    by (intro gives_intro TrueI)
qed

section \<open>Properties\<close>

text \<open>
  C9: a reconcile call returns. Whatever the environment looks like and however the server answers, with errors or
  not, a call of \<open>Reconcile\<close> ends with a result and does not panic, provided that the deployments the server returns
  have labels, a selector with match labels, replicas and template labels, that the destinations in the virtual
  services are not nil, and that a status update is answered with the status that was sent.
\<close>

theorem Reconcile_returns:
  assumes "status_echoes c" and "vs_answers_ok c" and "deployments_complete c"
  shows "\<exists>res w'. Reconcile c r req w = (Done res, w')"
proof (cases "GetDynamicEnv c req w")
  case (Pair ans w1)
  show ?thesis
  proof (cases ans)
    case (Inr de)
    from gives_Done [OF total_reconcile_env [OF assms], of r "\<lparr>cur_de = de, world = w1\<rparr>"] obtain res t where
      "reconcile_env c r \<lparr>cur_de = de, world = w1\<rparr> = (Done res, t)" by blast
    with Pair Inr show ?thesis by (simp add: Reconcile_def)
  qed (simp add: Reconcile_def Pair)
qed

text \<open>A cluster in which every deployment and every virtual service is the sample one.\<close>

definition static_cluster :: "mem Env" where
  "static_cluster = mem_env\<lparr>GetDeployment := (\<lambda>nn w. (Inr sample_base, w)), GetVirtualService := (\<lambda>nn w. (Inr sample_vs, w)),
     ListVirtualServices := (\<lambda>w. (Inr [sample_vs], w)), UpdateVirtualService := (\<lambda>vs w. ((None, vs), w))\<rparr>"

theorem Reconcile_returns_witness:
  "\<exists>res w'. Reconcile static_cluster sample_reconciler (sample_req ''env'') (sample_world sample_available) = (Done res, w')"
proof (rule Reconcile_returns)
  show "status_echoes static_cluster" by (simp add: status_echoes_def static_cluster_def mem_env_def)
  have "dests_ok (vs_Http sample_vs)" by (simp add: sample_vs_def sample_default(2))
  then show "vs_answers_ok static_cluster" by (simp add: vs_answers_ok_def static_cluster_def)
  have "base_complete sample_base" by (simp add: base_complete_def sample_base_def)
  then show "deployments_complete static_cluster" by (simp add: deployments_complete_def static_cluster_def)
qed

end
