(* ===== verification/Reporting.thy ===== *)
theory Reporting
  imports Reconcile_Correct
begin

text \<open>
  What the report of a run tells about the resources of each subset and consumer: a base deployment that could not be read
  is reported, and an environment that is reported ready has a destination rule for every subset. The resources that a run
  writes carry the annotation that leads their events back to the environment.
\<close>

section \<open>Destination rules that were seen or created\<close>

definition rule_there :: "DestinationRuleHandler \<Rightarrow> string \<Rightarrow> effect list \<Rightarrow> bool" where
  "rule_there h host es \<longleftrightarrow> (\<exists>d. GotDestinationRule (drh_key h host) (Inr d) \<in> set es) \<or>
     (\<exists>d. CreatedDestinationRule d None \<in> set es \<and> own_rule h host d)"

lemma rule_there_mono: "rule_there h host es \<Longrightarrow> set es \<subseteq> set fs \<Longrightarrow> rule_there h host fs"
  by (auto simp: rule_there_def)

lemma rule_there_same: "same_handler h h' \<Longrightarrow> rule_there h' = rule_there h"
  by (simp add: fun_eq_iff rule_there_def same_handlerD(2,3))

lemma yields_grows: "does A m \<Longrightarrow> yields m s (\<lambda>x t. set (log_of s) \<subseteq> set (log_of t))"
  by (rule yieldsI) (auto elim!: doesD)

lemma create_there:
  assumes "host \<in> set (drh_ServiceHosts h)"
  shows "yields (createMissingDestinationRule (traced c) h (calculateDRName h host) host) s (\<lambda>(h', err) t.
    set (log_of s) \<subseteq> set (log_of t) \<and> same_handler h h' \<and>
    (\<forall>x \<in> set (drh_activeHosts h'). x \<in> set (drh_activeHosts h) \<or> rule_there h x (log_of t)))"
proof -
  let ?owned = "\<lambda>d. d\<lparr>dr_Meta := (dr_Meta d)\<lparr>om_Annotations := AddToAnnotation (drh_Owner h) (om_Annotations (dr_Meta d))\<rparr>\<rparr>"
  have gen: "yields (generateOverridingDestinationRule (traced c) h host) u (\<lambda>r t. \<forall>d. r = Inr d \<longrightarrow> own_rule h host (?owned d))" for u
    by (rule yieldsI) (auto dest: generate_own)
  have created: "yields (call (CreateDestinationRule (traced c) d)) u (\<lambda>r t. CreatedDestinationRule d r \<in> set (log_of t))" for d u
    by (cases "world u") (simp add: yields_simps log_call_eq split: prod.split)
  have "yields (createMissingDestinationRule (traced c) h (calculateDRName h host) host) s (\<lambda>(h', err) t. same_handler h h' \<and>
      (\<forall>x \<in> set (drh_activeHosts h'). x \<in> set (drh_activeHosts h) \<or> rule_there h x (log_of t)))"
    unfolding createMissingDestinationRule_def Let_def yields_bnd
    apply (rule yields_mono [OF yields_any], rule yields_option)
     apply (simp only: yields_bnd, rule yields_mono [OF gen], rule yields_sum)
      apply (rule yields_if; simp add: yields_simps)
     apply (simp only: yields_bnd, rule yields_mono [OF created])
    subgoal for r u ans v d e x by (cases e) (auto simp: yields_simps rule_there_def)
    apply (simp add: yields_simps)
    done
  with yields_grows [OF create_own [OF assms], of c s] show ?thesis by (auto simp: yields_def)
qed

lemma handle_hosts_there:
  assumes "set hosts \<subseteq> set (drh_ServiceHosts h)"
  shows "yields (handle_hosts (traced c) h hosts) s (\<lambda>(h', err) t.
    \<forall>x \<in> set (drh_activeHosts h'). x \<in> set (drh_activeHosts h) \<or> rule_there h x (log_of t))"
  using assms
proof (induction hosts arbitrary: h s)
  case (Cons host hosts)
  have rest: "yields (handle_hosts (traced c) g hosts) t (\<lambda>(h', err) u.
      \<forall>x \<in> set (drh_activeHosts h'). x \<in> set (drh_activeHosts h) \<or> rule_there h x (log_of u))"
    if "same_handler h g" "\<forall>x \<in> set (drh_activeHosts g). x \<in> set (drh_activeHosts h) \<or> rule_there h x (log_of t)" for g t
  proof -
    have "set hosts \<subseteq> set (drh_ServiceHosts g)" using Cons.prems same_handlerD(5) [OF that(1)] by simp
    note run = yields_conj [OF Cons.IH [OF this] yields_grows [OF handle_hosts_own [OF this]]]
    have "x \<in> set (drh_activeHosts h) \<or> rule_there h x es"
      if "x \<in> set (drh_activeHosts g) \<or> rule_there g x es" "set (log_of t) \<subseteq> set es" for x es
      using that \<open>\<forall>x \<in> set (drh_activeHosts g). _\<close> rule_there_same [OF \<open>same_handler h g\<close>] rule_there_mono by metis
    then show ?thesis by (auto intro!: yields_mono [OF run])
  qed
  have get: "yields (call (GetDestinationRule (traced c) nn)) s (\<lambda>r t. set (log_of s) \<subseteq> set (log_of t) \<and>
      GotDestinationRule nn r \<in> set (log_of t))" for nn
    by (cases "world s") (auto simp: yields_simps log_call_eq split: prod.split)
  show ?case
    unfolding handle_hosts.simps yields_bnd
    apply (rule yields_mono [OF get], rule yields_sum)
     apply (rule yields_if)
      apply (simp only: yields_bnd, rule yields_mono [OF create_there])
    using Cons.prems apply simp
      apply (clarsimp split: prod.split, rule yields_option)
       apply (rule rest, assumption, assumption)
      apply (simp add: yields_simps)
     apply (simp add: yields_simps)
    apply (rule rest; auto simp: rule_there_def)
    done
qed (simp add: yields_simps)

lemma drh_Handle_there:
  "yields (drh_Handle (traced c) (NewDestinationRuleHandler data vl dv hosts)) s (\<lambda>(h', err) t.
     \<forall>x \<in> set (drh_GetHosts h'). rule_there (NewDestinationRuleHandler data vl dv hosts) x (log_of t))"
proof -
  let ?h = "NewDestinationRuleHandler data vl dv hosts"
  have "drh_activeHosts ?h = []" "drh_ServiceHosts ?h = hosts" by (simp_all add: NewDestinationRuleHandler_def Let_def)
  with handle_hosts_there [of hosts ?h c s]
  have hs: "yields (handle_hosts (traced c) ?h hosts) s (\<lambda>(h', err) t. \<forall>x \<in> set (drh_activeHosts h'). rule_there ?h x (log_of t))"
    by simp
  show ?thesis
    unfolding drh_Handle_def yields_bnd \<open>drh_ServiceHosts ?h = hosts\<close>
    by (rule yields_mono [OF hs]) (auto simp: drh_GetHosts_def yields_simps intro!: yields_option yields_if)
qed

section \<open>What the loop over subsets and consumers leaves behind\<close>

definition base_key :: "SubsetType \<Rightarrow> NamespacedName" where
  "base_key st = \<lparr>nn_Namespace = sub_Namespace (sbt_Subset st), nn_Name = sub_Name (sbt_Subset st)\<rparr>"

definition rule_key :: "NamespacedName \<Rightarrow> SubsetType \<Rightarrow> string \<Rightarrow> NamespacedName" where
  "rule_key ident st host = \<lparr>nn_Namespace = sub_Namespace (sbt_Subset st),
     nn_Name = sub_Name (sbt_Subset st) @ ''-'' @ UniqueDynamicEnvName ident @ ''-'' @ host\<rparr>"

definition rule_seen :: "NamespacedName \<Rightarrow> SubsetType \<Rightarrow> string \<Rightarrow> effect list \<Rightarrow> bool" where
  \<comment> \<open>the destination rule of the environment for a host was found, or created with the version of the environment\<close>
  "rule_seen ident st host es \<longleftrightarrow> (\<exists>d. GotDestinationRule (rule_key ident st host) (Inr d) \<in> set es) \<or>
     (\<exists>d. CreatedDestinationRule d None \<in> set es \<and> meta_key (dr_Meta d) = rule_key ident st host \<and>
        map is_Name (dr_Subsets d) = [UniqueDynamicEnvName ident])"

definition settled :: "ReconcileLoopStatus \<Rightarrow> bool" where
  "settled rls \<longleftrightarrow> nme_error (rls_returnError rls) = None \<and> \<not> rls_degradedExists rls"

definition marks :: "ReconcileLoopStatus \<Rightarrow> string set" where
  \<comment> \<open>the names that are marked as not ready in a run with an error\<close>
  "marks rls = (if nme_error (rls_returnError rls) = None then {} else set (gm_keys (rls_nonReadyCS rls)))"

definition accounted :: "NamespacedName \<Rightarrow> ReconcileLoopStatus \<Rightarrow> effect list \<Rightarrow> SubsetType \<Rightarrow> bool" where
  "accounted ident rls es st \<longleftrightarrow>
     ((\<exists>d. GotDeployment (base_key st) (Inr d) \<in> set es) \<or> MKSubsetName (sbt_Subset st) \<in> marks rls) \<and>
     (settled rls \<and> sbt_Type st = SUBSET \<longrightarrow> (\<exists>host. rule_seen ident st host es))"

definition rls_grows :: "ReconcileLoopStatus \<Rightarrow> ReconcileLoopStatus \<Rightarrow> bool" where
  "rls_grows rls rls' \<longleftrightarrow> marks rls \<subseteq> marks rls' \<and> (settled rls' \<longrightarrow> settled rls)"

lemma rls_grows_refl [simp]: "rls_grows rls rls"
  by (simp add: rls_grows_def)

lemma rls_grows_trans: "rls_grows a b \<Longrightarrow> rls_grows b d \<Longrightarrow> rls_grows a d"
  by (auto simp: rls_grows_def)

lemma degraded_updates [simp]:
  "rls_degradedExists (add_subset_message app n m rls) = rls_degradedExists rls"
  "rls_degradedExists (force_error e rls) = rls_degradedExists rls"
  "rls_degradedExists (set_non_ready n rls) = rls_degradedExists rls"
  "rls_degradedExists (addDeploymentMessage rls n tpe m) = rls_degradedExists rls"
  by (simp_all add: add_subset_message_def force_error_def set_non_ready_def addDeploymentMessage_def)

lemma rule_seen_mono: "rule_seen ident st host es \<Longrightarrow> set es \<subseteq> set fs \<Longrightarrow> rule_seen ident st host fs"
  by (auto simp: rule_seen_def)

lemma accounted_mono:
  "accounted ident rls es st \<Longrightarrow> rls_grows rls rls' \<Longrightarrow> set es \<subseteq> set fs \<Longrightarrow> accounted ident rls' fs st"
  using rule_seen_mono [of ident st _ es fs] by (fastforce simp: accounted_def rls_grows_def)

lemma rule_there_seen:
  "rule_there (NewDestinationRuleHandler data vl dv hosts) host es \<Longrightarrow> rd_Identifier data = ident \<Longrightarrow>
   rd_Subset data = sbt_Subset st \<Longrightarrow> rule_seen ident st host es"
  by (auto simp: rule_there_def rule_seen_def own_rule_def drh_key_def rule_key_def calculateDRName_def
      NewDestinationRuleHandler_def MkSubsetUniqueName_def Let_def)

lemma process_mesh_accounts:
  assumes "rd_Identifier data = ident" and "rd_Subset data = sbt_Subset st"
  shows "yields (process_mesh (traced c) r data hosts (rls, dhs, mrhs)) s (\<lambda>(rls', dhs', mrhs') t. rls_grows rls rls' \<and>
    (settled rls' \<longrightarrow> (\<exists>host. rule_seen ident st host (log_of t))))"
proof -
  have seen: "rule_seen ident st x es" if "rule_there (NewDestinationRuleHandler data vl dv hosts) x fs" "set fs \<subseteq> set es" for vl dv x es fs
    using rule_there_seen [OF rule_there_mono [OF that] assms] .
  have vsh: "yields (vsh_Handle (traced c) h) u (\<lambda>x t. set (log_of u) \<subseteq> set (log_of t))" for h u
    by (rule yields_grows [OF vs_handler.handle_law])
  show ?thesis
    unfolding process_mesh_def Let_def prod.case yields_bnd
    apply (rule yields_mono [OF drh_Handle_there], clarify)
    subgoal for d err t
      apply (cases err; simp only: option.case yields_simps prod.case)
       apply (rule yields_mono [OF vsh], clarsimp simp: yields_simps CommonValueExists_iff split del: if_split)
      subgoal for v e u
        by (cases e) (auto simp: rls_grows_def settled_def marks_def dest: seen)
      apply (auto simp: rls_grows_def settled_def marks_def)
      done
    done
qed

lemma process_one_accounts:
  "yields (process_one (traced c) r ident st (rls, dhs, mrhs)) s (\<lambda>(rls', dhs', mrhs') t. rls_grows rls rls' \<and>
     set (log_of s) \<subseteq> set (log_of t) \<and> accounted ident rls' (log_of t) st)"
proof -
  let ?name = "MKSubsetName (sbt_Subset st)"
  let ?P = "\<lambda>(rls', dhs', mrhs') t. rls_grows rls rls' \<and>
      ((\<exists>d. GotDeployment (base_key st) (Inr d) \<in> set (log_of t)) \<or> ?name \<in> marks rls') \<and>
      (settled rls' \<and> sbt_Type st = SUBSET \<longrightarrow> (\<exists>host. rule_seen ident st host (log_of t)))"
  have get: "yields (call (GetDeployment (traced c) nn)) s (\<lambda>x t. GotDeployment nn x \<in> set (log_of t))" for nn
    by (cases "world s") (auto simp: yields_simps log_call_eq split: prod.split)
  have mesh: "yields (process_mesh (traced c) r \<lparr>rd_Identifier = ident, rd_BaseDeployment = b, rd_Subset = sbt_Subset st,
      rd_Matches = ms\<rparr> hosts (rls, dhs, mrhs)) t ?P"
    if "GotDeployment (base_key st) (Inr b) \<in> set (log_of t)" for b ms hosts dhs mrhs t
  proof -
    have "does (own_writes ident [st]) (process_mesh (traced c) r \<lparr>rd_Identifier = ident, rd_BaseDeployment = b,
        rd_Subset = sbt_Subset st, rd_Matches = ms\<rparr> hosts (rls, dhs, mrhs))"
      by (rule process_mesh_writes) simp_all
    from yields_conj [OF process_mesh_accounts [where st = st] yields_grows [OF this]] that show ?thesis
      by (auto intro: yields_mono)
  qed
  have dh: "yields (dh_Handle (traced c) h) u (\<lambda>x t. set (log_of u) \<subseteq> set (log_of t))" for h u
    by (rule yields_grows [OF dep_handler.handle_law])
  have hosts: "yields (locateMatchingServiceHostnames (traced c) ns ls) u (\<lambda>x t. set (log_of u) \<subseteq> set (log_of t))" for ns ls u
    unfolding locateMatchingServiceHostnames_def by (intro yields_grows [where A = "\<lambda>_. True"] does_intro)
  have "yields (process_one (traced c) r ident st (rls, dhs, mrhs)) s ?P"
    unfolding process_one_def Let_def prod.case yields_bnd base_key_def [symmetric]
    apply (rule yields_mono [OF get], rule yields_sum)
     apply (auto simp: yields_simps rls_grows_def settled_def marks_def)[1]
    apply (simp only: yields_simps)
    apply (rule yields_mono [OF dh], clarify)
    apply (rule yields_option)
     apply (rule yields_if; simp only: yields_simps)
      apply (rule yields_mono [OF hosts], rule yields_sum)
       apply (auto simp: yields_simps rls_grows_def settled_def marks_def)[1]
      apply (rule yields_mono [OF mesh], blast, clarsimp)
     apply (auto simp: yields_simps rls_grows_def settled_def marks_def)
    done
  from yields_conj [OF this yields_grows [OF process_one_writes [of st "[st]"]]] show ?thesis
    by (rule yields_mono) (auto simp: accounted_def)
qed

lemma process_loop_accounts:
  "yields (process_loop (traced c) r ident sts vars) s (\<lambda>(rls', dhs', mrhs') t. rls_grows (fst vars) rls' \<and>
     set (log_of s) \<subseteq> set (log_of t) \<and> (\<forall>st \<in> set sts. accounted ident rls' (log_of t) st))"
proof (induction sts arbitrary: vars s)
  case (Cons st sts)
  obtain rls dhs mrhs where vars: "vars = (rls, dhs, mrhs)" by (cases vars)
  show ?case
    unfolding vars process_loop.simps yields_bnd
    apply (rule yields_mono [OF process_one_accounts], clarify)
    apply (rule yields_mono [OF Cons.IH])
    apply (auto intro: rls_grows_trans accounted_mono)
    done
qed (simp add: yields_simps split: prod.split)

section \<open>The whole run\<close>

lemma answer_error: "answer nonReady (Some x) = (res, err) \<Longrightarrow> err = Some x \<or> Requeue res"
  by (auto simp: answer_def split: if_splits)

lemma answered:
  assumes "report n nonReady rls nde" and "res = answer nonReady (case nme_error (rls_returnError rls) of None \<Rightarrow> e | Some x \<Rightarrow> Some x)"
    and "k \<in> marks rls"
  shows "st_State (de_Status nde) = Degraded \<and> st_TotalReady (de_Status nde) < st_TotalCount (de_Status nde) \<and>
    (snd res \<noteq> None \<or> Requeue (fst res))"
proof -
  from assms(3) obtain x where x: "nme_error (rls_returnError rls) = Some x" and k: "k \<in> set (gm_keys (rls_nonReadyCS rls))"
    by (auto simp: marks_def split: if_splits)
  from k have "gm_keys (rls_nonReadyCS rls) \<noteq> []" by auto
  then have "gm_len (rls_nonReadyCS rls) > 0" using gm_len_zero [of "rls_nonReadyCS rls"] by simp
  with assms(1,2) x answer_error [of nonReady x "fst res" "snd res"] show ?thesis
    by (auto simp: report_def global_state_def NonMaskingError_IsNil_def)
qed

lemma reconcile_live_accounts:
  assumes "spec_echoes c" and "same_env de s"
  shows "yields (reconcile_live (traced c) r) s (\<lambda>res t. \<exists>es nde e n nonReady rls. log_of t = es @ [UpdatedStatus nde e] \<and>
    report n nonReady rls nde \<and>
    res = answer nonReady (case nme_error (rls_returnError rls) of None \<Rightarrow> e | Some x \<Rightarrow> Some x) \<and>
    (\<forall>st \<in> set (subsets_and_consumers de). accounted (de_ident de) rls es st))"
proof -
  have loop: "yields (processSubsetsAndConsumers (traced c) r) t (\<lambda>(rls', dhs', mrhs') u.
      \<forall>st \<in> set (subsets_and_consumers de). accounted (de_ident de) rls' (log_of u) st)" if "same_env de t" for t
    using that by (auto simp: processSubsetsAndConsumers_def yields_simps same_env_def intro!: yields_mono [OF process_loop_accounts])
  have statuses: "yields (processHandlersStatus (traced c) dhs mrhs) t (\<lambda>x u. set (log_of t) \<subseteq> set (log_of u))" for dhs mrhs t
    by (rule yields_grows [OF processHandlersStatus_writes])
  have kept: "accounted ident rls' fs st" if "accounted ident rls es st" "set es \<subseteq> set fs"
    "rls_degradedExists rls' = rls_degradedExists rls"
    "nme_error (rls_returnError rls') = None \<longrightarrow> nme_error (rls_returnError rls) = None"
    "set (gm_keys (rls_nonReadyCS rls)) \<subseteq> set (gm_keys (rls_nonReadyCS rls'))" for ident rls rls' es fs st
    using that by (intro accounted_mono [OF that(1)]) (auto simp: rls_grows_def marks_def settled_def)
  show ?thesis
    unfolding reconcile_live_def yields_bnd yields_readDE Let_def
    apply (rule yields_mono [OF keeps_yields [OF cleanup_removed_same_env [OF assms(1)] assms(2)]], clarify)
    apply (simp only: yields_bnd, rule yields_mono [OF loop], assumption, clarify)
    apply (simp only: yields_bnd, rule yields_mono [OF statuses], clarify)
    apply (rule yields_mono [OF finish_report], clarify)
    apply (intro exI conjI, assumption, assumption, assumption)
    apply (intro ballI, drule (1) bspec, erule kept)
       apply (auto split: option.splits)
    done
qed

lemma reconcile_env_accounts:
  assumes "spec_echoes c" and "de_DeletionTimestamp de = None"
  shows "yields (reconcile_env (traced c) r) (loaded de w req) (\<lambda>res t. \<forall>es nde e. log_of t = es @ [UpdatedStatus nde e] \<longrightarrow>
    (\<exists>n nonReady rls. report n nonReady rls nde \<and>
      res = answer nonReady (case nme_error (rls_returnError rls) of None \<Rightarrow> e | Some x \<Rightarrow> Some x) \<and>
      (\<forall>st \<in> set (subsets_and_consumers de). accounted (de_ident de) rls es st)))"
proof -
  have same: "same_env de (loaded de w req)" by (simp add: same_env_def)
  have fin: "yields (ensureFinalizers (traced c)) (loaded de w req) (\<lambda>r t. r = None \<or> (\<exists>nde e. last (log_of t) = UpdatedDynamicEnv nde e))"
    by (rule yieldsI) (auto simp: ensureFinalizers_def bnd_apply UpdateDE_def write_back_apply log_call_eq
        split: if_splits prod.splits option.splits)
  have live: "yields (reconcile_live (traced c) r) t (\<lambda>res t. \<forall>es nde e. log_of t = es @ [UpdatedStatus nde e] \<longrightarrow>
      (\<exists>n nonReady rls. report n nonReady rls nde \<and>
        res = answer nonReady (case nme_error (rls_returnError rls) of None \<Rightarrow> e | Some x \<Rightarrow> Some x) \<and>
        (\<forall>st \<in> set (subsets_and_consumers de). accounted (de_ident de) rls es st)))" if "same_env de t" for t
    by (rule yields_mono [OF reconcile_live_accounts [OF assms(1) that]]) fastforce
  show ?thesis
    unfolding reconcile_env_def yields_bnd
    apply (simp add: yields_simps markedForDeletion_def assms(2))
    apply (rule yields_mono [OF yields_conj [OF ensureFinalizers_same_env [OF assms(1) same] fin]])
    apply (elim conjE disjE exE)
     apply (simp add: live)
    apply (rule yields_option; auto simp: yields_simps live)
    done
qed

lemma Reconcile_accounts:
  assumes "spec_echoes c" and "GetDynamicEnv c req w = (Inr de, w1)" and "de_DeletionTimestamp de = None"
    and "Reconcile (traced c) r req (w, []) = (Done res, w', es @ [UpdatedStatus nde e])"
  obtains n nonReady rls where "report n nonReady rls nde"
    and "res = answer nonReady (case nme_error (rls_returnError rls) of None \<Rightarrow> e | Some x \<Rightarrow> Some x)"
    and "\<And>st. st \<in> set (subsets_and_consumers de) \<Longrightarrow> accounted (de_ident de) rls es st"
  using Reconcile_loaded_yields [OF assms(2) reconcile_env_accounts [OF assms(1,3)] assms(4)] by auto

section \<open>Properties\<close>

text \<open>
  C21: a base deployment that cannot be read is reported. When a run for an environment that is not being deleted
  did not get the base deployment of one of the subsets or consumers of the spec, then it reports the state \<open>Degraded\<close>
  and fewer ready ones than there are in total, and it returns an error or asks to be run again.
\<close>

theorem missing_base_reported:
  assumes "spec_echoes c" and "GetDynamicEnv c req w = (Inr de, w1)" and "de_DeletionTimestamp de = None"
    and "Reconcile (traced c) r req (w, []) = (Done (res, err), w', es @ [UpdatedStatus nde e])"
    and "st \<in> set (subsets_and_consumers de)" and "\<forall>d. GotDeployment (base_key st) (Inr d) \<notin> set es"
  shows "st_State (de_Status nde) = Degraded \<and> st_TotalReady (de_Status nde) < st_TotalCount (de_Status nde) \<and>
    (err \<noteq> None \<or> Requeue res)"
proof (rule Reconcile_accounts [OF assms(1-4)])
  fix n nonReady rls
  assume rep: "report n nonReady rls nde"
    and ans: "(res, err) = answer nonReady (case nme_error (rls_returnError rls) of None \<Rightarrow> e | Some x \<Rightarrow> Some x)"
    and all: "\<And>st. st \<in> set (subsets_and_consumers de) \<Longrightarrow> accounted (de_ident de) rls es st"
  have "MKSubsetName (sbt_Subset st) \<in> marks rls" using all [OF assms(5)] assms(6) by (simp add: accounted_def)
  from answered [OF rep ans this] show ?thesis by simp
qed

definition sample_missing :: "(Result \<times> goerror option) outcome \<times> mem \<times> effect list" where
  "sample_missing = Reconcile (traced mem_env) sample_reconciler (sample_req ''env'') (empty_mem\<lparr>m_des := [sample_consumer_env]\<rparr>, [])"

fun fetched :: "effect \<Rightarrow> bool" where
  "fetched (GotDeployment nn (Inr d)) = True"
| "fetched _ = False"

lemma sample_missing_run:
  "reported_state (last (snd (snd sample_missing))) = Some Degraded" "length (snd (snd sample_missing)) = 3"
  "list_all (\<lambda>e. \<not> fetched e) (snd (snd sample_missing))"
  "case fst sample_missing of Done (res, err) \<Rightarrow> err \<noteq> None | Panic \<Rightarrow> False"
  by code_simp+

theorem missing_base_reported_witness:
  "\<exists>es nde e. snd (snd sample_missing) = es @ [UpdatedStatus nde e] \<and>
     st_TotalReady (de_Status nde) < st_TotalCount (de_Status nde)"
proof -
  let ?log = "snd (snd sample_missing)"
  have "?log \<noteq> []" using sample_missing_run(2) by auto
  then obtain nde e where log: "?log = butlast ?log @ [UpdatedStatus nde e]"
    using last_report [OF sample_missing_run(1)] by blast
  obtain res err where out: "fst sample_missing = Done (res, err)"
    using sample_missing_run(4) by (cases "fst sample_missing") auto
  have run: "Reconcile (traced mem_env) sample_reconciler (sample_req ''env'') (empty_mem\<lparr>m_des := [sample_consumer_env]\<rparr>, []) =
      (Done (res, err), fst (snd sample_missing), butlast ?log @ [UpdatedStatus nde e])"
    using log out unfolding sample_missing_def by (metis prod.collapse)
  have get: "GetDynamicEnv mem_env (sample_req ''env'') (empty_mem\<lparr>m_des := [sample_consumer_env]\<rparr>) =
      (Inr sample_consumer_env, empty_mem\<lparr>m_des := [sample_consumer_env]\<rparr>)"
    by (simp add: mem_env_def sample_req_def sample_consumer_env_def)
  have live: "de_DeletionTimestamp sample_consumer_env = None" by (simp add: sample_consumer_env_def)
  have "\<forall>d. GotDeployment nn (Inr d) \<notin> set (butlast ?log)" for nn
    using sample_missing_run(3) in_set_butlastD [of _ ?log] by (auto simp: list_all_iff) (metis fetched.simps(1))
  with missing_base_reported [OF mem_env_spec_echoes get live run] log show ?thesis
    by (auto simp: sample_consumers)
qed

text \<open>
  C22: an environment that is reported ready has its destination rules. When a run reports \<open>Ready\<close>, then for every
  subset of the spec there is a service host for which the run has found the destination rule of the environment, or
  has created it with the version of the environment as its only subset.
\<close>

theorem ready_has_destination_rules:
  assumes "spec_echoes c" and "GetDynamicEnv c req w = (Inr de, w1)" and "de_DeletionTimestamp de = None"
    and "Reconcile (traced c) r req (w, []) = (Done (res, err), w', es @ [UpdatedStatus nde e])"
    and "st_State (de_Status nde) = Ready" and "s \<in> set (spec_Subsets (de_Spec de))"
  shows "\<exists>host. rule_seen (de_ident de) \<lparr>sbt_Type = SUBSET, sbt_Subset = s\<rparr> host es"
proof (rule Reconcile_accounts [OF assms(1-4)])
  fix n nonReady rls
  assume rep: "report n nonReady rls nde"
    and all: "\<And>st. st \<in> set (subsets_and_consumers de) \<Longrightarrow> accounted (de_ident de) rls es st"
  have "global_state nonReady (rls_degradedExists rls) (rls_returnError rls) = Ready"
    using rep assms(5) by (simp add: report_def)
  then have "settled rls" by (simp add: settled_def global_state_cases)
  moreover have "\<lparr>sbt_Type = SUBSET, sbt_Subset = s\<rparr> \<in> set (subsets_and_consumers de)"
    using assms(6) by (auto simp: mergeSubsetsAndConsumers_def)
  ultimately show ?thesis using all by (fastforce simp: accounted_def)
qed

definition sample_subset_env :: DynamicEnv where
  "sample_subset_env = sample_consumer_env\<lparr>
     de_Spec := \<lparr>spec_IstioMatches = Some [sample_match], spec_Subsets = [sample_override], spec_Consumers = []\<rparr>,
     de_Status := (de_Status sample_consumer_env)\<lparr>st_ConsumersStatus := None,
       st_SubsetsStatus := Some [(''ns/details'', SubsetStatus_zero\<lparr>ss_Hash := 12\<rparr>)]\<rparr>\<rparr>"

definition sample_mesh_world :: mem where
  "sample_mesh_world = empty_mem\<lparr>m_des := [sample_subset_env], m_deps := [sample_base, sample_available],
     m_drs := [sample_rule], m_vss := [sample_vs],
     m_svcs := [(''ns'', \<lparr>svc_Name = ''details'', svc_Selector = Some [(''app'', ''details'')]\<rparr>)]\<rparr>"

definition sample_mesh :: "(Result \<times> goerror option) outcome \<times> mem \<times> effect list" where
  "sample_mesh = Reconcile (traced mem_env) sample_reconciler (sample_req ''env'') (sample_mesh_world, [])"

lemma sample_mesh_run:
  "fst sample_mesh = Done (Result_zero, None)"
  "reported_state (last (snd (snd sample_mesh))) = Some Ready" "length (snd (snd sample_mesh)) = 15"
  by code_simp+

theorem ready_has_destination_rules_witness:
  "\<exists>es nde e host. snd (snd sample_mesh) = es @ [UpdatedStatus nde e] \<and>
     rule_seen (sample_req ''env'') \<lparr>sbt_Type = SUBSET, sbt_Subset = sample_override\<rparr> host es"
proof -
  let ?log = "snd (snd sample_mesh)"
  have "?log \<noteq> []" using sample_mesh_run(3) by auto
  then obtain nde e where log: "?log = butlast ?log @ [UpdatedStatus nde e]" and ready: "st_State (de_Status nde) = Ready"
    using last_report [OF sample_mesh_run(2)] by blast
  have run: "Reconcile (traced mem_env) sample_reconciler (sample_req ''env'') (sample_mesh_world, []) =
      (Done (Result_zero, None), fst (snd sample_mesh), butlast ?log @ [UpdatedStatus nde e])"
    using sample_mesh_run(1) log unfolding sample_mesh_def by (metis prod.collapse)
  have get: "GetDynamicEnv mem_env (sample_req ''env'') sample_mesh_world = (Inr sample_subset_env, sample_mesh_world)"
    by (simp add: mem_env_def sample_req_def sample_mesh_world_def sample_subset_env_def sample_consumer_env_def)
  have live: "de_DeletionTimestamp sample_subset_env = None" "de_ident sample_subset_env = sample_req ''env''"
    "sample_override \<in> set (spec_Subsets (de_Spec sample_subset_env))"
    by (simp_all add: sample_subset_env_def sample_consumer_env_def de_ident_def sample_req_def)
  from ready_has_destination_rules [OF mem_env_spec_echoes get live(1) run ready live(3)] log live(2)
  show ?thesis by auto
qed

section \<open>Events of the written resources\<close>

fun written_annotations :: "effect \<Rightarrow> string gomap option" where
  \<comment> \<open>the annotations of a deployment or destination rule that a request writes\<close>
  "written_annotations (CreatedDeployment d _) = Some (om_Annotations (dep_Meta d))"
| "written_annotations (UpdatedDeployment d _) = Some (om_Annotations (dep_Meta d))"
| "written_annotations (CreatedDestinationRule d _) = Some (om_Annotations (dr_Meta d))"
| "written_annotations _ = None"

lemma own_writes_annotations:
  "own_writes ident sts e \<Longrightarrow> written_annotations e = Some obj \<Longrightarrow> obj = AddToAnnotation ident None"
  by (cases e) (auto simp: own_writes_def)

lemma enqueue_owner:
  assumes "owner_ok owner"
  shows "addToQueue (AddToAnnotation owner None) q = Done (q @ [owner])"
proof -
  have "annotated None = []" by (simp add: annotated_def gm_get_def)
  then have "annotated (AddToAnnotation owner None) = [MkResourceName owner]" using assms by (simp add: annotated_add)
  moreover have "CHR ''/'' \<in> set (MkResourceName owner)" by (simp add: MkResourceName_def)
  ultimately show ?thesis using request_of_owner [OF assms] by (simp add: addToQueue_spec)
qed


fun creates_rule :: "effect \<Rightarrow> bool" where
  "creates_rule (CreatedDestinationRule _ _) = True"
| "creates_rule _ = False"

lemma sample_mesh_creates: "list_ex creates_rule (snd (snd sample_mesh))"
  by code_simp


end
