(* ===== verification/Readiness.thy ===== *)
theory Readiness
  imports Totality Reporting
begin

text \<open>
  An environment whose resources are in place becomes ready: the converse of what \<open>Reconcile_Correct\<close> says about the state
  \<open>Ready\<close>. A \<open>view\<close> is what a client sees of a cluster; \<open>displays\<close> says that the server answers according to a view as long as
  nobody but the reconcile call writes, and that it accepts and stores updates of the status. \<open>steady\<close> is the calculus: a call
  that starts in a state where the view is shown returns to such a state, with a value that satisfies a predicate.
\<close>

section \<open>What a client sees\<close>

record view =
  v_Deployment :: "NamespacedName \<Rightarrow> Deployment option"
  v_DestinationRule :: "NamespacedName \<Rightarrow> DestinationRule option"
  v_VirtualService :: "NamespacedName \<Rightarrow> VirtualService option"
  v_VirtualServices :: "VirtualService list"
  v_Services :: "string \<Rightarrow> Service list"

definition reads_of :: "'w Env \<Rightarrow> view \<Rightarrow> 'w \<Rightarrow> bool" where
  "reads_of c v w \<longleftrightarrow>
     (\<forall>k d. v_Deployment v k = Some d \<longrightarrow> fst (GetDeployment c k w) = Inr d) \<and>
     (\<forall>k d. v_DestinationRule v k = Some d \<longrightarrow> fst (GetDestinationRule c k w) = Inr d) \<and>
     (\<forall>k d. v_VirtualService v k = Some d \<longrightarrow> fst (GetVirtualService c k w) = Inr d) \<and>
     fst (ListVirtualServices c w) = Inr (v_VirtualServices v) \<and>
     (\<forall>ns. fst (ListServices c ns w) = Inr (v_Services v ns)) \<and>
     fst (RangeOrder c [] w) = []"

definition displays :: "'w Env \<Rightarrow> view \<Rightarrow> NamespacedName \<Rightarrow> ('w \<Rightarrow> bool) \<Rightarrow> bool" where
  "displays c v i W \<longleftrightarrow> (\<forall>w. W w \<longrightarrow> reads_of c v w \<and>
     (\<forall>k. W (snd (GetDeployment c k w)) \<and> W (snd (GetDestinationRule c k w)) \<and> W (snd (GetVirtualService c k w))) \<and>
     W (snd (ListVirtualServices c w)) \<and> (\<forall>ns. W (snd (ListServices c ns w))) \<and> W (snd (RangeOrder c [] w)) \<and>
     (\<forall>de. de_ident de = i \<longrightarrow> (let ((err, de'), w') = UpdateDynamicEnvStatus c de w
       in err = None \<and> de_Status de' = de_Status de \<and> de_Spec de' = de_Spec de \<and> de_ident de' = de_ident de \<and> W w')))"

section \<open>Resources in place\<close>

definition stored_hash :: "DynamicEnv \<Rightarrow> SubsetType \<Rightarrow> 64 word" where
  "stored_hash de st = (if sbt_Type st = CONSUMER then GetHashForConsumer de (MKSubsetName (sbt_Subset st))
     else GetHashForSubset de (MKSubsetName (sbt_Subset st)))"

definition deployment_ready :: "'w Env \<Rightarrow> view \<Rightarrow> DynamicEnv \<Rightarrow> SubsetType \<Rightarrow> bool" where
  \<comment> \<open>the overriding deployment is there, made from the subset as it is now, and available\<close>
  "deployment_ready c v de st \<longleftrightarrow>
     (\<exists>d. v_Deployment v (overriding_key (de_ident de) st) = Some d \<and> available d) \<and>
     HashStructure c (sbt_Subset st) = Inr (stored_hash de st)"

definition service_hosts :: "'w Env \<Rightarrow> view \<Rightarrow> Subset \<Rightarrow> Deployment \<Rightarrow> string list" where
  "service_hosts c v s b = sort (map svc_Name
     (filter (selects c (pt_Labels (dsp_Template (dep_Spec b)))) (v_Services v (sub_Namespace s))))"

definition serves :: "VirtualServiceHandler \<Rightarrow> string \<Rightarrow> VirtualService \<Rightarrow> bool" where
  "serves h host vs \<longleftrightarrow> (\<exists>x \<in> set (vs_Hosts vs). MatchNamespacedHost host (vsh_Namespace h) x (vs_Namespace vs)) \<and>
     (\<exists>r \<in> set (vs_Http vs). list_ex (is_default h host (vs_Namespace vs)) (hr_Route r))"

definition service_ready :: "view \<Rightarrow> VirtualServiceHandler \<Rightarrow> string \<Rightarrow> VirtualService \<Rightarrow> bool" where
  "service_ready v h host vs \<longleftrightarrow> dests_ok (vs_Http vs) \<and> (\<forall>r \<in> set (vs_Http vs). hr_Delegate r = None) \<and>
     (serves h host vs \<longrightarrow> routesConfiguredWithDynamicEnvRoutes (vs_Http vs) (vsh_RoutePrefix h) \<and>
        v_VirtualService v (meta_key (vs_Meta vs)) \<noteq> None)"

definition subset_data :: "DynamicEnv \<Rightarrow> Subset \<Rightarrow> Deployment \<Rightarrow> DynamicEnvReconcileData" where
  "subset_data de s b = \<lparr>rd_Identifier = de_ident de, rd_BaseDeployment = b, rd_Subset = s,
     rd_Matches = IstioMatches_list (de_Spec de)\<rparr>"

definition default_version :: "DynamicEnvReconciler \<Rightarrow> Subset \<Rightarrow> string" where
  "default_version r s = (if sub_DefaultVersion s \<noteq> [] then sub_DefaultVersion s else r_DefaultVersion r)"

definition mesh_ready :: "'w Env \<Rightarrow> DynamicEnvReconciler \<Rightarrow> view \<Rightarrow> DynamicEnv \<Rightarrow> Subset \<Rightarrow> Deployment \<Rightarrow> bool" where
  \<comment> \<open>every service host has its destination rule; a virtual service serves one of them, and those that do have the routes\<close>
  "mesh_ready c r v de s b \<longleftrightarrow>
     (let hosts = service_hosts c v s b;
          drh = NewDestinationRuleHandler (subset_data de s b) (r_VersionLabel r) (default_version r s) hosts;
          vsh = NewVirtualServiceHandler (subset_data de s b) hosts (default_version r s)
      in (\<forall>svc \<in> set (v_Services v (sub_Namespace s)). \<not> isl (AsValidatedSelector c (svc_Selector svc))) \<and>
         (\<forall>host \<in> set hosts. v_DestinationRule v (drh_key drh host) \<noteq> None) \<and>
         (\<exists>host \<in> set hosts. \<exists>vs \<in> set (v_VirtualServices v). serves vsh host vs) \<and>
         (\<forall>host \<in> set hosts. \<forall>vs \<in> set (v_VirtualServices v). service_ready v vsh host vs))"

definition resources_ready :: "'w Env \<Rightarrow> DynamicEnvReconciler \<Rightarrow> view \<Rightarrow> DynamicEnv \<Rightarrow> SubsetType \<Rightarrow> bool" where
  "resources_ready c r v de st \<longleftrightarrow> deployment_ready c v de st \<and>
     (\<exists>b. v_Deployment v \<lparr>nn_Namespace = sub_Namespace (sbt_Subset st), nn_Name = sub_Name (sbt_Subset st)\<rparr> = Some b \<and>
        (sbt_Type st = SUBSET \<longrightarrow> mesh_ready c r v de (sbt_Subset st) b))"

section \<open>The calculus\<close>

definition same_hashes :: "DynamicEnv \<Rightarrow> DynamicEnv \<Rightarrow> bool" where
  "same_hashes de d \<longleftrightarrow> (\<forall>k. ss_Hash (subset_status (de_Status d) k) = ss_Hash (subset_status (de_Status de) k) \<and>
     cs_Hash (consumer_status (de_Status d) k) = cs_Hash (consumer_status (de_Status de) k))"

definition env_like :: "DynamicEnv \<Rightarrow> DynamicEnv \<Rightarrow> bool" where
  "env_like de d \<longleftrightarrow> de_Spec d = de_Spec de \<and> de_ident d = de_ident de \<and> same_hashes de d"

definition showing :: "('w \<Rightarrow> bool) \<Rightarrow> DynamicEnv \<Rightarrow> 'w loop_state \<Rightarrow> bool" where
  "showing W de s \<longleftrightarrow> W (world s) \<and> env_like de (cur_de s)"

definition steady :: "('s \<Rightarrow> bool) \<Rightarrow> ('s, 'a) prog \<Rightarrow> ('a \<Rightarrow> bool) \<Rightarrow> bool" where
  "steady J m P \<longleftrightarrow> (\<forall>s. J s \<longrightarrow> returns m s (\<lambda>x t. J t \<and> P x))"

lemma steady_ret: "P x \<Longrightarrow> steady J (ret x) P"
  by (simp add: steady_def wp)

lemma steady_Pair: "P x \<Longrightarrow> steady J (Pair (Done x)) P"
  by (simp add: steady_def wp)

lemma steady_bnd: "steady J m P \<Longrightarrow> (\<And>x. P x \<Longrightarrow> steady J (f x) Q) \<Longrightarrow> steady J (bnd m f) Q"
  unfolding steady_def returns_bnd by (intro allI impI, drule spec, drule (1) mp, erule returns_mono) simp

lemma steady_if: "(b \<Longrightarrow> steady J m P) \<Longrightarrow> (\<not> b \<Longrightarrow> steady J n P) \<Longrightarrow> steady J (if b then m else n) P"
  by simp

lemma steady_weaken: "steady J m P \<Longrightarrow> (\<And>x. P x \<Longrightarrow> Q x) \<Longrightarrow> steady J m Q"
  unfolding steady_def by (intro allI impI, drule spec, drule (1) mp, erule returns_mono) simp

lemma steady_call: "(\<And>w. W w \<Longrightarrow> W (snd (f w)) \<and> P (fst (f w))) \<Longrightarrow> steady (showing W de) (call f) P"
  by (simp add: steady_def showing_def wp split_beta)

lemma steady_readDE: "steady (showing W de) readDE (env_like de)"
  by (simp add: steady_def showing_def wp)

lemma displaysD:
  assumes "displays c v (de_ident de) W" and "W w"
  shows "reads_of c v w" "W (snd (GetDeployment c k w))" "W (snd (GetDestinationRule c k w))"
    "W (snd (GetVirtualService c k w))" "W (snd (ListVirtualServices c w))" "W (snd (ListServices c ns w))"
    "W (snd (RangeOrder c [] w))"
  using assms unfolding displays_def by blast+

lemma steady_reads:
  assumes "displays c v (de_ident de) W"
  shows "v_Deployment v k = Some d \<Longrightarrow> steady (showing W de) (call (GetDeployment c k)) (\<lambda>x. x = Inr d)"
    and "v_DestinationRule v k = Some dr \<Longrightarrow> steady (showing W de) (call (GetDestinationRule c k)) (\<lambda>x. x = Inr dr)"
    and "v_VirtualService v k = Some vs \<Longrightarrow> steady (showing W de) (call (GetVirtualService c k)) (\<lambda>x. x = Inr vs)"
    and "steady (showing W de) (call (ListVirtualServices c)) (\<lambda>x. x = Inr (v_VirtualServices v))"
    and "steady (showing W de) (call (ListServices c ns)) (\<lambda>x. x = Inr (v_Services v ns))"
    and "steady (showing W de) (call (RangeOrder c [])) (\<lambda>x. x = [])"
  using displaysD [OF assms] by (auto intro!: steady_call simp: reads_of_def)

lemma StatusUpdate_steady:
  assumes "displays c v (de_ident de) W" and "W (world s)" and "env_like de (cur_de s)"
  shows "returns (StatusUpdate c) s (\<lambda>e t. showing W de t \<and> e = None)"
proof -
  obtain err d w where up: "UpdateDynamicEnvStatus c (cur_de s) (world s) = ((err, d), w)" by (metis surj_pair)
  have "de_ident (cur_de s) = de_ident de" using assms(3) by (simp add: env_like_def)
  with assms(1,2) up have "err = None \<and> de_Status d = de_Status (cur_de s) \<and> de_Spec d = de_Spec (cur_de s) \<and>
      de_ident d = de_ident (cur_de s) \<and> W w"
    unfolding displays_def by fastforce
  with assms(3) show ?thesis by (simp add: StatusUpdate_def up wp showing_def env_like_def same_hashes_def)
qed

section \<open>The status manager\<close>

lemma status_frames [simp]:
  "consumer_status (put_subset k v st) k' = consumer_status st k'" "consumer_status (init_subsets st) k' = consumer_status st k'"
  "subset_status (put_consumer k y st) k' = subset_status st k'" "subset_status (init_consumers st) k' = subset_status st k'"
  by (simp_all add: put_subset_def put_consumer_def init_subsets_def init_consumers_def subset_status_def consumer_status_def)

lemma steady_section:
  assumes "displays c v (de_ident de) W"
    and "\<And>s. m s = (let st = init (status_of s) in if B st then (Done None, with_status s st)
      else StatusUpdate c (with_status s (g st)))"
    and "\<And>st k. ss_Hash (subset_status (init st) k) = ss_Hash (subset_status st k) \<and>
      cs_Hash (consumer_status (init st) k) = cs_Hash (consumer_status st k)"
    and "\<And>st k. ss_Hash (subset_status (g st) k) = ss_Hash (subset_status st k) \<and>
      cs_Hash (consumer_status (g st) k) = cs_Hash (consumer_status st k)"
  shows "steady (showing W de) m (\<lambda>e. e = None)"
  unfolding steady_def
proof (intro allI impI)
  fix s assume s: "showing W de s"
  let ?st = "init (status_of s)"
  have "returns (StatusUpdate c) (with_status s (g ?st)) (\<lambda>e t. showing W de t \<and> e = None)"
    using s by (intro StatusUpdate_steady [OF assms(1)])
      (simp_all add: showing_def env_like_def same_hashes_def de_ident_def assms(3,4))
  moreover have "showing W de (with_status s ?st)"
    using s by (simp add: showing_def env_like_def same_hashes_def de_ident_def assms(3))
  ultimately show "returns m s (\<lambda>e t. showing W de t \<and> e = None)"
    by (simp add: returns_def assms(2) Let_def)
qed

lemma steady_entries:
  assumes "displays c v (de_ident de) W"
  shows "steady (showing W de) (AddDeploymentStatusEntry c k rs tpe) (\<lambda>e. e = None)"
    and "steady (showing W de) (AddDestinationRuleStatusEntry c k rs) (\<lambda>e. e = None)"
    and "steady (showing W de) (AddVirtualServiceStatusEntry c k rs) (\<lambda>e. e = None)"
proof -
  have "steady (showing W de) (addSubsetDeploymentStatusEntry c k rs) (\<lambda>e. e = None)"
    by (rule steady_section [OF assms subset_dep.add_law]) simp_all
  moreover have "steady (showing W de) (addConsumerDeploymentStatusEntry c k rs) (\<lambda>e. e = None)"
    by (rule steady_section [OF assms consumer_dep.add_law]) simp_all
  ultimately show "steady (showing W de) (AddDeploymentStatusEntry c k rs tpe) (\<lambda>e. e = None)"
    by (simp add: AddDeploymentStatusEntry_def)
  show "steady (showing W de) (AddDestinationRuleStatusEntry c k rs) (\<lambda>e. e = None)"
    by (rule steady_section [OF assms subset_dr.add_law]) simp_all
  show "steady (showing W de) (AddVirtualServiceStatusEntry c k rs) (\<lambda>e. e = None)"
    by (rule steady_section [OF assms subset_vs.add_law]) simp_all
qed

section \<open>The deployment handler\<close>

lemma env_like_hash:
  "env_like de d \<Longrightarrow> GetHashForConsumer d k = GetHashForConsumer de k" "env_like de d \<Longrightarrow> GetHashForSubset d k = GetHashForSubset de k"
  by (simp_all add: env_like_def same_hashes_def GetHashForConsumer_alt GetHashForSubset_alt)

lemma steady_dh_Handle:
  assumes "displays c v (de_ident de) W" and "v_Deployment v (dh_searchName h) = Some d"
    and "HashStructure c (dh_Subset h) = Inr (if dh_DeploymentType h = CONSUMER then GetHashForConsumer de (dh_SubsetName h)
      else GetHashForSubset de (dh_SubsetName h))"
  shows "steady (showing W de) (dh_Handle c h) (\<lambda>x. x = (h, None))"
  unfolding dh_Handle_def
  apply (rule steady_bnd [OF steady_reads(1) [OF assms(1,2)]], simp add: UpdateIfRequired_def Let_def)
  apply (rule steady_bnd [OF steady_readDE])
  apply (simp add: assms(3) env_like_hash)
  apply (rule steady_ret, simp)
  done

lemma available_latest:
  "available d \<Longrightarrow> \<exists>x. getMostRecentConditionForType DeploymentProgressing (dep_Conditions d) = (True, x) \<and>
     dc_Status x = ConditionTrue \<and> dc_Reason x = ''NewReplicaSetAvailable''"
  by (cases rule: getMostRecent_cases [of DeploymentProgressing "dep_Conditions d"])
    (auto simp: available_def dest: latest_in latest_unique)

definition dh_fine :: "('s \<Rightarrow> bool) \<Rightarrow> ('s, goerror + ResourceStatus) prog \<Rightarrow> bool" where
  "dh_fine J get \<longleftrightarrow> steady J get (\<lambda>x. \<exists>st. x = Inr st \<and> rs_Status st = Running)"

lemma steady_dh_GetStatus:
  assumes "displays c v (de_ident de) W" and "v_Deployment v (dh_searchName h) = Some d" and "available d"
  shows "dh_fine (showing W de) (dh_GetStatus c h)"
  using available_latest [OF assms(3)] unfolding dh_GetStatus_def dh_fine_def
  by (intro steady_bnd [OF steady_reads(1) [OF assms(1,2)]])
    (auto simp: dh_status_def intro!: steady_ret)

section \<open>The destination rule handler\<close>

lemma steady_handle_hosts:
  assumes "displays c v (de_ident de) W" and "\<forall>host \<in> set hosts. v_DestinationRule v (drh_key h host) \<noteq> None"
  shows "steady (showing W de) (handle_hosts c h hosts) (\<lambda>x. x = (h\<lparr>drh_activeHosts := drh_activeHosts h @ hosts\<rparr>, None))"
  using assms(2)
proof (induction hosts arbitrary: h)
  case (Cons host hosts)
  obtain dr where "v_DestinationRule v (drh_key h host) = Some dr" using Cons.prems by auto
  moreover have "drh_key (h\<lparr>drh_activeHosts := a\<rparr>) = drh_key h" for a by (simp add: fun_eq_iff drh_key_def calculateDRName_def)
  ultimately show ?case
    using Cons.prems Cons.IH [of "h\<lparr>drh_activeHosts := drh_activeHosts h @ [host]\<rparr>"]
    by (auto intro!: steady_bnd [OF steady_reads(2) [OF assms(1)]])
qed (simp add: steady_ret)

lemma steady_status_hosts:
  assumes "displays c v (de_ident de) W" and "\<forall>host \<in> set hosts. v_DestinationRule v (drh_key h host) \<noteq> None"
    and "\<forall>st \<in> set sts. rs_Status st = Running"
  shows "steady (showing W de) (status_hosts c h hosts sts) (\<lambda>x. \<exists>sts. x = Inr sts \<and> (\<forall>st \<in> set sts. rs_Status st = Running))"
  using assms(2,3)
proof (induction hosts arbitrary: sts)
  case (Cons host hosts)
  obtain dr where "v_DestinationRule v (drh_key h host) = Some dr" using Cons.prems by auto
  then show ?case
    using Cons.prems by (auto simp: Let_def intro!: steady_bnd [OF steady_reads(2) [OF assms(1)]] Cons.IH)
qed (simp add: steady_ret)

lemma steady_apply:
  assumes "displays c v (de_ident de) W"
  shows "steady (showing W de) (apply_dr_statuses c k sts) (\<lambda>e. e = None)"
    and "steady (showing W de) (apply_vs_statuses c k sts) (\<lambda>e. e = None)"
  by (induction sts)
    (auto intro!: steady_ret steady_bnd [OF steady_entries(2) [OF assms]] steady_bnd [OF steady_entries(3) [OF assms]])

section \<open>The virtual service handler\<close>

lemma resolve_plain:
  "dests_ok routes \<Longrightarrow> \<forall>r \<in> set routes. hr_Delegate r = None \<Longrightarrow> resolveVirtualServices h host ns routes =
     Done (\<exists>r \<in> set routes. list_ex (is_default h host ns) (hr_Route r), [])"
proof (induction routes)
  case (Cons r routes)
  then have "\<forall>d \<in> set (hr_Route r). rd_Destination d \<noteq> None" "dests_ok routes" by (simp_all add: dests_ok_def)
  with Cons show ?case by (simp add: matches_service_host)
qed simp

lemma locate_hosts_plain:
  assumes "service_ready v h host vs"
  shows "\<exists>ps. locate_hosts c h host items idx vs xs result heap = ret (heap, Inr (result @ ps)) \<and>
    (\<forall>p. p \<in> set ps \<longleftrightarrow> p = idx \<and> (\<exists>x \<in> set xs. MatchNamespacedHost host (vsh_Namespace h) x (vs_Namespace vs)) \<and>
      (\<exists>r \<in> set (vs_Http vs). list_ex (is_default h host (vs_Namespace vs)) (hr_Route r)))"
proof (induction xs arbitrary: result)
  case (Cons x xs)
  let ?self = "\<exists>r \<in> set (vs_Http vs). list_ex (is_default h host (vs_Namespace vs)) (hr_Route r)"
  have res: "resolveVirtualServices h host (vs_Namespace vs) (vs_Http vs) = Done (?self, [])"
    using assms by (intro resolve_plain) (simp_all add: service_ready_def)
  obtain ps where ps: "locate_hosts c h host items idx vs xs (if ?self then result @ [idx] else result) heap =
      ret (heap, Inr ((if ?self then result @ [idx] else result) @ ps))"
    "\<forall>p. p \<in> set ps \<longleftrightarrow> p = idx \<and> (\<exists>x \<in> set xs. MatchNamespacedHost host (vsh_Namespace h) x (vs_Namespace vs)) \<and> ?self"
    using Cons.IH by blast
  show ?case
  proof (cases "MatchNamespacedHost host (vsh_Namespace h) x (vs_Namespace vs)")
    case True
    with ps res show ?thesis by (intro exI [of _ "(if ?self then [idx] else []) @ ps"]) auto
  next
    case False
    with Cons.IH [of result] show ?thesis by auto
  qed
qed simp

lemma locate_items_plain:
  "\<forall>vs \<in> set rest. service_ready v h host vs \<Longrightarrow>
   \<exists>ps. locate_items c h host items idx rest result heap = ret (heap, Inr (result @ ps)) \<and>
     (\<forall>p. p \<in> set ps \<longleftrightarrow> (\<exists>j < length rest. p = idx + j \<and> serves h host (rest ! j)))"
proof (induction rest arbitrary: idx result)
  case (Cons vs rest)
  obtain ps where ps: "locate_hosts c h host items idx vs (vs_Hosts vs) result heap = ret (heap, Inr (result @ ps))"
    "\<forall>p. p \<in> set ps \<longleftrightarrow> p = idx \<and> serves h host vs"
    using locate_hosts_plain [of v h host vs c items idx "vs_Hosts vs" result heap] Cons.prems
    unfolding serves_def by auto
  obtain qs where qs: "locate_items c h host items (Suc idx) rest (result @ ps) heap = ret (heap, Inr ((result @ ps) @ qs))"
    "\<forall>p. p \<in> set qs \<longleftrightarrow> (\<exists>j < length rest. p = Suc idx + j \<and> serves h host (rest ! j))"
    using Cons.IH Cons.prems by (meson list.set_intros(2))
  have "p \<in> set (ps @ qs) \<longleftrightarrow> (\<exists>j < length (vs # rest). p = idx + j \<and> serves h host ((vs # rest) ! j))" for p
    unfolding set_append Un_iff ps(2) [rule_format] qs(2) [rule_format] by (auto simp: less_Suc_eq_0_disj)
  with ps(1) qs(1) show ?case by (intro exI [of _ "ps @ qs"]) simp
qed simp

lemma update_services_configured:
  "\<forall>p \<in> set ps. routesConfiguredWithDynamicEnvRoutes (vs_Http (heap ! p)) (vsh_RoutePrefix h) \<Longrightarrow>
   update_services c h host heap ps exists s = (Done (exists \<or> ps \<noteq> []), s)"
  by (induction ps arbitrary: "exists") (simp_all add: updateVirtualService_def Let_def)

definition fetchable :: "view \<Rightarrow> VirtualServiceHandler \<Rightarrow> bool" where
  "fetchable v h \<longleftrightarrow> (\<forall>k nns. gm_lookup (vsh_virtualServices h) k = Some nns \<longrightarrow> (\<forall>nn \<in> set nns. v_VirtualService v nn \<noteq> None))"

definition same_vsh :: "VirtualServiceHandler \<Rightarrow> VirtualServiceHandler \<Rightarrow> bool" where
  "same_vsh h h' \<longleftrightarrow> vsh_Namespace h' = vsh_Namespace h \<and> vsh_DefaultVersion h' = vsh_DefaultVersion h \<and>
     vsh_RoutePrefix h' = vsh_RoutePrefix h \<and> vsh_SubsetName h' = vsh_SubsetName h \<and> vsh_ServiceHosts h' = vsh_ServiceHosts h"

lemma same_vsh_simps:
  "same_vsh h h' \<Longrightarrow> vsh_SubsetName h' = vsh_SubsetName h" "same_vsh h h' \<Longrightarrow> vsh_ServiceHosts h' = vsh_ServiceHosts h"
  "same_vsh h h' \<Longrightarrow> serves h' host vs = serves h host vs"
  "same_vsh h h' \<Longrightarrow> service_ready v h' host vs = service_ready v h host vs"
  by (auto simp: same_vsh_def serves_def service_ready_def is_default_def [abs_def] default_destination_def cong: option.case_cong)

lemma same_vsh_trans: "same_vsh h h' \<Longrightarrow> same_vsh h' h'' \<Longrightarrow> same_vsh h h''"
  by (auto simp: same_vsh_def)

lemma steady_service_hosts:
  assumes "displays c v (de_ident de) W" and "\<forall>host \<in> set hosts. \<forall>vs \<in> set (v_VirtualServices v). service_ready v h host vs" and "fetchable v h"
  shows "steady (showing W de) (handle_service_hosts c h hosts) (\<lambda>(h', e). e = None \<and> same_vsh h h' \<and> fetchable v h' \<and>
    set (vsh_activeHosts h') = set (vsh_activeHosts h) \<union> {host \<in> set hosts. \<exists>vs \<in> set (v_VirtualServices v). serves h host vs})"
  using assms(2,3)
proof (induction hosts arbitrary: h)
  case Nil
  then show ?case by (auto simp: same_vsh_def intro!: steady_ret steady_Pair)
next
  case (Cons host hosts)
  let ?vss = "v_VirtualServices v"
  have ready: "\<forall>vs \<in> set ?vss. service_ready v h host vs" using Cons.prems by simp
  obtain ps where loc: "locate_items c h host ?vss 0 ?vss [] ?vss = ret (?vss, Inr ps)"
    and ps: "\<forall>p. p \<in> set ps \<longleftrightarrow> (\<exists>j < length ?vss. p = j \<and> serves h host (?vss ! j))"
    using locate_items_plain [OF ready, of c ?vss 0 "[]" ?vss] by auto
  have found: "ps \<noteq> [] \<longleftrightarrow> (\<exists>vs \<in> set ?vss. serves h host vs)"
  proof
    assume "ps \<noteq> []"
    with ps have "\<exists>j < length ?vss. hd ps = j \<and> serves h host (?vss ! j)" by (metis hd_in_set)
    then show "\<exists>vs \<in> set ?vss. serves h host vs" using nth_mem by blast
  next
    assume "\<exists>vs \<in> set ?vss. serves h host vs"
    then obtain j where "j < length ?vss" "serves h host (?vss ! j)" by (auto simp: in_set_conv_nth)
    with ps have "j \<in> set ps" by blast
    then show "ps \<noteq> []" by auto
  qed
  have each: "\<forall>p \<in> set ps. routesConfiguredWithDynamicEnvRoutes (vs_Http (?vss ! p)) (vsh_RoutePrefix h) \<and>
      v_VirtualService v (meta_key (vs_Meta (?vss ! p))) \<noteq> None"
    using ps ready by (auto simp: service_ready_def)
  define g where "g = h\<lparr>vsh_virtualServices := gm_put host (toNamespacedName ?vss ps) (vsh_virtualServices h)\<rparr>"
  have upd: "update_services c g host ?vss ps False = ret (ps \<noteq> [])"
    using each by (intro ext) (simp add: update_services_configured g_def)
  define k where "k = (if ps \<noteq> [] then g\<lparr>vsh_activeHosts := vsh_activeHosts g @ [host]\<rparr> else g)"
  have same: "same_vsh h k"
    by (simp add: same_vsh_def k_def g_def)
  have fetch: "fetchable v k"
    using Cons.prems(2) each by (auto simp: fetchable_def k_def g_def toNamespacedName_def split: if_splits)
  have active: "set (vsh_activeHosts k) = set (vsh_activeHosts h) \<union> (if \<exists>vs \<in> set ?vss. serves h host vs then {host} else {})"
    unfolding found [symmetric] by (simp add: k_def g_def)
  have rest: "steady (showing W de) (handle_service_hosts c k hosts) (\<lambda>(h', e). e = None \<and> same_vsh k h' \<and> fetchable v h' \<and>
      set (vsh_activeHosts h') = set (vsh_activeHosts k) \<union> {host \<in> set hosts. \<exists>vs \<in> set ?vss. serves k host vs})"
    using Cons.prems(1) fetch by (intro Cons.IH) (simp_all add: same_vsh_simps(4) [OF same])
  have "steady (showing W de) (locateVirtualServicesByServiceHost c h host) (\<lambda>x. x = (?vss, Inr ps))"
    unfolding locateVirtualServicesByServiceHost_def
    by (rule steady_bnd [OF steady_reads(4) [OF assms(1)]]) (simp add: loc steady_ret)
  then show ?case
    unfolding handle_service_hosts.simps
    apply (rule steady_bnd, clarify)
    apply (simp only: prod.case sum.case Let_def g_def [symmetric] upd bnd_ret k_def [symmetric])
    apply (rule steady_weaken [OF rest])
    apply (auto simp: active same_vsh_simps(3) [OF same] intro: same_vsh_trans [OF same] split: if_splits)
    done
qed

lemma steady_vsh_Handle:
  assumes "displays c v (de_ident de) W" and "\<forall>host \<in> set (vsh_ServiceHosts h). \<forall>vs \<in> set (v_VirtualServices v). service_ready v h host vs"
    and "\<exists>host \<in> set (vsh_ServiceHosts h). \<exists>vs \<in> set (v_VirtualServices v). serves h host vs" and "vsh_activeHosts h = []"
  shows "steady (showing W de) (vsh_Handle c h) (\<lambda>(h', e). e = None \<and> same_vsh h h' \<and> fetchable v h' \<and>
    (\<exists>host \<in> set (vsh_ServiceHosts h). host \<in> set (vsh_activeHosts h')))"
proof -
  let ?h = "h\<lparr>vsh_virtualServices := gm_make\<rparr>"
  have same: "same_vsh h ?h" by (simp add: same_vsh_def)
  have "fetchable v ?h" by (simp add: fetchable_def)
  with steady_service_hosts [OF assms(1), of "vsh_ServiceHosts h" ?h] assms(2)
  have "steady (showing W de) (handle_service_hosts c ?h (vsh_ServiceHosts h)) (\<lambda>(h', e). e = None \<and> same_vsh ?h h' \<and> fetchable v h' \<and>
      set (vsh_activeHosts h') = {host \<in> set (vsh_ServiceHosts h). \<exists>vs \<in> set (v_VirtualServices v). serves h host vs})"
    by (simp add: same_vsh_simps [OF same] assms(4))
  then show ?thesis
    unfolding vsh_Handle_def
    apply (rule steady_bnd, clarify)
    apply (simp only: option.case)
    using assms(3) by (auto simp: same_vsh_def intro!: steady_ret steady_Pair)
qed

lemma steady_fetch:
  assumes "displays c v (de_ident de) W"
  shows "\<forall>nn \<in> set nns. v_VirtualService v nn \<noteq> None \<Longrightarrow> steady (showing W de) (fetch_services c nns vss) (\<lambda>x. \<not> isl x)"
proof (induction nns arbitrary: vss)
  case (Cons nn nns)
  then obtain vs where "v_VirtualService v nn = Some vs" by auto
  with Cons show ?case by (auto intro!: steady_bnd [OF steady_reads(3) [OF assms]])
qed (simp add: steady_ret steady_Pair)

section \<open>Statuses\<close>

definition mrh_fine :: "('w loop_state \<Rightarrow> bool) \<Rightarrow> 'w Env \<Rightarrow> MRHandler \<Rightarrow> bool" where
  "mrh_fine J c h \<longleftrightarrow>
     steady J (mrh_GetStatus c h) (\<lambda>x. \<exists>sts. x = Inr sts \<and> (\<forall>st \<in> set sts. \<not> IsFailedStatus (rs_Status st))) \<and>
     (\<forall>sts. steady J (mrh_ApplyStatus c h sts) (\<lambda>e. e = None))"

lemma not_failed [simp]: "\<not> IsFailedStatus Running" "\<not> IsFailedStatus IgnoredMissingVS"
  by (simp_all add: IsFailedStatus_def Running_def Missing_def Failed_def IgnoredMissingVS_def)

lemma drh_fine:
  assumes "displays c v (de_ident de) W" and "\<forall>host \<in> set (drh_ServiceHosts h). v_DestinationRule v (drh_key h host) \<noteq> None"
  shows "mrh_fine (showing W de) c (DRH h)"
  unfolding mrh_fine_def mrh_GetStatus.simps mrh_ApplyStatus.simps drh_GetStatus_def drh_ApplyStatus_def
  by (intro conjI allI steady_apply(1) [OF assms(1)] steady_weaken [OF steady_status_hosts [OF assms]]) auto

lemma vsh_fine:
  assumes "displays c v (de_ident de) W" and "fetchable v h"
  shows "mrh_fine (showing W de) c (VSH h)"
proof -
  have "\<forall>nn \<in> set (concat (map (\<lambda>host. case gm_lookup (vsh_virtualServices h) host of Some s \<Rightarrow> s | None \<Rightarrow> []) hosts)).
      v_VirtualService v nn \<noteq> None" for hosts
    using assms(2) by (auto simp: fetchable_def split: option.splits) metis
  from steady_fetch [OF assms(1) this]
  have "steady (showing W de) (vsh_GetStatus c h) (\<lambda>x. \<exists>sts. x = Inr sts \<and> (\<forall>st \<in> set sts. \<not> IsFailedStatus (rs_Status st)))"
    unfolding vsh_GetStatus_def
    by (rule steady_bnd)
      (auto simp: getStatusForService_def split: sum.split intro!: steady_ret steady_Pair)
  then show ?thesis using steady_apply(2) [OF assms(1)] by (simp add: mrh_fine_def vsh_ApplyStatus_def)
qed

lemma steady_srhs:
  assumes "displays c v (de_ident de) W" and "\<forall>h \<in> set hs. dh_fine (showing W de) (dh_GetStatus c h)"
  shows "steady (showing W de) (process_srhs c hs vars) (\<lambda>x. x = vars)"
  using assms(2)
proof (induction hs)
  case (Cons h hs)
  obtain response err where vars: "vars = (response, err)" by (cases vars)
  have "steady (showing W de) (dh_GetStatus c h) (\<lambda>x. \<exists>st. x = Inr st \<and> rs_Status st = Running)"
    using Cons.prems by (simp add: dh_fine_def)
  with Cons show ?case
    unfolding vars process_srhs.simps
    by (elim steady_bnd) (auto simp: Let_def dh_ApplyStatus_def intro!: steady_bnd [OF steady_entries(1) [OF assms(1)]])
qed (simp add: steady_ret steady_Pair)

lemma fold_note_fine: "\<forall>st \<in> set sts. \<not> IsFailedStatus (rs_Status st) \<Longrightarrow> fold (note_failed k) sts response = response"
  by (induction sts) (simp_all add: note_failed_def)

lemma steady_mrhs:
  "\<forall>h \<in> set hs. mrh_fine J c h \<Longrightarrow> steady J (process_mrhs c hs vars) (\<lambda>x. x = vars)"
proof (induction hs)
  case (Cons h hs)
  obtain response err where vars: "vars = (response, err)" by (cases vars)
  have get: "steady J (mrh_GetStatus c h) (\<lambda>x. \<exists>sts. x = Inr sts \<and> (\<forall>st \<in> set sts. \<not> IsFailedStatus (rs_Status st)))"
    and app: "steady J (mrh_ApplyStatus c h sts) (\<lambda>e. e = None)" for sts
    using Cons.prems by (simp_all add: mrh_fine_def)
  from get Cons show ?case
    unfolding vars process_mrhs.simps
    by (elim steady_bnd) (auto simp: Let_def fold_note_fine intro!: steady_bnd [OF app])
qed (simp add: steady_ret steady_Pair)

section \<open>The reconcile loop\<close>

definition fine :: "('w loop_state \<Rightarrow> bool) \<Rightarrow> 'w Env \<Rightarrow> DeploymentHandler list \<Rightarrow> MRHandler list \<Rightarrow> bool" where
  "fine J c dhs mrhs \<longleftrightarrow> (\<forall>h \<in> set dhs. dh_fine J (dh_GetStatus c h)) \<and> (\<forall>h \<in> set mrhs. mrh_fine J c h)"

lemma steady_locate:
  assumes "displays c v (de_ident de) W" and "\<forall>svc \<in> set (v_Services v (sub_Namespace s)). \<not> isl (AsValidatedSelector c (svc_Selector svc))"
    and "service_hosts c v s b \<noteq> []"
  shows "steady (showing W de) (locateMatchingServiceHostnames c (sub_Namespace s) (pt_Labels (dsp_Template (dep_Spec b))))
    (\<lambda>x. x = Inr (service_hosts c v s b))"
proof -
  let ?ls = "pt_Labels (dsp_Template (dep_Spec b))" and ?items = "v_Services v (sub_Namespace s)"
  have "match_services c ?ls ?items = Inr (filter (selects c ?ls) ?items)"
    using assms(2) by (simp add: match_services_eq)
  moreover have "filter (selects c ?ls) ?items \<noteq> []" using assms(3) by (auto simp: service_hosts_def)
  ultimately show ?thesis
    unfolding locateMatchingServiceHostnames_def service_hosts_def
    by (intro steady_bnd [OF steady_reads(5) [OF assms(1)]]) (auto intro!: steady_ret steady_Pair)
qed

lemma steady_process_mesh:
  assumes "displays c v (de_ident de) W" and "mesh_ready c r v de s b" and "fine (showing W de) c dhs mrhs"
  shows "steady (showing W de) (process_mesh c r (subset_data de s b) (service_hosts c v s b) (rls, dhs, mrhs))
    (\<lambda>(rls', dhs', mrhs'). rls' = rls \<and> fine (showing W de) c dhs' mrhs')"
proof -
  let ?hosts = "service_hosts c v s b"
  let ?d = "NewDestinationRuleHandler (subset_data de s b) (r_VersionLabel r) (default_version r s) ?hosts"
  let ?v = "NewVirtualServiceHandler (subset_data de s b) ?hosts (default_version r s)"
  let ?d' = "?d\<lparr>drh_activeHosts := ?hosts\<rparr>"
  have dflt: "(if sub_DefaultVersion (rd_Subset (subset_data de s b)) \<noteq> [] then sub_DefaultVersion (rd_Subset (subset_data de s b))
      else r_DefaultVersion r) = default_version r s"
    by (simp add: default_version_def subset_data_def)
  have new: "drh_ServiceHosts ?d = ?hosts" "drh_activeHosts ?d = []" "vsh_ServiceHosts ?v = ?hosts" "vsh_activeHosts ?v = []"
    by (simp_all add: NewDestinationRuleHandler_def NewVirtualServiceHandler_def Let_def)
  have rules: "\<forall>host \<in> set ?hosts. v_DestinationRule v (drh_key ?d host) \<noteq> None"
    and served: "\<exists>host \<in> set ?hosts. \<exists>vs \<in> set (v_VirtualServices v). serves ?v host vs"
    and ready: "\<forall>host \<in> set ?hosts. \<forall>vs \<in> set (v_VirtualServices v). service_ready v ?v host vs"
    using assms(2) by (simp_all add: mesh_ready_def Let_def)
  have "steady (showing W de) (drh_Handle c ?d) (\<lambda>x. x = (?d', None))"
    unfolding drh_Handle_def using rules served
    by (intro steady_bnd [OF steady_handle_hosts [OF assms(1)]]) (auto simp: new intro!: steady_ret steady_Pair)
  moreover have "mrh_fine (showing W de) c (DRH ?d')"
    using rules by (intro drh_fine [OF assms(1)]) (simp add: new drh_key_def calculateDRName_def)
  moreover have "steady (showing W de) (vsh_Handle c ?v) (\<lambda>(h', e). e = None \<and> same_vsh ?v h' \<and> fetchable v h' \<and>
      (\<exists>host \<in> set ?hosts. host \<in> set (vsh_activeHosts h')))"
    using steady_vsh_Handle [OF assms(1), of ?v] ready served by (simp add: new)
  ultimately show ?thesis
    unfolding process_mesh_def Let_def prod.case dflt
    apply (elim steady_bnd, clarify)
    apply (simp only: option.case prod.case)
    apply (erule steady_bnd, clarify)
    using assms(3) vsh_fine [OF assms(1)]
    by (auto simp: fine_def drh_GetHosts_def vsh_GetHosts_def CommonValueExists_iff intro!: steady_ret steady_Pair)
qed

lemma new_handler_parts:
  "dh_Subset (NewDeploymentHandler data dt ls vl) = rd_Subset data" "dh_DeploymentType (NewDeploymentHandler data dt ls vl) = dt"
  "dh_SubsetName (NewDeploymentHandler data dt ls vl) = MKSubsetName (rd_Subset data)"
  by (simp_all add: NewDeploymentHandler_def Let_def)

lemma steady_process_one:
  assumes "displays c v (de_ident de) W" and "resources_ready c r v de st" and "fine (showing W de) c dhs mrhs"
  shows "steady (showing W de) (process_one c r (de_ident de) st (rls, dhs, mrhs))
    (\<lambda>(rls', dhs', mrhs'). rls' = rls \<and> fine (showing W de) c dhs' mrhs')"
proof -
  let ?s = "sbt_Subset st"
  obtain b d where base: "v_Deployment v \<lparr>nn_Namespace = sub_Namespace ?s, nn_Name = sub_Name ?s\<rparr> = Some b"
    and mesh: "sbt_Type st = SUBSET \<longrightarrow> mesh_ready c r v de ?s b"
    and own: "v_Deployment v (overriding_key (de_ident de) st) = Some d" "available d"
    and hash: "HashStructure c ?s = Inr (stored_hash de st)"
    using assms(2) by (auto simp: resources_ready_def deployment_ready_def)
  let ?h = "NewDeploymentHandler (subset_data de ?s b) (sbt_Type st) (r_LabelsToRemove r) (r_VersionLabel r)"
  have key: "dh_searchName ?h = overriding_key (de_ident de) st" by (simp add: subset_data_def new_handler_key)
  have handle: "steady (showing W de) (dh_Handle c ?h) (\<lambda>x. x = (?h, None))"
    using own hash by (intro steady_dh_Handle [OF assms(1)])
      (simp_all add: new_handler_key new_handler_parts subset_data_def stored_hash_def)
  have "dh_fine (showing W de) (dh_GetStatus c ?h)"
    using own by (intro steady_dh_GetStatus [OF assms(1)]) (simp_all add: key)
  then have fine: "fine (showing W de) c (dhs @ [?h]) mrhs" using assms(3) by (auto simp: fine_def)
  have locate: "steady (showing W de) (locateMatchingServiceHostnames c (sub_Namespace ?s) (pt_Labels (dsp_Template (dep_Spec b))))
      (\<lambda>x. x = Inr (service_hosts c v ?s b))" if "sbt_Type st = SUBSET"
    using mesh that by (intro steady_locate [OF assms(1)]) (auto simp: mesh_ready_def Let_def)
  have data: "\<lparr>rd_Identifier = de_ident de, rd_BaseDeployment = b, rd_Subset = ?s,
      rd_Matches = IstioMatches_list (de_Spec x)\<rparr> = subset_data de ?s b" if "env_like de x" for x
    using that by (simp add: subset_data_def env_like_def)
  show ?thesis
    unfolding process_one_def Let_def prod.case
    apply (rule steady_bnd [OF steady_reads(1) [OF assms(1) base]])
    apply (simp only: sum.case)
    apply (rule steady_bnd [OF steady_readDE], simp only: data)
    apply (rule steady_bnd [OF handle], simp only: prod.case option.case)
    apply (rule steady_if)
     apply (rule steady_bnd [OF locate], assumption, simp only: sum.case)
     apply (rule steady_process_mesh [OF assms(1)], simp add: mesh, use fine in simp)
    apply (rule steady_ret, simp add: fine)
    done
qed

lemma steady_process_loop:
  assumes "displays c v (de_ident de) W"
  shows "\<forall>st \<in> set sts. resources_ready c r v de st \<Longrightarrow> fine (showing W de) c dhs mrhs \<Longrightarrow>
    steady (showing W de) (process_loop c r (de_ident de) sts (rls, dhs, mrhs))
      (\<lambda>(rls', dhs', mrhs'). rls' = rls \<and> fine (showing W de) c dhs' mrhs')"
proof (induction sts arbitrary: dhs mrhs)
  case (Cons st sts)
  then show ?case by (auto intro!: steady_bnd [OF steady_process_one [OF assms]])
qed (simp add: steady_ret steady_Pair)

lemma steady_processSubsetsAndConsumers:
  assumes "displays c v (de_ident de) W" and "\<forall>st \<in> set (subsets_and_consumers de). resources_ready c r v de st"
  shows "steady (showing W de) (processSubsetsAndConsumers c r)
    (\<lambda>(rls, dhs, mrhs). rls = ReconcileLoopStatus_new \<and> fine (showing W de) c dhs mrhs)"
  unfolding processSubsetsAndConsumers_def
proof (rule steady_bnd [OF steady_readDE])
  fix d assume d: "env_like de d"
  have "fine (showing W de) c [] []" by (simp add: fine_def)
  with d show "steady (showing W de) (process_loop c r (de_ident d) (subsets_and_consumers d) (ReconcileLoopStatus_new, [], []))
      (\<lambda>(rls, dhs, mrhs). rls = ReconcileLoopStatus_new \<and> fine (showing W de) c dhs mrhs)"
    using steady_process_loop [OF assms] by (simp add: env_like_def)
qed

lemma steady_processHandlersStatus:
  assumes "displays c v (de_ident de) W" and "fine (showing W de) c dhs mrhs"
  shows "steady (showing W de) (processHandlersStatus c dhs mrhs) (\<lambda>(response, err). err = None \<and> psr_nonReady response = gm_make)"
  using assms(2) unfolding processHandlersStatus_def fine_def
  by (intro steady_bnd [OF steady_srhs [OF assms(1)]])
    (auto simp: NonMaskingError_Get_def intro!: steady_bnd [OF steady_mrhs] steady_ret steady_Pair)

section \<open>The report\<close>

lemma steady_finish:
  assumes "displays c v (de_ident de) W"
  shows "steady (showing W de) (finish c n False ReconcileLoopStatus_new) (\<lambda>res. res = (Result_zero, None))"
proof -
  have set: "steady (showing W de) (SetGlobalState c g n m) (\<lambda>e. e = None)" for g n m
    unfolding steady_def
  proof (intro allI impI)
    fix s assume s: "showing W de s"
    show "returns (SetGlobalState c g n m) s (\<lambda>e t. showing W de t \<and> e = None)"
      unfolding SetGlobalState_def returns_bnd returns_modifyStatus
      using s by (intro StatusUpdate_steady [OF assms])
        (simp_all add: showing_def env_like_def same_hashes_def de_ident_def subset_status_def consumer_status_def)
  qed
  have sync: "steady (showing W de) (SyncSubsetMessagesToStatus c gm_make) (\<lambda>_. True)"
    "steady (showing W de) (SyncConsumerMessagesToStatus c gm_make) (\<lambda>_. True)"
    unfolding SyncSubsetMessagesToStatus_def SyncConsumerMessagesToStatus_def gm_keys_def gm_make_def
    by (auto intro!: steady_bnd [OF steady_reads(6) [OF assms]] steady_ret steady_Pair)
  have parts: "rls_subsetMessages ReconcileLoopStatus_new = gm_make" "rls_consumerMessages ReconcileLoopStatus_new = gm_make"
    "nme_error (rls_returnError ReconcileLoopStatus_new) = None"
    by (simp_all add: ReconcileLoopStatus_new_def)
  show ?thesis
    unfolding finish_def Let_def parts
    by (intro steady_bnd [OF sync(1)] steady_bnd [OF sync(2)] steady_bnd [OF set])
      (simp add: NonMaskingError_Get_def parts steady_ret steady_Pair)
qed


lemma displays_traced:
  assumes "displays c v i W"
  shows "displays (traced c) v i (\<lambda>(w, es). W w \<and> list_all (\<lambda>e. is_read e \<or> is_status e) es)"
proof -
  let ?V = "\<lambda>(w, es). W w \<and> list_all (\<lambda>e. is_read e \<or> is_status e) es"
  have one: "reads_of (traced c) v (w, es) \<and>
      (\<forall>k. ?V (snd (GetDeployment (traced c) k (w, es))) \<and> ?V (snd (GetDestinationRule (traced c) k (w, es))) \<and>
        ?V (snd (GetVirtualService (traced c) k (w, es)))) \<and>
      ?V (snd (ListVirtualServices (traced c) (w, es))) \<and> (\<forall>ns. ?V (snd (ListServices (traced c) ns (w, es)))) \<and>
      ?V (snd (RangeOrder (traced c) [] (w, es)))" if "?V (w, es)" for w es
    using assms that by (auto simp: displays_def reads_of_def log_call_def silent_def split_beta)
  have two: "let ((err, de'), w') = UpdateDynamicEnvStatus (traced c) de (w, es)
      in err = None \<and> de_Status de' = de_Status de \<and> de_Spec de' = de_Spec de \<and> de_ident de' = de_ident de \<and> ?V w'"
    if "?V (w, es)" "de_ident de = i" for w es de
    using assms that by (auto simp: displays_def log_call_def Let_def split_beta)
  show ?thesis unfolding displays_def using one two by auto
qed

lemma resources_ready_traced [simp]: "resources_ready (traced c) r v de st = resources_ready c r v de st"
  by (simp add: resources_ready_def deployment_ready_def mesh_ready_def service_hosts_def selects_def [abs_def])

definition nothing_to_remove :: "DynamicEnv \<Rightarrow> bool" where
  \<comment> \<open>the status lists no name that is not in the spec\<close>
  "nothing_to_remove de \<longleftrightarrow> set (gm_keys (st_SubsetsStatus (de_Status de))) \<union> set (gm_keys (st_ConsumersStatus (de_Status de))) \<subseteq> names_of de"

lemma fold_mark_none: "set names \<subseteq> set keys \<Longrightarrow> fold (mark_removed keys tpe) names m = m"
  by (induction names) (simp_all add: mark_removed_def)

lemma nothing_removed:
  assumes "nothing_to_remove de"
  shows "CheckForRemovedSubsetsAndConsumers de (subsets_and_consumers de) = gm_make"
proof -
  have "set (gm_keys (fold (\<lambda>st m. gm_put (MKSubsetName (sbt_Subset st)) (sbt_Type st) m) (subsets_and_consumers de) gm_make)) =
      names_of de"
    by (simp add: fold_put_keys) (simp add: gm_keys_def gm_make_def)
  with assms show ?thesis
    by (simp add: CheckForRemovedSubsetsAndConsumers_def Let_def nothing_to_remove_def fold_mark_none)
qed


lemma finish_ready:
  assumes "displays (traced c) v (de_ident de) V" and "showing V de s"
  shows "returns (finish (traced c) n False ReconcileLoopStatus_new) s (\<lambda>res t. res = (Result_zero, None) \<and> showing V de t \<and>
    (\<exists>nde. log_of t = log_of s @ [UpdatedStatus nde None] \<and> report n False ReconcileLoopStatus_new nde))"
proof -
  have run: "returns (finish (traced c) n False ReconcileLoopStatus_new) s (\<lambda>res t. showing V de t \<and> res = (Result_zero, None))"
    using steady_finish [OF assms(1)] assms(2) by (simp add: steady_def)
  have "e = None" if "(Result_zero, None) = answer False (case nme_error (rls_returnError ReconcileLoopStatus_new) of
      None \<Rightarrow> e | Some x \<Rightarrow> Some x)" for e
    using that by (simp add: answer_def ReconcileLoopStatus_new_def Result_zero_def split: if_splits)
  with run finish_report [of c n False ReconcileLoopStatus_new s] show ?thesis
    by (fastforce simp: returns_def yields_def split: prod.splits outcome.splits)
qed

lemma report_ready:
  assumes "report n False ReconcileLoopStatus_new nde"
  shows "st_State (de_Status nde) = Ready" "st_TotalCount (de_Status nde) = int n" "st_TotalReady (de_Status nde) = int n"
  using assms by (simp_all add: report_def ReconcileLoopStatus_new_def global_state_def gm_len_def gm_make_def NonMaskingError_IsNil_def)

lemma reconcile_live_ready:
  assumes view: "displays (traced c) v (de_ident de) V" and s: "showing V de s" "cur_de s = de"
    and left: "nothing_to_remove de" and ready: "\<forall>st \<in> set (subsets_and_consumers de). resources_ready c r v de st"
  shows "returns (reconcile_live (traced c) r) s (\<lambda>res t. res = (Result_zero, None) \<and> showing V de t \<and>
    (\<exists>u nde. showing V de u \<and> log_of t = log_of u @ [UpdatedStatus nde None] \<and>
      report (length (subsets_and_consumers de)) False ReconcileLoopStatus_new nde))"
proof -
  let ?J = "showing V de" and ?n = "length (subsets_and_consumers de)"
  have clean: "cleanup_removed (traced c) (subsets_and_consumers de) s = (Done (False, None), s)"
    by (simp add: cleanup_removed_def bnd_apply s(2) nothing_removed [OF left] gm_len_def gm_make_def)
  have loop: "returns (processSubsetsAndConsumers (traced c) r) s (\<lambda>x t. ?J t \<and> (case x of (rls, dhs, mrhs) \<Rightarrow>
      rls = ReconcileLoopStatus_new \<and> fine ?J (traced c) dhs mrhs))"
    using steady_processSubsetsAndConsumers [OF view, of r] ready s(1) by (simp add: steady_def)
  have statuses: "returns (processHandlersStatus (traced c) dhs mrhs) t (\<lambda>x u. ?J u \<and> (case x of (response, err) \<Rightarrow> err = None \<and>
      psr_nonReady response = gm_make))" if "?J t" "fine ?J (traced c) dhs mrhs" for dhs mrhs t
    using steady_processHandlersStatus [OF view that(2)] that(1) by (simp add: steady_def)
  have empty: "gm_len gm_make = 0" "ReconcileLoopStatus_new\<lparr>rls_nonReadyCS := gm_put_all (gm_list gm_make) (rls_nonReadyCS
      ReconcileLoopStatus_new)\<rparr> = ReconcileLoopStatus_new"
    by (simp_all add: gm_len_def gm_make_def gm_put_all_def ReconcileLoopStatus_new_def)
  show ?thesis
    unfolding reconcile_live_def Let_def returns_bnd returns_readDE s(2)
    apply (simp only: returns_def [of "cleanup_removed _ _"] clean prod.case outcome.case option.case returns_bnd)
    apply (rule returns_mono [OF loop], clarify)
    apply (simp only: option.case prod.case returns_bnd)
    apply (rule returns_mono [OF statuses], assumption, assumption, clarify)
    apply (simp only: option.case prod.case empty)
    apply (simp only: less_irrefl simp_thms)
    apply (rule returns_mono [OF finish_ready [OF view]], assumption, blast)
    done
qed

section \<open>A cluster in memory\<close>

definition found_object :: "goerror + 'a \<Rightarrow> 'a option" where
  "found_object x = (case x of Inl _ \<Rightarrow> None | Inr y \<Rightarrow> Some y)"

definition mem_view :: "mem \<Rightarrow> view" where
  "mem_view w = \<lparr>v_Deployment = (\<lambda>k. found_object (fst (GetDeployment mem_env k w))),
     v_DestinationRule = (\<lambda>k. found_object (fst (GetDestinationRule mem_env k w))),
     v_VirtualService = (\<lambda>k. found_object (fst (GetVirtualService mem_env k w))),
     v_VirtualServices = m_vss w, v_Services = (\<lambda>ns. map snd (filter (\<lambda>(n, _). n = ns) (m_svcs w)))\<rparr>"

definition same_resources :: "mem \<Rightarrow> NamespacedName \<Rightarrow> mem \<Rightarrow> bool" where
  "same_resources w0 i w \<longleftrightarrow> m_deps w = m_deps w0 \<and> m_drs w = m_drs w0 \<and> m_vss w = m_vss w0 \<and> m_svcs w = m_svcs w0 \<and>
     (\<exists>d \<in> set (m_des w). de_key d = i)"

lemma mem_env_displays: "displays mem_env (mem_view w0) i (same_resources w0 i)"
proof -
  have reads: "reads_of mem_env (mem_view w0) w" if "same_resources w0 i w" for w
    using that by (simp add: reads_of_def mem_view_def same_resources_def mem_env_def found_object_def split: sum.splits)
  have calls: "snd (GetDeployment mem_env k w) = w" "snd (GetDestinationRule mem_env k w) = w" "snd (GetVirtualService mem_env k w) = w"
    "snd (ListVirtualServices mem_env w) = w" "snd (ListServices mem_env ns w) = w" "snd (RangeOrder mem_env ks w) = w" for k ns ks w
    by (simp_all add: mem_env_def)
  have update: "UpdateDynamicEnvStatus mem_env de w = ((absent de_key de (m_des w), de), w\<lparr>m_des := replace de_key de (m_des w)\<rparr>)" for de w
    by (simp add: mem_env_def)
  have there: "absent de_key de (m_des w) = None \<and> same_resources w0 i (w\<lparr>m_des := replace de_key de (m_des w)\<rparr>)"
    if "same_resources w0 i w" "de_ident de = i" for de w
    using that by (auto simp: same_resources_def absent_def list_ex_iff replace_def de_ident_def)
  show ?thesis unfolding displays_def calls update using reads there by simp
qed

text \<open>An environment with one subset, in a cluster that has its destination rule and its route.\<close>

definition sample_settled :: mem where
  "sample_settled = sample_mesh_world\<lparr>
     m_drs := [sample_rule, sample_rule\<lparr>dr_Meta := (dr_Meta sample_rule)\<lparr>om_Name := ''details-ns-env-details''\<rparr>,
       dr_Subsets := [\<lparr>is_Name = ''ns-env'', is_Labels = Some [(''version'', ''ns-env'')], is_rest = []\<rparr>]\<rparr>],
     m_vss := [sample_vs\<lparr>vs_Http := [\<lparr>hr_Name = ''dynamic-environment-ns-env-details-ba7816bf8f'',
       hr_Match = [\<lparr>mr_Headers = Some [(''end-user'', ExactMatch ''jason'')], mr_SourceLabels = None, mr_rest = []\<rparr>],
       hr_Route = [\<lparr>rd_Destination = Some \<lparr>dst_Host = ''details'', dst_Subset = ''ns-env'', dst_rest = []\<rparr>,
         rd_Weight = 0, rd_Headers = None\<rparr>], hr_Delegate = None, hr_rest = []\<rparr>, sample_route]\<rparr>]\<rparr>"

lemma sample_settled_facts:
  "GetDynamicEnv mem_env (sample_req ''env'') sample_settled = (Inr sample_subset_env, sample_settled)"
  "mesh_ready mem_env sample_reconciler (mem_view sample_settled) sample_subset_env sample_override sample_base"
  "HashStructure mem_env sample_override = Inr (stored_hash sample_subset_env \<lparr>sbt_Type = SUBSET, sbt_Subset = sample_override\<rparr>)"
  "de_DeletionTimestamp sample_subset_env = None" "de_Finalizers sample_subset_env \<noteq> []"
  "nothing_to_remove sample_subset_env"
  "subsets_and_consumers sample_subset_env = [\<lparr>sbt_Type = SUBSET, sbt_Subset = sample_override\<rparr>]"
  "de_ident sample_subset_env = sample_req ''env''"
  "sample_subset_env \<in> set (m_des sample_settled)"
  "v_Deployment (mem_view sample_settled) \<lparr>nn_Namespace = ''ns'', nn_Name = ''details''\<rparr> = Some sample_base"
  "v_Deployment (mem_view sample_settled) \<lparr>nn_Namespace = ''ns'', nn_Name = ''details-ns-env''\<rparr> = Some sample_available"
  by code_simp+

section \<open>Properties\<close>

text \<open>
  C2: an environment whose resources are in place becomes ready. Let the server show a fixed picture of the resources and accept
  the updates of the environment's status. When the environment is not being deleted, has its finalizers, the status lists nothing
  that left the spec, and for every subset and consumer the overriding deployment is available and was made from the current
  definition, and for every subset the service hosts have their destination rules and the virtual services that serve them have
  their routes, then one run returns without an error and without asking for another one, its last request reports \<open>Ready\<close>
  with all subsets and consumers ready, and all other requests only read or update the status.
\<close>

theorem ready_when_in_place:
  assumes "displays c v (de_ident de) W" and "GetDynamicEnv c req w = (Inr de, w1)" and "W w1"
    and "de_DeletionTimestamp de = None" and "de_Finalizers de \<noteq> []" and "nothing_to_remove de"
    and "\<forall>st \<in> set (subsets_and_consumers de). resources_ready c r v de st"
  shows "\<exists>w' es nde. Reconcile (traced c) r req (w, []) = (Done (Result_zero, None), w', es @ [UpdatedStatus nde None]) \<and>
    st_State (de_Status nde) = Ready \<and> st_TotalCount (de_Status nde) = int (length (subsets_and_consumers de)) \<and>
    st_TotalReady (de_Status nde) = int (length (subsets_and_consumers de)) \<and> list_all (\<lambda>e. is_read e \<or> is_status e) es \<and> W w'"
proof -
  let ?V = "\<lambda>(w, es). W w \<and> list_all (\<lambda>e. is_read e \<or> is_status e) es"
  let ?s = "loaded de w1 req"
  have s: "showing ?V de ?s" "cur_de ?s = de"
    using assms(3) by (simp_all add: showing_def env_like_def same_hashes_def)
  have env: "reconcile_env (traced c) r ?s = reconcile_live (traced c) r ?s"
    using assms(4,5) by (simp add: reconcile_env_def markedForDeletion_def ensureFinalizers_def bnd_apply)
  obtain res t u nde where run: "reconcile_live (traced c) r ?s = (Done res, t)" and res: "res = (Result_zero, None)"
    and t: "showing ?V de t" and u: "showing ?V de u" and log: "log_of t = log_of u @ [UpdatedStatus nde None]"
    and rep: "report (length (subsets_and_consumers de)) False ReconcileLoopStatus_new nde"
    using reconcile_live_ready [OF displays_traced [OF assms(1)] s assms(6,7)]
    by (auto simp: returns_def split: prod.splits outcome.splits)
  have "Reconcile (traced c) r req (w, []) = (Done (Result_zero, None), fst (world t), log_of u @ [UpdatedStatus nde None])"
    by (simp add: Reconcile_loaded [OF assms(2)] env run res log [symmetric])
  with report_ready [OF rep] t u show ?thesis by (auto simp: showing_def split_beta)
qed

theorem ready_when_in_place_witness:
  "\<exists>w' es nde. Reconcile (traced mem_env) sample_reconciler (sample_req ''env'') (sample_settled, []) =
     (Done (Result_zero, None), w', es @ [UpdatedStatus nde None]) \<and> st_State (de_Status nde) = Ready \<and>
     st_TotalReady (de_Status nde) = 1 \<and> list_all (\<lambda>e. is_read e \<or> is_status e) es"
proof -
  let ?st = "\<lparr>sbt_Type = SUBSET, sbt_Subset = sample_override\<rparr>" and ?v = "mem_view sample_settled"
  note facts = sample_settled_facts
  have "latest DeploymentProgressing (dep_Conditions sample_available) (hd (dep_Conditions sample_available))"
    by (auto simp: latest_def sample_available_def progressing_def intro: exI [of _ "[]"])
  then have avail: "available sample_available"
    unfolding available_def
    by (intro exI [of _ "hd (dep_Conditions sample_available)"] conjI) (simp_all add: sample_available_def progressing_def)
  have keys: "overriding_key (de_ident sample_subset_env) ?st = \<lparr>nn_Namespace = ''ns'', nn_Name = ''details-ns-env''\<rparr>"
    "\<lparr>nn_Namespace = sub_Namespace sample_override, nn_Name = sub_Name sample_override\<rparr> =
      \<lparr>nn_Namespace = ''ns'', nn_Name = ''details''\<rparr>"
    by (simp_all add: facts(8) overriding_key_def sample_override_def UniqueDynamicEnvName_def sample_req_def)
  have ready: "\<forall>st \<in> set (subsets_and_consumers sample_subset_env). resources_ready mem_env sample_reconciler ?v sample_subset_env st"
    by (simp add: facts(2,3,7,10,11) avail keys resources_ready_def deployment_ready_def)
  have "same_resources sample_settled (de_ident sample_subset_env) sample_settled"
    using facts(9) by (auto simp: same_resources_def de_ident_def)
  from ready_when_in_place [OF mem_env_displays facts(1) this facts(4,5,6) ready] show ?thesis
    by (simp only: facts(7) list.size) auto
qed

end
