(* ===== verification/Status_Invariant.thy ===== *)
theory Status_Invariant
  imports Reconcile_Correct
begin

text \<open>
  The status is well-formed whenever it is written: its maps hold a key once, a subset lists a destination rule or a virtual
  service once, and every list of errors holds a message once. \<open>safe\<close> is the invariant of a run, with the log of the
  requests; every operation that touches the status keeps it, and the reconciler composes them.
\<close>

section \<open>Well-formed statuses\<close>

definition wf_errors :: "SubsetErrors \<Rightarrow> bool" where
  "wf_errors errs \<longleftrightarrow> distinct (msgs_of (errs_Deployment errs)) \<and> distinct (msgs_of (errs_DestinationRule errs)) \<and>
     distinct (msgs_of (errs_VirtualServices errs)) \<and> distinct (msgs_of (errs_Subset errs))"

definition wf_subset :: "SubsetStatus \<Rightarrow> bool" where
  "wf_subset v \<longleftrightarrow> distinct (map resource_key (ss_DestinationRules v)) \<and>
     distinct (map resource_key (ss_VirtualServices v)) \<and> wf_errors (SafeGetSubsetErrors v)"

definition wf_consumer :: "ConsumerStatus \<Rightarrow> bool" where
  "wf_consumer v \<longleftrightarrow> distinct (msgs_of (cs_Errors v))"

definition wf_status :: "DynamicEnvStatus \<Rightarrow> bool" where
  "wf_status st \<longleftrightarrow> status_maps_ok st \<and> (\<forall>k. wf_subset (subset_status st k)) \<and> (\<forall>k. wf_consumer (consumer_status st k))"

lemma wf_zero [simp]: "wf_subset SubsetStatus_zero" "wf_consumer ConsumerStatus_zero" "wf_errors SubsetErrors_zero"
  by (simp_all add: wf_subset_def wf_consumer_def wf_errors_def SafeGetSubsetErrors_def SubsetStatus_zero_def
      ConsumerStatus_zero_def SubsetErrors_zero_def)

lemma wf_subset_fields [simp]:
  "wf_subset (v\<lparr>ss_Deployment := d\<rparr>) = wf_subset v" "wf_subset (v\<lparr>ss_Hash := h\<rparr>) = wf_subset v"
  "wf_consumer (u\<lparr>cs_ResourceStatus := d\<rparr>) = wf_consumer u" "wf_consumer (u\<lparr>cs_Hash := h\<rparr>) = wf_consumer u"
  by (simp_all add: wf_subset_def wf_consumer_def SafeGetSubsetErrors_def)

lemma wf_init [simp]: "wf_status st \<Longrightarrow> wf_status (init_subsets st)" "wf_status st \<Longrightarrow> wf_status (init_consumers st)"
proof -
  have "status_maps_ok (init_subsets st)" "status_maps_ok (init_consumers st)" if "status_maps_ok st"
    using that by (simp_all add: status_maps_ok_def init_subsets_def init_consumers_def)
  moreover have "consumer_status (init_subsets st) = consumer_status st" "subset_status (init_consumers st) = subset_status st"
    by (simp_all add: fun_eq_iff consumer_status_def subset_status_def init_consumers_def)
  ultimately show "wf_status st \<Longrightarrow> wf_status (init_subsets st)" "wf_status st \<Longrightarrow> wf_status (init_consumers st)"
    by (simp_all add: wf_status_def)
qed

lemma wf_put [simp]:
  "wf_status st \<Longrightarrow> wf_subset v \<Longrightarrow> wf_status (put_subset k v st)"
  "wf_status st \<Longrightarrow> wf_consumer u \<Longrightarrow> wf_status (put_consumer k u st)"
proof -
  have "consumer_status (put_subset k v st) = consumer_status st" "subset_status (put_consumer k u st) = subset_status st"
    by (simp_all add: fun_eq_iff consumer_status_def subset_status_def put_consumer_def)
  moreover have "status_maps_ok (put_subset k v st)" "status_maps_ok (put_consumer k u st)" if "status_maps_ok st"
    using that by (simp_all add: status_maps_ok_def put_consumer_def put_subset_def)
  ultimately show "wf_status st \<Longrightarrow> wf_subset v \<Longrightarrow> wf_status (put_subset k v st)"
    "wf_status st \<Longrightarrow> wf_consumer u \<Longrightarrow> wf_status (put_consumer k u st)"
    by (simp_all add: wf_status_def)
qed

lemma wf_statusD [simp]: "wf_status st \<Longrightarrow> wf_subset (subset_status st k)" "wf_status st \<Longrightarrow> wf_consumer (consumer_status st k)"
  by (simp_all add: wf_status_def)

lemma wf_delete [simp]:
  "wf_status st \<Longrightarrow> wf_status (st\<lparr>st_SubsetsStatus := gm_delete k (st_SubsetsStatus st)\<rparr>)"
  "wf_status st \<Longrightarrow> wf_status (st\<lparr>st_ConsumersStatus := gm_delete k (st_ConsumersStatus st)\<rparr>)"
  by (auto simp: wf_status_def status_maps_ok_def subset_status_def consumer_status_def gm_get_def split: option.splits)

lemma wf_global [simp]: "wf_status (st\<lparr>st_State := g, st_TotalCount := n, st_TotalReady := m\<rparr>) = wf_status st"
  by (simp add: wf_status_def status_maps_ok_def subset_status_def consumer_status_def)

lemma wf_sync_list:
  assumes "distinct (map resource_key rs)"
  shows "distinct (map resource_key (sync_list r rs))"
proof (cases "\<exists>x \<in> set rs. same_resource r x")
  case True
  have "map resource_key (map (\<lambda>x. if same_resource r x then r else x) rs) = map resource_key rs"
    by (auto simp: resource_key_def)
  with True assms show ?thesis by (simp add: sync_list_def SyncStatusResources_eq del: map_map)
next
  case False
  then have "resource_key r \<notin> set (map resource_key rs)" by (auto simp: resource_key_def)
  with False assms show ?thesis by (auto simp: sync_list_def SyncStatusResources_eq)
qed

lemma wf_entries [simp]:
  "wf_subset v \<Longrightarrow> wf_subset (v\<lparr>ss_DestinationRules := sync_list r (ss_DestinationRules v)\<rparr>)"
  "wf_subset v \<Longrightarrow> wf_subset (v\<lparr>ss_VirtualServices := sync_list r (ss_VirtualServices v)\<rparr>)"
  "wf_errors errs \<Longrightarrow> wf_subset v \<Longrightarrow> wf_subset (v\<lparr>ss_Errors := Some errs\<rparr>)"
  by (simp_all add: wf_subset_def SafeGetSubsetErrors_def wf_sync_list)

section \<open>The invariant of a run\<close>

fun status_written :: "effect \<Rightarrow> DynamicEnvStatus option" where
  "status_written (UpdatedStatus de _) = Some (de_Status de)"
| "status_written (UpdatedDynamicEnv de _) = Some (de_Status de)"
| "status_written _ = None"

definition wf_written :: "effect \<Rightarrow> bool" where
  "wf_written e \<longleftrightarrow> (\<forall>st. status_written e = Some st \<longrightarrow> wf_status st)"

definition safe :: "('w \<times> effect list) loop_state \<Rightarrow> bool" where
  "safe s \<longleftrightarrow> wf_status (status_of s) \<and> list_all wf_written (log_of s)"

lemma safe_with_status: "safe s \<Longrightarrow> wf_status st \<Longrightarrow> safe (with_status s st)"
  by (simp add: safe_def)

lemma safe_log: "safe s \<Longrightarrow> wf_status (status_of t) \<Longrightarrow> log_of t = log_of s \<Longrightarrow> safe t"
  by (simp add: safe_def)

lemma safe_log_call: "(\<And>x. status_written (e x) = None) \<Longrightarrow> keeps safe (call (log_call e f))"
  by (auto simp: keeps_def safe_def wf_written_def call_apply log_call_def split: prod.splits)

lemma safe_calls [keeps_intro]:
  "keeps safe (call (GetDeployment (traced c) nn))" "keeps safe (call (GetVirtualService (traced c) nn))"
  "keeps safe (call (GetDestinationRule (traced c) nn))" "keeps safe (call (DeleteDeployment (traced c) dep))"
  "keeps safe (call (DeleteDestinationRule (traced c) dr))" "keeps safe (call (CreateDeployment (traced c) dep))"
  "keeps safe (call (CreateDestinationRule (traced c) dr))" "keeps safe (call (UpdateDeployment (traced c) dep))"
  "keeps safe (call (UpdateVirtualService (traced c) vs))"
  by (auto intro!: safe_log_call)

lemma safe_silent [keeps_intro]:
  "keeps safe (call (RangeOrder (traced c) ks))" "keeps safe (call (TimeNow (traced c)))"
  "keeps safe (call (ListVirtualServices (traced c)))" "keeps safe (call (ListDestinationRules (traced c) ns))"
  "keeps safe (call (ListServices (traced c) ns))"
  by (auto simp: keeps_def safe_def call_apply silent_def split: prod.splits)

lemma safe_modifyStatus: "(\<And>st. wf_status st \<Longrightarrow> wf_status (g st)) \<Longrightarrow> keeps safe (modifyStatus g)"
  by (simp add: keeps_def safe_def)

lemma safe_StatusUpdate [keeps_intro]:
  assumes "status_echoes c"
  shows "keeps safe (StatusUpdate (traced c))"
proof (rule keepsI)
  fix s :: "('a \<times> effect list) loop_state" assume s: "safe s"
  obtain w es where w: "world s = (w, es)" by (cases "world s")
  obtain err de w' where up: "UpdateDynamicEnvStatus c (cur_de s) w = ((err, de), w')" by (metis prod.collapse)
  with assms have "de_Status de = status_of s"
    unfolding status_echoes_def by (metis (mono_tags, lifting) case_prod_conv)
  with s w up show "safe (snd (StatusUpdate (traced c) s))"
    by (simp add: StatusUpdate_def write_back_apply log_call_eq safe_def wf_written_def)
qed

lemma safe_UpdateDE:
  assumes "update_echoes c"
  shows "keeps safe (UpdateDE (traced c))"
proof (rule keepsI)
  fix s :: "('a \<times> effect list) loop_state" assume s: "safe s"
  obtain w es where w: "world s = (w, es)" by (cases "world s")
  obtain err de w' where up: "UpdateDynamicEnv c (cur_de s) w = ((err, de), w')" by (metis prod.collapse)
  from update_echoesD [OF assms up] s w up show "safe (snd (UpdateDE (traced c) s))"
    by (simp add: UpdateDE_def write_back_apply log_call_eq safe_def wf_written_def)
qed

text \<open>New finalizers leave the status alone.\<close>

lemma safe_finalizers:
  assumes "update_echoes c" and "\<And>r. keeps safe (f r)"
  shows "keeps safe (bnd readDE (\<lambda>de. bnd (writeDE (de\<lparr>de_Finalizers := g de\<rparr>)) (\<lambda>_. bnd (UpdateDE (traced c)) f)))"
proof (rule keepsI)
  fix s :: "('a \<times> effect list) loop_state" assume "safe s"
  then have "safe (s\<lparr>cur_de := (cur_de s)\<lparr>de_Finalizers := g (cur_de s)\<rparr>\<rparr>)" by (simp add: safe_def)
  moreover have "keeps safe (bnd (UpdateDE (traced c)) f)" by (intro keeps_intro safe_UpdateDE assms)
  ultimately show "safe (snd (bnd readDE (\<lambda>de. bnd (writeDE (de\<lparr>de_Finalizers := g de\<rparr>)) (\<lambda>_. bnd (UpdateDE (traced c)) f)) s))"
    by (simp add: bnd_apply [of readDE] bnd_apply [of "writeDE _"] keeps_def)
qed

section \<open>The status manager\<close>

lemma safe_entries [keeps_intro]:
  assumes "status_echoes c"
  shows "keeps safe (AddDeploymentStatusEntry (traced c) k r tpe)" "keeps safe (AddDestinationRuleStatusEntry (traced c) k r)"
    "keeps safe (AddVirtualServiceStatusEntry (traced c) k r)"
proof -
  note sent = safe_StatusUpdate [OF assms, unfolded keeps_def, rule_format, OF safe_with_status]
  have "wf_status (status_of s)" if "safe s" for s :: "('a \<times> effect list) loop_state"
    using that by (simp add: safe_def)
  note wf = this
  show "keeps safe (AddDeploymentStatusEntry (traced c) k r tpe)"
    by (rule keepsI) (simp add: AddDeploymentStatusEntry_def subset_dep.add_law consumer_dep.add_law Let_def sent
        safe_with_status wf)
  show "keeps safe (AddDestinationRuleStatusEntry (traced c) k r)"
    by (rule keepsI) (simp add: subset_dr.add_law Let_def sent safe_with_status wf)
  show "keeps safe (AddVirtualServiceStatusEntry (traced c) k r)"
    by (rule keepsI) (simp add: subset_vs.add_law Let_def sent safe_with_status wf)
qed

lemma safe_ApplyHash [keeps_intro]: "status_echoes c \<Longrightarrow> keeps safe (ApplyHash (traced c) k h tpe)"
proof (rule keepsI)
  fix s :: "('a \<times> effect list) loop_state" assume c: "status_echoes c" and s: "safe s"
  note sent = safe_StatusUpdate [OF c, unfolded keeps_def, rule_format, OF safe_with_status]
  have "wf_status (status_of s)" using s by (simp add: safe_def)
  with s show "safe (snd (ApplyHash (traced c) k h tpe s))"
    by (simp add: ApplyHash_def setHashForSubset_apply setHashForConsumer_apply sent)
qed

lemma sync_messages_silent:
  "returns (sync_messages (traced c) msgs errs) s (\<lambda>result t. cur_de t = cur_de s \<and> log_of t = log_of s \<and>
     (distinct (msgs_of errs) \<longrightarrow> distinct (msgs_of result)))"
  using returns_conj [OF sync_messages_returns [of "traced c" msgs errs s]]
    yields_no_request [OF does_sync_messages, of c msgs errs s]
    sync_messages_returns [of "traced c" msgs errs s]
  by (auto simp: returns_iff yields_def distinct_insert_msgs)

lemma safe_sync_subset: "keeps safe (sync_subset (traced c) k m)"
proof (rule keepsI)
  fix s :: "('a \<times> effect list) loop_state" assume s: "safe s"
  let ?v = "subset_status (status_of s) k"
  from s have wf: "wf_status (status_of s)" and errs: "wf_errors (SafeGetSubsetErrors ?v)"
    by (auto simp: safe_def wf_status_def wf_subset_def)
  from sync_subset_returns [of "traced c" k m s] obtain t errs' where
    run: "sync_subset (traced c) k m s = (Done (), t)" and
    new: "errors_synced m (subset_errors (status_of s) k) errs'"
      "cur_de t = (cur_de s)\<lparr>de_Status := put_subset k (?v\<lparr>ss_Errors := Some errs'\<rparr>) (init_subsets (status_of s))\<rparr>"
    by (auto simp: returns_iff)
  have "does A (sync_subset (traced c) k m)" for A
    unfolding sync_subset_def by (intro does_intro)
  from yieldsD [OF yields_no_request [OF this] run] have "log_of t = log_of s" .
  moreover have "wf_errors errs'"
    using new(1) errs by (simp add: errors_synced_def wf_errors_def subset_errors_def distinct_insert_msgs)
  ultimately show "safe (snd (sync_subset (traced c) k m s))"
    using run new(2) s wf by (simp add: safe_log)
qed

lemma safe_sync_consumer: "keeps safe (sync_consumer (traced c) k ms)"
proof (rule keepsI)
  fix s :: "('a \<times> effect list) loop_state" assume s: "safe s"
  let ?st = "init_consumers (status_of s)"
  from s have wf: "wf_status ?st" by (simp add: safe_def)
  then have errs: "distinct (msgs_of (cs_Errors (consumer_status ?st k)))"
    using wf_statusD(2) [OF wf, of k] by (simp add: wf_consumer_def)
  have maps: "(case st_ConsumersStatus st of None \<Rightarrow> gm_make | Some m \<Rightarrow> Some m) = st_ConsumersStatus (init_consumers st)" for st
    by (simp add: init_consumers_def split: option.split)
  have same: "st\<lparr>st_ConsumersStatus := gm_put k v (st_ConsumersStatus (init_consumers st))\<rparr> = put_consumer k v (init_consumers st)" for st v
    by (simp add: put_consumer_def init_consumers_def)
  have "returns (sync_consumer (traced c) k ms) s (\<lambda>_ t. safe t)"
    unfolding sync_consumer_def Let_def maps returns_bnd returns_readDE consumer_status_def [symmetric]
    by (rule returns_mono [OF sync_messages_silent])
      (use s wf errs in \<open>auto simp: wp same safe_def wf_consumer_def simp del: consumer_status_init\<close>)
  then show "safe (snd (sync_consumer (traced c) k ms s))" by (auto simp: returns_iff)
qed

lemma safe_SyncMessages [keeps_intro]:
  "keeps safe (SyncSubsetMessagesToStatus (traced c) messages)" "keeps safe (SyncConsumerMessagesToStatus (traced c) cmessages)"
proof -
  have "keeps safe (sync_subsets (traced c) messages ks)" "keeps safe (sync_consumers (traced c) cmessages ks)" for ks
    by (induction ks) (auto intro!: keeps_intro safe_sync_subset safe_sync_consumer)
  then show "keeps safe (SyncSubsetMessagesToStatus (traced c) messages)"
    "keeps safe (SyncConsumerMessagesToStatus (traced c) cmessages)"
    unfolding SyncSubsetMessagesToStatus_def SyncConsumerMessagesToStatus_def
    by (auto intro!: keeps_intro simp del: traced_sel)
qed

lemma safe_SetGlobalState [keeps_intro]: "status_echoes c \<Longrightarrow> keeps safe (SetGlobalState (traced c) g n m)"
  unfolding SetGlobalState_def by (intro keeps_intro safe_modifyStatus) simp

lemma safe_AddGlobalVirtualServiceError [keeps_intro]:
  assumes "status_echoes c"
  shows "keeps safe (AddGlobalVirtualServiceError (traced c) k msg)"
proof (rule keepsI)
  fix s :: "('a \<times> effect list) loop_state" assume s: "safe s"
  let ?st = "init_subsets (status_of s)" and ?v = "subset_status (status_of s) k"
  note sent = safe_StatusUpdate [OF assms, unfolded keeps_def, rule_format]
  have "SyncGlobalErrors c' msg errs = sync_messages c' [msg] errs" for c' :: "('a \<times> effect list) Env" and errs
    by (simp add: bnd_def fun_eq_iff split: prod.split outcome.split)
  note sync = sync_messages_silent [of c "[msg]", folded this]
  have errs: "wf_errors (SafeGetSubsetErrors ?v)" and wf: "wf_status ?st"
    using s wf_statusD(1) [of "status_of s" k] by (simp_all add: safe_def wf_subset_def)
  have assign: "safe (snd (bnd (assignSubsetStatus k (?v\<lparr>ss_Errors := Some errs\<rparr>)) (\<lambda>_. StatusUpdate (traced c)) t))"
    if "cur_de t = (cur_de s)\<lparr>de_Status := ?st\<rparr>" "log_of t = log_of s" "wf_errors errs" for t errs
  proof -
    have "safe (t\<lparr>cur_de := (cur_de s)\<lparr>de_Status := put_subset k (?v\<lparr>ss_Errors := Some errs\<rparr>) ?st\<rparr>\<rparr>)"
      using that s wf by (simp add: safe_def)
    then show ?thesis using that(1) by (simp add: bnd_apply assignSubsetStatus_apply sent)
  qed
  from sync [of "errs_VirtualServices (SafeGetSubsetErrors ?v)" "with_status s ?st"]
  obtain result t where "SyncGlobalErrors (traced c) msg (errs_VirtualServices (SafeGetSubsetErrors ?v)) (with_status s ?st)
      = (Done result, t)" "cur_de t = (cur_de s)\<lparr>de_Status := ?st\<rparr>" "log_of t = log_of s" "distinct (msgs_of result)"
    using errs by (auto simp: returns_iff wf_errors_def)
  with assign [of t "(SafeGetSubsetErrors ?v)\<lparr>errs_VirtualServices := result\<rparr>"] errs
  show "safe (snd (AddGlobalVirtualServiceError (traced c) k msg s))"
    by (simp add: AddGlobalVirtualServiceError_def bnd_apply [of "safeGetSubsetsStatus k"] safeGetSubsetsStatus_apply
        Let_def bnd_apply [of "SyncGlobalErrors _ _ _"] wf_errors_def)
qed

section \<open>The cleanup manager\<close>

lemma safe_delete [keeps_intro]:
  "keeps safe (deleteDeployment (traced c) r)" "keeps safe (deleteDestinationRule (traced c) r)"
  "keeps safe (cleanupVirtualService (traced c) r)"
  unfolding deleteDeployment_def deleteDestinationRule_def cleanupVirtualService_def by (intro keeps_intro)+

lemma safe_delete_loops [keeps_intro]:
  "keeps safe (delete_deployments (traced c) rs n)" "keeps safe (delete_destination_rules (traced c) rs n)"
  "keeps safe (cleanup_virtual_services (traced c) rs)" "keeps safe (remove_drs (traced c) rs b)"
  "keeps safe (remove_vss (traced c) rs)"
  by (induction rs arbitrary: n b; auto intro!: keeps_intro)+

lemma safe_deleteFinalizer [keeps_intro]: "update_echoes c \<Longrightarrow> keeps safe (deleteFinalizer (traced c) F)"
  unfolding deleteFinalizer_def by (intro safe_finalizers keeps_intro)

lemma safe_DeleteAllResources [keeps_intro]: "update_echoes c \<Longrightarrow> keeps safe (DeleteAllResources (traced c))"
  unfolding DeleteAllResources_def finalizer_block_def deleteAllDeployments_def deleteAllDestinationRules_def
    cleanupVirtualServices_def
  by (intro keeps_intro)

lemma safe_ensureFinalizers [keeps_intro]:
  assumes "update_echoes c"
  shows "keeps safe (ensureFinalizers (traced c))"
proof (rule keepsI)
  fix s :: "('a \<times> effect list) loop_state" assume s: "safe s"
  let ?set = "bnd readDE (\<lambda>de. bnd (writeDE (de\<lparr>de_Finalizers :=
      [DeleteDeployments, DeleteDestinationRules, CleanupVirtualServices]\<rparr>)) (\<lambda>_.
      bnd (UpdateDE (traced c)) (\<lambda>r. case r of Some err \<Rightarrow> ret (Some (Wrap ''could not update finalizers'' err)) | None \<Rightarrow> ret None)))"
  have "keeps safe ?set" by (intro safe_finalizers assms keeps_intro)
  with s have "safe (snd (?set s))" by (simp add: keeps_def)
  with s show "safe (snd (ensureFinalizers (traced c) s))"
    by (simp add: ensureFinalizers_def bnd_apply [of readDE])
qed

lemma safe_rewrite:
  assumes "\<And>v. wf_subset v \<Longrightarrow> wf_subset (g v)" and "\<And>u. wf_consumer u \<Longrightarrow> wf_consumer (h u)" and "\<And>x. keeps safe (f x)"
  shows "keeps safe (bnd readDE (\<lambda>de. bnd (assignSubsetStatus k (g (gm_get SubsetStatus_zero (st_SubsetsStatus (de_Status de)) k))) f))"
    and "keeps safe (bnd readDE (\<lambda>de. bnd (assignConsumerStatus k (h (gm_get ConsumerStatus_zero (st_ConsumersStatus (de_Status de)) k))) f))"
proof -
  have "safe (with_status s (put_subset k (g (subset_status (status_of s) k)) (status_of s)))"
    "safe (with_status s (put_consumer k (h (consumer_status (status_of s) k)) (status_of s)))"
    if "safe s" for s :: "('a \<times> effect list) loop_state"
    using that assms(1,2) by (simp_all add: safe_def)
  note kept = assms(3) [unfolded keeps_def, rule_format, OF this(1)] assms(3) [unfolded keeps_def, rule_format, OF this(2)]
  show "keeps safe (bnd readDE (\<lambda>de. bnd (assignSubsetStatus k (g (gm_get SubsetStatus_zero (st_SubsetsStatus (de_Status de)) k))) f))"
    by (rule keepsI) (simp add: bnd_apply [of readDE] bnd_apply [of "assignSubsetStatus _ _"] assignSubsetStatus_apply
        subset_status_def [symmetric] kept)
  show "keeps safe (bnd readDE (\<lambda>de. bnd (assignConsumerStatus k (h (gm_get ConsumerStatus_zero (st_ConsumersStatus (de_Status de)) k))) f))"
    by (rule keepsI) (simp add: bnd_apply [of readDE] bnd_apply [of "assignConsumerStatus _ _"] assignConsumerStatus_apply
        consumer_status_def [symmetric] kept)
qed

lemma safe_removeConsumer [keeps_intro]:
  assumes "status_echoes c"
  shows "keeps safe (removeConsumer (traced c) k)"
proof -
  have mark: "keeps safe (bnd readDE (\<lambda>de. bnd (assignConsumerStatus k ((gm_get ConsumerStatus_zero (st_ConsumersStatus (de_Status de)) k)
      \<lparr>cs_ResourceStatus := (cs_ResourceStatus (gm_get ConsumerStatus_zero (st_ConsumersStatus (de_Status de)) k))\<lparr>rs_Status := Removing\<rparr>\<rparr>))
      (\<lambda>_. bnd (StatusUpdate (traced c)) (\<lambda>err. ret (True, err)))))"
    by (rule safe_rewrite(2) [where g = id]) (auto intro!: keeps_intro assms)
  show ?thesis
    unfolding removeConsumer_def Let_def by (intro keeps_intro mark safe_modifyStatus assms) simp
qed

lemma safe_removeSubset [keeps_intro]:
  assumes "status_echoes c"
  shows "keeps safe (removeSubset (traced c) k)"
proof -
  have mark: "keeps safe (bnd readDE (\<lambda>de. bnd (assignSubsetStatus k ((gm_get SubsetStatus_zero (st_SubsetsStatus (de_Status de)) k)
      \<lparr>ss_Deployment := (ss_Deployment (gm_get SubsetStatus_zero (st_SubsetsStatus (de_Status de)) k))\<lparr>rs_Status := Removing\<rparr>\<rparr>))
      (\<lambda>_. bnd (StatusUpdate (traced c)) (\<lambda>err. ret (True, err)))))"
    by (rule safe_rewrite(1) [where h = id]) (auto intro!: keeps_intro assms)
  show ?thesis
    unfolding removeSubset_def remove_subset_resources_def Let_def
    by (intro keeps_intro mark safe_modifyStatus assms) simp
qed

lemma safe_cleanup_removed [keeps_intro]: "status_echoes c \<Longrightarrow> keeps safe (cleanup_removed (traced c) sts)"
proof -
  assume c: "status_echoes c"
  have "keeps safe (remove_all (traced c) m names b)" for m names b
    by (induction names arbitrary: b) (auto intro!: keeps_intro c)
  then show ?thesis
    unfolding cleanup_removed_def RemoveSubsetsAndConsumers_def by (intro keeps_intro)
qed

section \<open>The handlers and the reconciler\<close>

lemma safe_dh_Handle [keeps_intro]: "status_echoes c \<Longrightarrow> keeps safe (dh_Handle (traced c) h)"
  unfolding dh_Handle_def UpdateIfRequired_def dh_setStatus_def by (intro keeps_intro)

lemma safe_drh_Handle [keeps_intro]: "status_echoes c \<Longrightarrow> keeps safe (drh_Handle (traced c) h)"
proof -
  assume c: "status_echoes c"
  have "keeps safe (createMissingDestinationRule (traced c) h n host)" for h n host
    unfolding createMissingDestinationRule_def drh_setStatus_def generateOverridingDestinationRule_def
      locateDestinationRuleByHostname_def
    by (intro keeps_intro c)
  then have "keeps safe (handle_hosts (traced c) h hosts)" for h hosts
    by (induction hosts arbitrary: h) (auto intro!: keeps_intro simp del: traced_sel)
  then show ?thesis unfolding drh_Handle_def by (intro keeps_intro)
qed

lemma safe_vsh_Handle [keeps_intro]: "status_echoes c \<Longrightarrow> keeps safe (vsh_Handle (traced c) h)"
proof -
  assume c: "status_echoes c"
  have "keeps safe (extractServiceFromDelegate (traced c) h d items heap)" for h d items heap
    unfolding extractServiceFromDelegate_def by (intro keeps_intro c)
  then have "keeps safe (locate_delegates (traced c) h items ds result heap)" for h items ds result heap
    by (induction ds arbitrary: result heap) (auto intro!: keeps_intro simp del: traced_sel)
  then have "keeps safe (locate_hosts (traced c) h host items idx service hosts result heap)" for h host items idx service hosts result heap
    by (induction hosts arbitrary: result heap) (auto intro!: keeps_intro simp del: traced_sel)
  then have "keeps safe (locate_items (traced c) h host items idx rest result heap)" for h host items idx rest result heap
    by (induction rest arbitrary: idx result heap) (auto intro!: keeps_intro simp del: traced_sel)
  then have locate: "keeps safe (locateVirtualServicesByServiceHost (traced c) h host)" for h host
    unfolding locateVirtualServicesByServiceHost_def by (intro keeps_intro)
  have "keeps safe (updateVirtualService (traced c) h heap p host)" for h heap p host
    unfolding updateVirtualService_def by (intro keeps_intro c)
  then have "keeps safe (update_services (traced c) h host heap ps b)" for h host heap ps b
    by (induction ps arbitrary: heap b) (auto intro!: keeps_intro simp del: traced_sel)
  then have "keeps safe (handle_service_hosts (traced c) h hosts)" for h hosts
    by (induction hosts arbitrary: h) (auto intro!: keeps_intro locate simp: Let_def simp del: traced_sel)
  then show ?thesis unfolding vsh_Handle_def by (intro keeps_intro)
qed

lemma safe_statuses [keeps_intro]:
  assumes "status_echoes c"
  shows "keeps safe (dh_GetStatus (traced c) dh)" "keeps safe (dh_ApplyStatus (traced c) dh st)"
    "keeps safe (mrh_GetStatus (traced c) mh)" "keeps safe (mrh_ApplyStatus (traced c) mh sts)"
proof -
  show "keeps safe (dh_GetStatus (traced c) dh)" "keeps safe (dh_ApplyStatus (traced c) dh st)"
    unfolding dh_GetStatus_def dh_ApplyStatus_def by (intro keeps_intro assms)+
  have "keeps safe (status_hosts (traced c) h hosts xs)" for h hosts xs
    by (induction hosts arbitrary: xs) (auto intro!: keeps_intro simp: Let_def simp del: traced_sel)
  moreover have "keeps safe (fetch_services (traced c) nns vss)" for nns vss
    by (induction nns arbitrary: vss) (auto intro!: keeps_intro simp del: traced_sel)
  ultimately show "keeps safe (mrh_GetStatus (traced c) mh)"
    by (cases mh) (auto simp: drh_GetStatus_def vsh_GetStatus_def intro!: keeps_intro)
  have "keeps safe (apply_dr_statuses (traced c) k xs)" "keeps safe (apply_vs_statuses (traced c) k xs)" for k xs
    by (induction xs) (auto intro!: keeps_intro assms)
  then show "keeps safe (mrh_ApplyStatus (traced c) mh sts)"
    by (cases mh) (auto simp: drh_ApplyStatus_def vsh_ApplyStatus_def)
qed

lemma safe_processHandlersStatus [keeps_intro]:
  assumes "status_echoes c"
  shows "keeps safe (processHandlersStatus (traced c) dhs mrhs)"
proof -
  have "keeps safe (process_srhs (traced c) dhs vars)" for vars
    by (induction dhs arbitrary: vars) (auto simp: split_paired_all Let_def split_beta intro!: keeps_intro assms)
  moreover have "keeps safe (process_mrhs (traced c) mrhs vars)" for vars
    by (induction mrhs arbitrary: vars) (auto simp: split_paired_all Let_def split_beta intro!: keeps_intro assms)
  ultimately show ?thesis unfolding processHandlersStatus_def by (intro keeps_intro)
qed

lemma safe_reconcile_env:
  assumes "status_echoes c" and "update_echoes c"
  shows "keeps safe (reconcile_env (traced c) r)"
proof -
  have "keeps safe (process_one (traced c) r ident st vars)" for ident st vars
    unfolding process_one_def process_mesh_def locateMatchingServiceHostnames_def by (intro keeps_intro assms)
  then have "keeps safe (process_loop (traced c) r ident sts vars)" for ident sts vars
    by (induction sts arbitrary: vars) (auto intro!: keeps_intro)
  then have "keeps safe (processSubsetsAndConsumers (traced c) r)"
    unfolding processSubsetsAndConsumers_def by (intro keeps_intro)
  then show ?thesis
    unfolding reconcile_env_def reconcile_live_def finish_def by (intro keeps_intro assms)
qed

section \<open>Properties\<close>

text \<open>
  C13: every status that a reconcile call writes is well-formed, when the stored one is: no key twice in its maps, no
  destination rule and no virtual service twice in the entry of a subset, and no message twice in a list of errors. This
  holds of every request of the call, also when it fails half-way or panics.
\<close>

theorem Reconcile_status_well_formed:
  assumes "status_echoes c" and "update_echoes c" and "GetDynamicEnv c req w = (Inr de, w1)" and "wf_status (de_Status de)"
    and "UpdatedStatus nde e \<in> set (snd (snd (Reconcile (traced c) r req (w, []))))"
  shows "wf_status (de_Status nde)"
proof -
  have "safe (loaded de w1 req)" using assms(4) by (simp add: safe_def wf_written_def)
  then have "safe (snd (reconcile_env (traced c) r (loaded de w1 req)))"
    using safe_reconcile_env [OF assms(1,2)] by (simp add: keeps_def)
  moreover have "snd (snd (Reconcile (traced c) r req (w, []))) = log_of (snd (reconcile_env (traced c) r (loaded de w1 req)))"
    by (simp add: Reconcile_loaded [OF assms(3)] split: prod.split)
  ultimately show ?thesis using assms(5) by (auto simp: safe_def list_all_iff wf_written_def)
qed

theorem Reconcile_status_well_formed_witness:
  "\<exists>nde e. UpdatedStatus nde e \<in> set (snd (snd (sample_reconcile ''env'' sample_available))) \<and>
     distinct (gm_keys (st_ConsumersStatus (de_Status nde)))"
proof -
  let ?log = "snd (snd (sample_reconcile ''env'' sample_available))"
  have "?log \<noteq> []" using sample_ready(3) by auto
  then obtain nde e where "?log = butlast ?log @ [UpdatedStatus nde e]" using last_report [OF sample_ready(2)] by blast
  then have sent: "UpdatedStatus nde e \<in> set ?log" using in_set_conv_decomp [of "UpdatedStatus nde e" ?log] by blast
  have "wf_consumer (consumer_status (de_Status sample_consumer_env) k)"
    "wf_subset (subset_status (de_Status sample_consumer_env) k)" for k
    by (simp_all add: consumer_status_def subset_status_def gm_get_def sample_consumer_env_def)
  moreover have "status_maps_ok (de_Status sample_consumer_env)"
    by (simp add: status_maps_ok_def sample_consumer_env_def gm_ok_def gm_keys_def)
  ultimately have "wf_status (de_Status sample_consumer_env)" unfolding wf_status_def by blast
  from Reconcile_status_well_formed [OF mem_env_status_echoes mem_env_echoes sample_get(1) this] sent
  have "wf_status (de_Status nde)" unfolding sample_reconcile_def by blast
  then have "distinct (gm_keys (st_ConsumersStatus (de_Status nde)))" unfolding wf_status_def status_maps_ok_def gm_ok_def by blast
  with sent show ?thesis by blast
qed

end
