(* ===== verification/Deletion.thy ===== *)
theory Deletion
  imports Cleanup_Manager Deployment_Handler
begin

text \<open>
  Deletion takes two runs. The first run of \<open>DeleteAllResources\<close> deletes what the status lists and keeps the finalizers of
  what it still found; the events of the deleted resources lead to a second run, which finds nothing and releases them.

  \<open>deleting_server\<close> is what the runs rely on: the server carries out the deletes and the updates of this client, and nobody
  else creates the resources again. \<open>deps\<close> and \<open>drs\<close> are the deployments and destination rules of a world, \<open>ok\<close> says that it
  holds the environment \<open>ident\<close>; an update that takes away the last finalizer lets the server remove the environment, so
  nothing is asked of the world after it.
\<close>

section \<open>A server that deletes\<close>

definition below :: "('w \<Rightarrow> bool) \<Rightarrow> ('w \<Rightarrow> NamespacedName set) \<Rightarrow> ('w \<Rightarrow> NamespacedName set) \<Rightarrow> 'w \<Rightarrow> 'w \<Rightarrow> bool" where
  "below ok deps drs w' w \<longleftrightarrow> ok w' \<and> deps w' \<subseteq> deps w \<and> drs w' \<subseteq> drs w"

lemma below_trans: "below ok deps drs w2 w1 \<Longrightarrow> below ok deps drs w1 w \<Longrightarrow> below ok deps drs w2 w"
  by (auto simp: below_def)

definition serves_deletes ::
  "('w \<Rightarrow> 'w \<Rightarrow> bool) \<Rightarrow> ('w \<Rightarrow> NamespacedName set) \<Rightarrow> ('w \<Rightarrow> (goerror + 'a) \<times> 'w) \<Rightarrow> ('a \<Rightarrow> 'w \<Rightarrow> goerror option \<times> 'w)
   \<Rightarrow> NamespacedName \<Rightarrow> 'w \<Rightarrow> bool" where
  \<comment> \<open>a resource that is there can be deleted, and one that is not there is reported missing\<close>
  "serves_deletes le names get delete nn w \<longleftrightarrow>
     (case get w of
        (Inl err, w1) \<Rightarrow> IsNotFound err \<and> le w1 w \<and> nn \<notin> names w1
      | (Inr d, w1) \<Rightarrow> nn \<in> names w \<and> le w1 w \<and>
          (case delete d w1 of (r, w2) \<Rightarrow> r = None \<and> le w2 w1 \<and> nn \<notin> names w2))"

definition deleting_server ::
  "'w Env \<Rightarrow> NamespacedName \<Rightarrow> ('w \<Rightarrow> bool) \<Rightarrow> ('w \<Rightarrow> NamespacedName set) \<Rightarrow> ('w \<Rightarrow> NamespacedName set) \<Rightarrow> bool" where
  "deleting_server c ident ok deps drs \<longleftrightarrow>
     (\<forall>w. ok w \<longrightarrow>
       (\<forall>nn. serves_deletes (below ok deps drs) deps (GetDeployment c nn) (DeleteDeployment c) nn w) \<and>
       (\<forall>nn. serves_deletes (below ok deps drs) drs (GetDestinationRule c nn) (DeleteDestinationRule c) nn w) \<and>
       (\<forall>nn. case GetVirtualService c nn w of
          (Inl err, w1) \<Rightarrow> IsNotFound err \<and> below ok deps drs w1 w
        | (Inr v, w1) \<Rightarrow> below ok deps drs w1 w \<and> (\<forall>v'. meta_key (vs_Meta v') = meta_key (vs_Meta v) \<longrightarrow>
            (case UpdateVirtualService c v' w1 of ((r, _), w2) \<Rightarrow> r = None \<and> below ok deps drs w2 w1))) \<and>
       (\<forall>ks. below ok deps drs (snd (RangeOrder c ks w)) w) \<and>
       (\<forall>de. de_ident de = ident \<longrightarrow>
          (case UpdateDynamicEnv c de w of ((r, de'), w1) \<Rightarrow>
             r = None \<and> (de_Finalizers de \<noteq> [] \<longrightarrow> below ok deps drs w1 w) \<and>
             de_ident de' = de_ident de \<and> de_Finalizers de' = de_Finalizers de \<and> de_Status de' = de_Status de)))"

section \<open>Single resources\<close>

lemma serves_deletesD:
  assumes "serves_deletes le names get delete nn w"
  obtains err w1 where "get w = (Inl err, w1)" "IsNotFound err" "le w1 w" "nn \<notin> names w1"
  | d w1 w2 where "get w = (Inr d, w1)" "nn \<in> names w" "le w1 w" "delete d w1 = (None, w2)" "le w2 w1" "nn \<notin> names w2"
proof (cases "get w")
  case (Pair ans w1)
  show thesis
  proof (cases ans)
    case (Inl err)
    with Pair assms that(1) show thesis by (simp add: serves_deletes_def)
  next
    case (Inr d)
    obtain r w2 where "delete d w1 = (r, w2)" by fastforce
    with Pair Inr assms that(2) show thesis by (simp add: serves_deletes_def)
  qed
qed

text \<open>The result of deleting: no error, the resource is gone, and it counts as found only if it was there.\<close>

definition deleted ::
  "('w \<Rightarrow> 'w \<Rightarrow> bool) \<Rightarrow> ('w \<Rightarrow> NamespacedName set) \<Rightarrow> 'w loop_state \<Rightarrow> ResourceStatus \<Rightarrow> bool \<times> goerror option
   \<Rightarrow> 'w loop_state \<Rightarrow> bool" where
  "deleted le names s r = (\<lambda>(found, err) t. err = None \<and> cur_de t = cur_de s \<and> le (world t) (world s) \<and>
     resource_name r \<notin> names (world t) \<and> (resource_name r \<notin> names (world s) \<longrightarrow> \<not> found))"

section \<open>The loops\<close>

text \<open>
  What the two loops over resources have in common: \<open>get\<close> and \<open>del\<close> are the requests for one kind of resource, \<open>delete\<close>
  the operation of the cleanup manager and \<open>loop\<close> its loop.
\<close>

locale deleting_loop =
  fixes get :: "'w Env \<Rightarrow> NamespacedName \<Rightarrow> 'w \<Rightarrow> (goerror + 'a) \<times> 'w"
    and del :: "'w Env \<Rightarrow> 'a \<Rightarrow> 'w \<Rightarrow> goerror option \<times> 'w"
    and delete :: "'w Env \<Rightarrow> ResourceStatus \<Rightarrow> ('w, bool \<times> goerror option) go"
    and loop :: "'w Env \<Rightarrow> ResourceStatus list \<Rightarrow> int \<Rightarrow> ('w, int \<times> goerror option) go"
    and msg :: string
  assumes delete_law: "serves_deletes le names (get c (resource_name r)) (del c) (resource_name r) (world s) \<Longrightarrow>
        (\<And>u v w. le u v \<Longrightarrow> le v w \<Longrightarrow> le u w) \<Longrightarrow> returns (delete c r) s (deleted le names s r)"
    and loop_Nil_law: "loop c [] n = ret (n, None)"
    and loop_Cons_law: "loop c (r # rs) n = bnd (delete c r) (\<lambda>(found, err). case err of
          Some err \<Rightarrow> ret (n, Some (Wrap msg err))
        | None \<Rightarrow> loop c rs (if found then n + 1 else n))"
begin

lemma loop_deletes:
  assumes serves: "\<And>nn w. good w \<Longrightarrow> serves_deletes le names (get c nn) (del c) nn w"
    and le_good: "\<And>u w. le u w \<Longrightarrow> good u" and le_refl: "\<And>w. good w \<Longrightarrow> le w w"
    and le_trans: "\<And>u v w. le u v \<Longrightarrow> le v w \<Longrightarrow> le u w" and le_names: "\<And>u w. le u w \<Longrightarrow> names u \<subseteq> names w"
  shows "good (world s) \<Longrightarrow> returns (loop c rs n) s (\<lambda>(m, err) t. err = None \<and> cur_de t = cur_de s \<and> le (world t) (world s) \<and>
     (\<forall>r \<in> set rs. resource_name r \<notin> names (world t)) \<and>
     ((\<forall>r \<in> set rs. resource_name r \<notin> names (world s)) \<longrightarrow> m = n))"
proof (induction rs arbitrary: n s)
  case (Cons r rs)
  have rest: "returns (loop c rs n') t (\<lambda>(m, err) u. err = None \<and> cur_de u = cur_de s \<and> le (world u) (world s) \<and>
      (\<forall>x \<in> set (r # rs). resource_name x \<notin> names (world u)) \<and>
      ((\<forall>x \<in> set (r # rs). resource_name x \<notin> names (world s)) \<longrightarrow> m = n'))"
    if t: "cur_de t = cur_de s" "le (world t) (world s)" "resource_name r \<notin> names (world t)" for n' t
    by (rule returns_mono [OF Cons.IH [OF le_good [OF t(2)]]])
      (use t le_trans le_names in \<open>auto, blast+\<close>)
  show ?case
    unfolding loop_Cons_law returns_bnd
    by (rule returns_mono [OF delete_law [OF serves [OF Cons.prems] le_trans]], assumption, assumption)
      (auto simp: deleted_def intro!: returns_mono [OF rest])
qed (simp add: loop_Nil_law wp le_refl)

end

interpretation dep_loop: deleting_loop GetDeployment DeleteDeployment deleteDeployment delete_deployments
  "''deleting all deployments''"
proof unfold_locales
  fix le names r and c :: "'a Env" and s :: "'a loop_state"
  assume "serves_deletes le names (GetDeployment c (resource_name r)) (DeleteDeployment c) (resource_name r) (world s)"
    and "\<And>u v w. le u v \<Longrightarrow> le v w \<Longrightarrow> le u w"
  then show "returns (deleteDeployment c r) s (deleted le names s r)"
    by - (erule serves_deletesD; auto simp: deleteDeployment_def wp deleted_def)
qed simp_all

interpretation dr_loop: deleting_loop GetDestinationRule DeleteDestinationRule deleteDestinationRule delete_destination_rules
  "''deleting destination rule''"
proof unfold_locales
  fix le names r and c :: "'a Env" and s :: "'a loop_state"
  assume "serves_deletes le names (GetDestinationRule c (resource_name r)) (DeleteDestinationRule c) (resource_name r) (world s)"
    and "\<And>u v w. le u v \<Longrightarrow> le v w \<Longrightarrow> le u w"
  then show "returns (deleteDestinationRule c r) s (deleted le names s r)"
    by - (erule serves_deletesD; auto simp: deleteDestinationRule_def wp deleted_def)
qed simp_all

section \<open>The work of the three finalizers\<close>

text \<open>
  \<open>clears gone\<close>: the work returns no error, leaves the environment alone, and afterwards the world satisfies \<open>gone\<close>;
  when it did so before, nothing is counted.
\<close>

definition clears ::
  "('w \<Rightarrow> 'w \<Rightarrow> bool) \<Rightarrow> ('w \<Rightarrow> bool) \<Rightarrow> 'w loop_state \<Rightarrow> int \<times> goerror option \<Rightarrow> 'w loop_state \<Rightarrow> bool" where
  "clears le gone s = (\<lambda>(count, err) t. err = None \<and> cur_de t = cur_de s \<and> le (world t) (world s) \<and> gone (world t) \<and>
     (gone (world s) \<longrightarrow> count = 0))"

definition all_gone :: "ResourceStatus set \<Rightarrow> ('w \<Rightarrow> NamespacedName set) \<Rightarrow> 'w \<Rightarrow> bool" where
  "all_gone rs names w \<longleftrightarrow> (\<forall>r \<in> rs. resource_name r \<notin> names w)"

lemma serverD:
  assumes "deleting_server c ident ok deps drs" and "ok w"
  shows "serves_deletes (below ok deps drs) deps (GetDeployment c nn) (DeleteDeployment c) nn w"
    and "serves_deletes (below ok deps drs) drs (GetDestinationRule c nn) (DeleteDestinationRule c) nn w"
    and "RangeOrder c ks w = (ks', w1) \<Longrightarrow> below ok deps drs w1 w"
  using assms unfolding deleting_server_def by (simp, simp, metis snd_conv)

lemma below_laws:
  "below ok deps drs u w \<Longrightarrow> ok u" "ok w \<Longrightarrow> below ok deps drs w w"
  "below ok deps drs u w \<Longrightarrow> deps u \<subseteq> deps w" "below ok deps drs u w \<Longrightarrow> drs u \<subseteq> drs w"
  by (simp_all add: below_def)

lemma loop_clears:
  assumes loop: "returns m t (\<lambda>(n, err) u. err = None \<and> cur_de u = cur_de t \<and> below ok deps drs (world u) (world t) \<and>
      (\<forall>r \<in> set rs. resource_name r \<notin> names (world u)) \<and>
      ((\<forall>r \<in> set rs. resource_name r \<notin> names (world t)) \<longrightarrow> n = 0))"
    and t: "cur_de t = cur_de s" "below ok deps drs (world t) (world s)" and names: "names (world t) \<subseteq> names (world s)"
  shows "returns m t (clears (below ok deps drs) (all_gone (set rs) names) s)"
proof (rule returns_mono [OF loop], clarify)
  fix n :: int and u :: "'a loop_state"
  assume u: "cur_de u = cur_de t" "below ok deps drs (world u) (world t)" "\<forall>r \<in> set rs. resource_name r \<notin> names (world u)"
    "(\<forall>r \<in> set rs. resource_name r \<notin> names (world t)) \<longrightarrow> n = 0"
  with below_trans [OF u(2) t(2)] t(1) names
  show "clears (below ok deps drs) (all_gone (set rs) names) s (n, None) u"
    by (auto simp: clears_def all_gone_def)
qed

lemma deleteAllDeployments_clears:
  assumes "deleting_server c ident ok deps drs" and "range_visits_all c" and "ok (world s)" and "status_maps_ok (status_of s)"
  shows "returns (deleteAllDeployments c) s
    (clears (below ok deps drs) (all_gone (listed_deployments (status_of s)) deps) s)"
proof -
  let ?m = "st_SubsetsStatus (status_of s)" and ?n = "st_ConsumersStatus (status_of s)"
  obtain ks w where ks: "RangeOrder c (gm_keys ?m) (world s) = (ks, w)" by (meson surj_pair)
  obtain ks' w' where ks': "RangeOrder c (gm_keys ?n) w = (ks', w')" by (meson surj_pair)
  have b: "below ok deps drs w (world s)" using serverD(3) [OF assms(1,3) ks] .
  have "below ok deps drs w' w" using serverD(3) [OF assms(1) below_laws(1) [OF b] ks'] .
  with b have w': "below ok deps drs w' (world s)" by (rule below_trans [rotated])
  have "set ks = set (gm_keys ?m)" "set ks' = set (gm_keys ?n)"
    using range_visits_allD [OF assms(2) _ ks] range_visits_allD [OF assms(2) _ ks'] assms(4)
    by (simp_all add: status_maps_ok_def gm_ok_def)
  then have listed: "set (map (\<lambda>k. ss_Deployment (gm_get SubsetStatus_zero ?m k)) ks @
      map (\<lambda>k. cs_ResourceStatus (gm_get ConsumerStatus_zero ?n k)) ks') = listed_deployments (status_of s)"
    by (simp add: listed_deployments_def map_values)
  have loop: "ok (world t) \<Longrightarrow> returns (delete_deployments c rs 0) t (\<lambda>(m, err) u. err = None \<and>
      cur_de u = cur_de t \<and> below ok deps drs (world u) (world t) \<and> (\<forall>r \<in> set rs. resource_name r \<notin> deps (world u)) \<and>
      ((\<forall>r \<in> set rs. resource_name r \<notin> deps (world t)) \<longrightarrow> m = 0))" for t rs
    by (rule dep_loop.loop_deletes [where good = ok])
      (use serverD(1) [OF assms(1)] below_laws [where ok = ok and deps = deps and drs = drs]
        below_trans [of ok deps drs] in blast)+
  have "ok w'" and "deps w' \<subseteq> deps (world s)" using w' by (simp_all add: below_def)
  then show ?thesis
    unfolding deleteAllDeployments_def Let_def listed [symmetric]
    by (simp add: wp ks ks' del: set_append set_map) (intro loop_clears loop; simp add: w')
qed

lemma deleteAllDestinationRules_clears:
  assumes "deleting_server c ident ok deps drs" and "range_visits_all c" and "ok (world s)" and "status_maps_ok (status_of s)"
  shows "returns (deleteAllDestinationRules c) s
    (clears (below ok deps drs) (all_gone (listed_destination_rules (status_of s)) drs) s)"
proof -
  let ?m = "st_SubsetsStatus (status_of s)"
  obtain ks w where ks: "RangeOrder c (gm_keys ?m) (world s) = (ks, w)" by (meson surj_pair)
  have w: "below ok deps drs w (world s)" using serverD(3) [OF assms(1,3) ks] .
  have "set ks = set (gm_keys ?m)"
    using range_visits_allD [OF assms(2) _ ks] assms(4) by (simp add: status_maps_ok_def gm_ok_def)
  from map_values [OF this, of "\<lambda>v. set (ss_DestinationRules v)" SubsetStatus_zero]
  have listed: "set (concat (map (\<lambda>k. ss_DestinationRules (gm_get SubsetStatus_zero ?m k)) ks)) =
      listed_destination_rules (status_of s)"
    by (auto simp: listed_destination_rules_def)
  have loop: "ok (world t) \<Longrightarrow> returns (delete_destination_rules c rs 0) t (\<lambda>(m, err) u. err = None \<and>
      cur_de u = cur_de t \<and> below ok deps drs (world u) (world t) \<and> (\<forall>r \<in> set rs. resource_name r \<notin> drs (world u)) \<and>
      ((\<forall>r \<in> set rs. resource_name r \<notin> drs (world t)) \<longrightarrow> m = 0))" for t rs
    by (rule dr_loop.loop_deletes [where good = ok])
      (use serverD(2) [OF assms(1)] below_laws [where ok = ok and deps = deps and drs = drs]
        below_trans [of ok deps drs] in blast)+
  have "ok w" and "drs w \<subseteq> drs (world s)" using w by (simp_all add: below_def)
  then show ?thesis
    unfolding deleteAllDestinationRules_def Let_def listed [symmetric]
    by (simp add: wp ks del: set_concat set_map) (intro loop_clears loop; simp add: w)
qed

lemma cleanup_virtual_services_clears:
  assumes "deleting_server c ident ok deps drs" and "ok (world s)"
  shows "returns (cleanup_virtual_services c rs) s
    (\<lambda>err t. err = None \<and> cur_de t = cur_de s \<and> below ok deps drs (world t) (world s))"
  using assms(2)
proof (induction rs arbitrary: s)
  case (Cons r rs)
  have one: "returns (cleanupVirtualService c r) s
    (\<lambda>err t. err = None \<and> cur_de t = cur_de s \<and> below ok deps drs (world t) (world s))"
  proof (cases "GetVirtualService c (resource_name r) (world s)")
    case (Pair ans w1)
    note vs = assms(1) [unfolded deleting_server_def, rule_format, OF Cons.prems, THEN conjunct2, THEN conjunct2, THEN conjunct1,
        rule_format, of "resource_name r"]
    show ?thesis
    proof (cases ans)
      case (Inl err)
      with Pair vs show ?thesis by (simp add: cleanupVirtualService_def wp)
    next
      case (Inr v)
      let ?v = "cleaned (de_ident (cur_de s)) v"
      have "meta_key (vs_Meta ?v) = meta_key (vs_Meta v)" by (simp add: cleaned_def Let_def)
      with Pair Inr vs have "case UpdateVirtualService c ?v w1 of ((r, _), w2) \<Rightarrow> r = None \<and> below ok deps drs w2 w1"
        and "below ok deps drs w1 (world s)" by auto
      with Pair Inr show ?thesis
        by (auto simp: cleanupVirtualService_def wp split: prod.splits intro: below_trans)
    qed
  qed
  show ?case
    unfolding cleanup_virtual_services.simps returns_bnd
    by (rule returns_mono [OF one])
      (auto intro!: returns_mono [OF Cons.IH] dest: below_laws(1) intro: below_trans)
qed (simp add: wp below_laws(2))

lemma cleanupVirtualServices_clears:
  assumes "deleting_server c ident ok deps drs" and "ok (world s)"
  shows "returns (bnd (cleanupVirtualServices c) (\<lambda>err. ret (0, err))) s (clears (below ok deps drs) (\<lambda>_. True) s)"
proof -
  let ?m = "st_SubsetsStatus (status_of s)"
  obtain ks w where ks: "RangeOrder c (gm_keys ?m) (world s) = (ks, w)" by (meson surj_pair)
  have w: "below ok deps drs w (world s)" using serverD(3) [OF assms ks] .
  show ?thesis
    unfolding cleanupVirtualServices_def Let_def returns_bnd returns_readDE returns_call ks prod.case returns_ret
    by (rule returns_mono [OF cleanup_virtual_services_clears [OF assms(1)]])
      (use w in \<open>auto simp: clears_def dest: below_laws(1) intro: below_trans\<close>)
qed

section \<open>The finalizers\<close>

abbreviation fins :: "'w loop_state \<Rightarrow> string list" where
  "fins s \<equiv> de_Finalizers (cur_de s)"

definition foreign :: "string list \<Rightarrow> string list" where
  "foreign = filter (\<lambda>f. f \<notin> {DeleteDeployments, DeleteDestinationRules, CleanupVirtualServices})"

text \<open>
  What a part of a run does to the environment: only finalizers of the operator go, and while there are finalizers left the
  world only loses resources. \<open>releases\<close> is the work for one finalizer \<open>F\<close>: if it stays, its resources were there before
  and are gone now.
\<close>

definition sweeps :: "('w \<Rightarrow> 'w \<Rightarrow> bool) \<Rightarrow> 'w loop_state \<Rightarrow> 'w loop_state \<Rightarrow> bool" where
  "sweeps le s t \<longleftrightarrow> de_ident (cur_de t) = de_ident (cur_de s) \<and> status_of t = status_of s \<and> set (fins t) \<subseteq> set (fins s) \<and>
     foreign (fins t) = foreign (fins s) \<and> (fins t \<noteq> [] \<longrightarrow> le (world t) (world s))"

definition releases :: "('w \<Rightarrow> 'w \<Rightarrow> bool) \<Rightarrow> string \<Rightarrow> ('w \<Rightarrow> bool) \<Rightarrow> 'w loop_state \<Rightarrow> 'w loop_state \<Rightarrow> bool" where
  "releases le F gone s t \<longleftrightarrow> sweeps le s t \<and> (F \<in> set (fins t) \<longrightarrow> gone (world t) \<and> \<not> gone (world s))"

lemma sweeps_trans: "sweeps (below ok deps drs) s t \<Longrightarrow> sweeps (below ok deps drs) t u \<Longrightarrow> sweeps (below ok deps drs) s u"
  by (auto simp: sweeps_def intro: below_trans)

lemma deleteFinalizer_server:
  assumes "deleting_server c ident ok deps drs" and "ok (world s)" and "de_ident (cur_de s) = ident"
    and "F \<in> {DeleteDeployments, DeleteDestinationRules, CleanupVirtualServices}"
  shows "returns (deleteFinalizer c F) s
    (\<lambda>err t. err = None \<and> sweeps (below ok deps drs) s t \<and> F \<notin> set (fins t))"
proof -
  let ?de = "(cur_de s)\<lparr>de_Finalizers := RemoveItemFromStringSlice F (fins s)\<rparr>"
  have "de_ident ?de = ident" using assms(3) by (simp add: de_ident_def)
  with assms(1,2) have "case UpdateDynamicEnv c ?de (world s) of ((r, de'), w1) \<Rightarrow>
      r = None \<and> (de_Finalizers ?de \<noteq> [] \<longrightarrow> below ok deps drs w1 (world s)) \<and>
      de_ident de' = ident \<and> de_Finalizers de' = de_Finalizers ?de \<and> de_Status de' = de_Status ?de"
    unfolding deleting_server_def by fastforce
  with assms(3,4) show ?thesis
    by (auto simp: deleteFinalizer_def UpdateDE_def wp sweeps_def foreign_def RemoveItem_filter filter_filter
        split: prod.splits intro!: filter_cong)
qed

lemma block_releases:
  assumes server: "deleting_server c ident ok deps drs" and ident: "de_ident (cur_de s) = ident"
    and F: "F \<in> {DeleteDeployments, DeleteDestinationRules, CleanupVirtualServices}"
    and ok: "fins s \<noteq> [] \<longrightarrow> ok (world s)"
    and work: "ok (world s) \<Longrightarrow> returns work s (clears (below ok deps drs) gone s)"
    and continue: "\<And>t. releases (below ok deps drs) F gone s t \<Longrightarrow> returns continue t P"
  shows "returns (finalizer_block c F work continue) s P"
proof (cases "F \<in> set (fins s)")
  case True
  with ok have ok: "ok (world s)" by auto
  have zero: "returns (deleteFinalizer c F) t (\<lambda>err u. err = None \<and> returns continue u P)"
    if t: "cur_de t = cur_de s" "below ok deps drs (world t) (world s)" for t
  proof -
    have "sweeps (below ok deps drs) s t" using t by (simp add: sweeps_def)
    from sweeps_trans [OF this] show ?thesis
      by (intro returns_mono [OF deleteFinalizer_server [OF server below_laws(1) [OF t(2)] _ F]])
        (auto simp: t(1) ident releases_def intro: continue)
  qed
  have some: "returns continue t P" if "clears (below ok deps drs) gone s (count, None) t" "count \<noteq> 0" for t count
    using that by (intro continue) (auto simp: clears_def releases_def sweeps_def)
  show ?thesis
    unfolding finalizer_block_def returns_bnd returns_readDE
    using True
    by (auto simp: returns_bnd returns_ret intro!: returns_mono [OF work [OF ok]] some)
      (auto simp: clears_def returns_bnd returns_ret intro!: returns_mono [OF zero] some)
next
  case False
  then have "releases (below ok deps drs) F gone s s" using ok by (auto simp: releases_def sweeps_def below_laws(2))
  with False show ?thesis by (simp add: finalizer_block_def wp continue)
qed

section \<open>A run\<close>

abbreviation gone_deployments :: "('w \<Rightarrow> NamespacedName set) \<Rightarrow> 'w loop_state \<Rightarrow> 'w \<Rightarrow> bool" where
  "gone_deployments deps s \<equiv> all_gone (listed_deployments (status_of s)) deps"

abbreviation gone_destination_rules :: "('w \<Rightarrow> NamespacedName set) \<Rightarrow> 'w loop_state \<Rightarrow> 'w \<Rightarrow> bool" where
  "gone_destination_rules drs s \<equiv> all_gone (listed_destination_rules (status_of s)) drs"

lemma gone_below:
  "below ok deps drs u w \<Longrightarrow> all_gone rs deps w \<Longrightarrow> all_gone rs deps u"
  "below ok deps drs u w \<Longrightarrow> all_gone rs drs w \<Longrightarrow> all_gone rs drs u"
  by (auto simp: below_def all_gone_def)

lemma releases_then:
  assumes "releases (below ok deps drs) F gone s t" and "sweeps (below ok deps drs) t u"
    and "\<And>v w. below ok deps drs v w \<Longrightarrow> gone w \<Longrightarrow> gone v"
  shows "releases (below ok deps drs) F gone s u"
  using assms sweeps_trans [of ok deps drs s t u] by (auto simp: releases_def) (auto simp: sweeps_def)

lemma then_releases:
  assumes "sweeps (below ok deps drs) s t" and "releases (below ok deps drs) F gone t u"
    and "\<And>v w. below ok deps drs v w \<Longrightarrow> gone w \<Longrightarrow> gone v"
  shows "releases (below ok deps drs) F gone s u"
  using assms sweeps_trans [of ok deps drs s t u] by (auto simp: releases_def) (auto simp: sweeps_def)

lemma sweepsD:
  assumes "sweeps (below ok deps drs) s t"
  shows "status_of t = status_of s" and "de_ident (cur_de t) = de_ident (cur_de s)" and "fins t \<noteq> [] \<longrightarrow> ok (world t)"
  using assms by (auto simp: sweeps_def below_def)

lemma DeleteAllResources_run:
  assumes server: "deleting_server c ident ok deps drs" and range: "range_visits_all c"
    and ident: "de_ident (cur_de s) = ident" and ok: "fins s \<noteq> [] \<longrightarrow> ok (world s)" and maps: "status_maps_ok (status_of s)"
  shows "returns (DeleteAllResources c) s (\<lambda>r t. r = (Result_zero, None) \<and>
    releases (below ok deps drs) DeleteDeployments (gone_deployments deps s) s t \<and>
    releases (below ok deps drs) DeleteDestinationRules (gone_destination_rules drs s) s t \<and>
    CleanupVirtualServices \<notin> set (fins t))"
  unfolding DeleteAllResources_def returns_bnd
proof (rule block_releases [OF server ident _ ok deleteAllDeployments_clears [OF server range _ maps]])
  fix t assume t: "releases (below ok deps drs) DeleteDeployments (gone_deployments deps s) s t"
  note st = conjunct1 [OF t [unfolded releases_def]]
  show "returns (finalizer_block c DeleteDestinationRules (deleteAllDestinationRules c)
      (finalizer_block c CleanupVirtualServices (bnd (cleanupVirtualServices c) (\<lambda>err. ret (0, err))) (ret None))) t
    (\<lambda>x t. returns (ret (Result_zero, x)) t (\<lambda>r t. r = (Result_zero, None) \<and>
      releases (below ok deps drs) DeleteDeployments (gone_deployments deps s) s t \<and>
      releases (below ok deps drs) DeleteDestinationRules (gone_destination_rules drs s) s t \<and>
      CleanupVirtualServices \<notin> set (fins t)))"
  proof (rule block_releases [OF server _ _ sweepsD(3) [OF st] deleteAllDestinationRules_clears [OF server range]])
    fix u assume u: "releases (below ok deps drs) DeleteDestinationRules (gone_destination_rules drs t) t u"
    note tu = conjunct1 [OF u [unfolded releases_def]]
    show "returns (finalizer_block c CleanupVirtualServices (bnd (cleanupVirtualServices c) (\<lambda>err. ret (0, err))) (ret None)) u
      (\<lambda>x t. returns (ret (Result_zero, x)) t (\<lambda>r t. r = (Result_zero, None) \<and>
        releases (below ok deps drs) DeleteDeployments (gone_deployments deps s) s t \<and>
        releases (below ok deps drs) DeleteDestinationRules (gone_destination_rules drs s) s t \<and>
        CleanupVirtualServices \<notin> set (fins t)))"
    proof (rule block_releases [OF server _ _ sweepsD(3) [OF tu] cleanupVirtualServices_clears [OF server]])
      fix v assume v: "releases (below ok deps drs) CleanupVirtualServices (\<lambda>_. True) u v"
      note uv = conjunct1 [OF v [unfolded releases_def]]
      have "releases (below ok deps drs) DeleteDeployments (gone_deployments deps s) s v"
        by (rule releases_then [OF t sweeps_trans [OF tu uv] gone_below(1)])
      moreover have "releases (below ok deps drs) DeleteDestinationRules (gone_destination_rules drs s) s v"
        by (rule then_releases [OF st releases_then [OF u [unfolded sweepsD(1) [OF st]] uv gone_below(2)] gone_below(2)])
      ultimately show "returns (ret None) v (\<lambda>x t. returns (ret (Result_zero, x)) t (\<lambda>r t. r = (Result_zero, None) \<and>
          releases (below ok deps drs) DeleteDeployments (gone_deployments deps s) s t \<and>
          releases (below ok deps drs) DeleteDestinationRules (gone_destination_rules drs s) s t \<and>
          CleanupVirtualServices \<notin> set (fins t)))"
        using v by (simp add: wp releases_def)
    qed (simp_all add: sweepsD(2) [OF tu] sweepsD(2) [OF st] ident)
  qed (simp_all add: sweepsD [OF st] ident maps)
qed simp_all

section \<open>Two runs\<close>

text \<open>
  \<open>resumed\<close>: a state from which a later run starts. The environment is as the first run left it, and meanwhile the world
  may have lost resources but has not got any of them back.
\<close>

definition resumed :: "('w \<Rightarrow> bool) \<Rightarrow> ('w \<Rightarrow> NamespacedName set) \<Rightarrow> ('w \<Rightarrow> NamespacedName set) \<Rightarrow> 'w loop_state \<Rightarrow> 'w loop_state \<Rightarrow> bool" where
  "resumed ok deps drs t u \<longleftrightarrow> cur_de u = cur_de t \<and> (fins t \<noteq> [] \<longrightarrow> below ok deps drs (world u) (world t))"

text \<open>
  C10: deletion ends after two runs. Let the server carry out deletes and updates, and let nobody create the resources again.
  Then \<open>DeleteAllResources\<close> returns without an error, and a further run, from what the first one left and after whatever
  else disappeared meanwhile, returns without an error and leaves exactly the finalizers of others, in their order: the
  object can be removed.
\<close>

theorem deletion_ends:
  assumes "deleting_server c ident ok deps drs" and "range_visits_all c" and "ok (world s)"
    and "de_ident (cur_de s) = ident" and "status_maps_ok (status_of s)"
  shows "returns (DeleteAllResources c) s (\<lambda>r t. r = (Result_zero, None) \<and> resumed ok deps drs t t \<and>
    (\<forall>u. resumed ok deps drs t u \<longrightarrow> returns (DeleteAllResources c) u (\<lambda>r v. r = (Result_zero, None) \<and>
       de_Finalizers (cur_de v) = filter
         (\<lambda>f. f \<notin> {DeleteDeployments, DeleteDestinationRules, CleanupVirtualServices}) (de_Finalizers (cur_de s)))))"
proof (rule returns_mono [OF DeleteAllResources_run [OF assms(1,2,4) _ assms(5)]])
  show "fins s \<noteq> [] \<longrightarrow> ok (world s)" using assms(3) by simp
next
  fix r t
  assume run: "r = (Result_zero, None) \<and> releases (below ok deps drs) DeleteDeployments (gone_deployments deps s) s t \<and>
    releases (below ok deps drs) DeleteDestinationRules (gone_destination_rules drs s) s t \<and> CleanupVirtualServices \<notin> set (fins t)"
  then have st: "sweeps (below ok deps drs) s t" by (simp add: releases_def)
  have "returns (DeleteAllResources c) u (\<lambda>r v. r = (Result_zero, None) \<and> fins v = foreign (fins s))"
    if u: "resumed ok deps drs t u" for u
  proof (rule returns_mono [OF DeleteAllResources_run [OF assms(1,2)]])
    have de: "cur_de u = cur_de t" using u by (simp add: resumed_def)
    show "de_ident (cur_de u) = ident" "status_maps_ok (status_of u)" "fins u \<noteq> [] \<longrightarrow> ok (world u)"
      using assms(4,5) u sweepsD [OF st] by (auto simp: de resumed_def below_def)
    fix r v
    assume v: "r = (Result_zero, None) \<and> releases (below ok deps drs) DeleteDeployments (gone_deployments deps u) u v \<and>
      releases (below ok deps drs) DeleteDestinationRules (gone_destination_rules drs u) u v \<and> CleanupVirtualServices \<notin> set (fins v)"
    then have uv: "set (fins v) \<subseteq> set (fins t)" "foreign (fins v) = foreign (fins s)"
      using st by (simp_all add: releases_def sweeps_def de)
    have left: "below ok deps drs (world u) (world t)" if "F \<in> set (fins v)" for F
      using that uv(1) u by (auto simp: resumed_def)
    have "DeleteDeployments \<notin> set (fins v)" "DeleteDestinationRules \<notin> set (fins v)"
      using v run uv(1) gone_below [OF left] sweepsD(1) [OF st] by (auto simp: releases_def de)
    with v have "foreign (fins v) = fins v" by (auto simp: foreign_def filter_id_conv)
    with v uv(2) show "r = (Result_zero, None) \<and> fins v = foreign (fins s)" by simp
  qed
  moreover have "resumed ok deps drs t t" using sweepsD(3) [OF st] by (auto simp: resumed_def below_def)
  ultimately show "r = (Result_zero, None) \<and> resumed ok deps drs t t \<and> (\<forall>u. resumed ok deps drs t u \<longrightarrow> returns (DeleteAllResources c) u (\<lambda>r v.
      r = (Result_zero, None) \<and> fins v = filter
        (\<lambda>f. f \<notin> {DeleteDeployments, DeleteDestinationRules, CleanupVirtualServices}) (fins s)))"
    using run by (simp add: foreign_def)
qed

definition deleting_state :: "mem loop_state" where
  "deleting_state = \<lparr>cur_de = sample_deleted, world = empty_mem\<lparr>m_des := [sample_deleted],
     m_deps := [sample_base, sample_base\<lparr>dep_Meta := (dep_Meta sample_base)\<lparr>om_Name := ''a-env''\<rparr>\<rparr>]\<rparr>\<rparr>"

lemma fetch_cases:
  obtains err where "fetch key nn xs = Inl err" "IsNotFound err" "nn \<notin> key ` set xs"
  | x where "fetch key nn xs = Inr x" "key x = nn" "x \<in> set xs"
proof -
  have "case fetch key nn xs of Inl err \<Rightarrow> IsNotFound err \<and> nn \<notin> key ` set xs | Inr x \<Rightarrow> key x = nn \<and> x \<in> set xs"
    by (induction xs) (auto simp: not_found_def IsNotFound_def split: sum.splits)
  with that show thesis by (auto split: sum.splits)
qed

definition holds_env :: "NamespacedName \<Rightarrow> mem \<Rightarrow> bool" where
  "holds_env ident w \<longleftrightarrow> list_ex (\<lambda>de. de_ident de = ident) (m_des w)"

definition held_deployments :: "mem \<Rightarrow> NamespacedName set" where
  "held_deployments w = (\<lambda>d. meta_key (dep_Meta d)) ` set (m_deps w)"

definition held_destination_rules :: "mem \<Rightarrow> NamespacedName set" where
  "held_destination_rules w = (\<lambda>d. meta_key (dr_Meta d)) ` set (m_drs w)"

lemmas held_defs = below_def holds_env_def held_deployments_def held_destination_rules_def list_ex_iff

lemma memory_serves_deployments:
  "holds_env ident w \<Longrightarrow> serves_deletes (below (holds_env ident) held_deployments held_destination_rules) held_deployments
     (GetDeployment mem_env nn) (DeleteDeployment mem_env) nn w"
  by (cases rule: fetch_cases [of "\<lambda>d. meta_key (dep_Meta d)" nn "m_deps w"])
    (auto simp: serves_deletes_def held_defs mem_defs)

lemma memory_serves_destination_rules:
  "holds_env ident w \<Longrightarrow> serves_deletes (below (holds_env ident) held_deployments held_destination_rules) held_destination_rules
     (GetDestinationRule mem_env nn) (DeleteDestinationRule mem_env) nn w"
  by (cases rule: fetch_cases [of "\<lambda>d. meta_key (dr_Meta d)" nn "m_drs w"])
    (auto simp: serves_deletes_def held_defs mem_defs)

lemma memory_updates_virtual_services:
  assumes "holds_env ident w"
  shows "case GetVirtualService mem_env nn w of
      (Inl err, w1) \<Rightarrow> IsNotFound err \<and> below (holds_env ident) held_deployments held_destination_rules w1 w
    | (Inr v, w1) \<Rightarrow> below (holds_env ident) held_deployments held_destination_rules w1 w \<and>
        (\<forall>v'. meta_key (vs_Meta v') = meta_key (vs_Meta v) \<longrightarrow> (case UpdateVirtualService mem_env v' w1 of
           ((r, _), w2) \<Rightarrow> r = None \<and> below (holds_env ident) held_deployments held_destination_rules w2 w1))"
  using assms
  by (cases rule: fetch_cases [of "\<lambda>d. meta_key (vs_Meta d)" nn "m_vss w"]) (auto simp: held_defs mem_defs)

lemma memory_deletes: "deleting_server mem_env ident (holds_env ident) held_deployments held_destination_rules"
  unfolding deleting_server_def
proof (intro allI impI conjI memory_serves_deployments memory_serves_destination_rules memory_updates_virtual_services)
  fix w de
  assume "holds_env ident w" "de_ident de = ident"
  then show "case UpdateDynamicEnv mem_env de w of ((r, de'), w1) \<Rightarrow> r = None \<and>
      (de_Finalizers de \<noteq> [] \<longrightarrow> below (holds_env ident) held_deployments held_destination_rules w1 w) \<and>
      de_ident de' = de_ident de \<and> de_Finalizers de' = de_Finalizers de \<and> de_Status de' = de_Status de"
    by (auto simp: held_defs mem_defs de_ident_def)
qed (simp_all add: held_defs mem_defs)

theorem deletion_ends_witness:
  "returns (DeleteAllResources mem_env) deleting_state (\<lambda>r t. r = (Result_zero, None) \<and>
     returns (DeleteAllResources mem_env) t (\<lambda>r v. r = (Result_zero, None) \<and> de_Finalizers (cur_de v) = []))"
proof (rule returns_mono [OF deletion_ends [OF memory_deletes mem_env_range]])
  show "status_maps_ok (status_of deleting_state)"
    by (simp add: deleting_state_def sample_deleted_def status_maps_ok_def gm_ok_def gm_keys_def)
  show "de_ident (cur_de deleting_state) = \<lparr>nn_Namespace = ''ns'', nn_Name = ''env''\<rparr>"
    "holds_env \<lparr>nn_Namespace = ''ns'', nn_Name = ''env''\<rparr> (world deleting_state)"
    by (simp_all add: deleting_state_def sample_deleted_def de_ident_def holds_env_def)
qed (auto simp: deleting_state_def sample_deleted_def)

end
