(* ===== verification/Traffic.thy ===== *)
theory Traffic
  imports Cleanup_Manager Virtual_Service_Handler
begin

text \<open>
  What the virtual service handler and the clean-up mean for requests.

  A virtual service is read as Istio documents it: its routes are tried in order and the first that applies is
  taken; a route applies when it has no match or one of its matches holds; a match holds when all its conditions
  hold. What a single condition means belongs to the proxy, so it is a parameter: \<open>px_header\<close> for a header,
  \<open>px_label\<close> for a source label and \<open>px_rest\<close> for the other conditions of a match.
\<close>

section \<open>Which route a request takes\<close>

record 'q proxy =
  px_header :: "string \<Rightarrow> IstioStringMatch \<Rightarrow> 'q \<Rightarrow> bool"
  px_label :: "string \<Rightarrow> string \<Rightarrow> 'q \<Rightarrow> bool"
  px_rest :: "string \<Rightarrow> 'q \<Rightarrow> bool"

definition conditions :: "(string \<Rightarrow> 'v \<Rightarrow> bool) \<Rightarrow> 'v gomap \<Rightarrow> bool" where
  "conditions ok m \<longleftrightarrow> list_all (\<lambda>k. case gm_lookup m k of Some v \<Rightarrow> ok k v | None \<Rightarrow> True) (gm_keys m)"

definition match_holds :: "'q proxy \<Rightarrow> 'q \<Rightarrow> HTTPMatchRequest \<Rightarrow> bool" where
  "match_holds px q m \<longleftrightarrow> px_rest px (mr_rest m) q \<and>
     conditions (\<lambda>k v. px_header px k v q) (mr_Headers m) \<and> conditions (\<lambda>k v. px_label px k v q) (mr_SourceLabels m)"

definition applies :: "'q proxy \<Rightarrow> 'q \<Rightarrow> HTTPRoute \<Rightarrow> bool" where
  "applies px q r \<longleftrightarrow> hr_Match r = [] \<or> list_ex (match_holds px q) (hr_Match r)"

definition taken :: "'q proxy \<Rightarrow> HTTPRoute list \<Rightarrow> 'q \<Rightarrow> HTTPRoute option" where
  "taken px routes q = find (applies px q) routes"

text \<open>The requests that a match of the dynamic environment selects.\<close>

definition selected :: "'q proxy \<Rightarrow> 'q \<Rightarrow> IstioMatch \<Rightarrow> bool" where
  "selected px q mt \<longleftrightarrow> conditions (\<lambda>k v. px_header px k (toIstioStringMatch v) q) (im_Headers mt) \<and>
     conditions (\<lambda>k v. px_label px k v q) (im_SourceLabels mt)"

text \<open>
  The abstract specification: a request goes where it went before, unless that is a route to the default version of the
  host and some match selects the request; then it goes to the version of the environment, on the route for the first
  such match.
\<close>

definition steer ::
  "'w Env \<Rightarrow> VirtualServiceHandler \<Rightarrow> string \<Rightarrow> string \<Rightarrow> 'q proxy \<Rightarrow> 'q \<Rightarrow> HTTPRoute option \<Rightarrow> HTTPRoute option" where
  "steer c h host ns px q before = (case before of
     None \<Rightarrow> None
   | Some r \<Rightarrow>
       if list_ex (is_default h host ns) (hr_Route r)
       then (case find (selected px q) (vsh_Matches h) of Some mt \<Rightarrow> Some (env_route c h host ns r mt) | None \<Rightarrow> Some r)
       else Some r)"

section \<open>Conditions\<close>

lemma conditions_iff: "conditions ok m \<longleftrightarrow> (\<forall>k v. gm_lookup m k = Some v \<longrightarrow> ok k v)"
  by (auto simp: conditions_def list_all_iff gm_keys_lookup split: option.splits)

definition matches_ok :: "VirtualServiceHandler \<Rightarrow> bool" where
  \<comment> \<open>Go maps hold a key once\<close>
  "matches_ok h \<longleftrightarrow> (\<forall>mt \<in> set (vsh_Matches h). gm_ok (im_Headers mt) \<and> gm_ok (im_SourceLabels mt))"

definition separate :: "IstioMatch \<Rightarrow> HTTPMatchRequest \<Rightarrow> bool" where
  \<comment> \<open>the two put conditions on different headers and labels\<close>
  "separate mt m \<longleftrightarrow> set (gm_keys (im_Headers mt)) \<inter> set (gm_keys (mr_Headers m)) = {} \<and>
     set (gm_keys (im_SourceLabels mt)) \<inter> set (gm_keys (mr_SourceLabels m)) = {}"

lemma restrict_selected:
  assumes "gm_ok (im_Headers mt)" and "gm_ok (im_SourceLabels mt)" and "match_holds px q (restrict_match mt m)"
  shows "selected px q mt"
  using assms(3) unfolding match_holds_def selected_def conditions_iff restrict_lookup [OF assms(1,2)]
  by (auto split: option.splits)

lemma restrict_holds:
  assumes "gm_ok (im_Headers mt)" and "gm_ok (im_SourceLabels mt)" and "match_holds px q m" and "selected px q mt"
  shows "match_holds px q (restrict_match mt m)"
proof -
  have "mr_rest (restrict_match mt m) = mr_rest m" by (simp add: restrict_match_def Let_def)
  with assms(3,4) show ?thesis
    unfolding match_holds_def selected_def conditions_iff restrict_lookup [OF assms(1,2)]
    by (auto split: option.splits)
qed

lemma restrict_separate:
  assumes "gm_ok (im_Headers mt)" and "gm_ok (im_SourceLabels mt)" and "separate mt m"
    and "match_holds px q (restrict_match mt m)"
  shows "match_holds px q m"
proof -
  have rest: "mr_rest (restrict_match mt m) = mr_rest m" by (simp add: restrict_match_def Let_def)
  have free: "gm_lookup (mr_Headers m) k = Some v \<Longrightarrow> gm_lookup (im_Headers mt) k = None"
    "gm_lookup (mr_SourceLabels m) k = Some u \<Longrightarrow> gm_lookup (im_SourceLabels mt) k = None" for k v u
    using assms(3) by (auto simp: separate_def gm_keys_lookup disjoint_iff)
  show ?thesis
    using assms(4) free unfolding match_holds_def conditions_iff restrict_lookup [OF assms(1,2)] rest
    by (metis option.simps(4))
qed

section \<open>Routes of the environment\<close>

lemma env_route_match:
  "hr_Match (env_route c h host ns r mt) = map (restrict_match mt) (if hr_Match r = [] then [HTTPMatchRequest_zero] else hr_Match r)"
  by (simp add: env_route_def env_route_body_def)

lemma env_route_selected:
  assumes "matches_ok h" and "mt \<in> set (vsh_Matches h)" and "applies px q (env_route c h host ns r mt)"
  shows "selected px q mt"
proof -
  have ok: "gm_ok (im_Headers mt)" "gm_ok (im_SourceLabels mt)" using assms(1,2) by (auto simp: matches_ok_def)
  obtain m where "match_holds px q (restrict_match mt m)"
    using assms(3) by (auto simp: applies_def env_route_match list_ex_iff split: if_splits)
  then show ?thesis by (rule restrict_selected [OF ok])
qed

lemma env_route_applies:
  assumes "matches_ok h" and "mt \<in> set (vsh_Matches h)" and "\<forall>m \<in> set (hr_Match r). separate mt m" and "px_rest px [] q"
  shows "applies px q (env_route c h host ns r mt) \<longleftrightarrow> applies px q r \<and> selected px q mt"
proof -
  have ok: "gm_ok (im_Headers mt)" "gm_ok (im_SourceLabels mt)" using assms(1,2) by (auto simp: matches_ok_def)
  have zero: "match_holds px q HTTPMatchRequest_zero"
    using assms(4) by (simp add: match_holds_def conditions_def HTTPMatchRequest_zero_def gm_keys_def)
  show ?thesis
    using assms(3) zero
    by (auto simp: applies_def env_route_match list_ex_iff intro: restrict_holds [OF ok] restrict_separate [OF ok]
        dest: restrict_selected [OF ok])
qed

lemma taken_append: "taken px (xs @ ys) q = (case taken px xs q of Some r \<Rightarrow> Some r | None \<Rightarrow> taken px ys q)"
  by (induction xs) (simp_all add: taken_def)

lemma taken_Cons: "taken px (r # rs) q = (if applies px q r then Some r else taken px rs q)"
  by (simp add: taken_def)

lemma taken_env_routes:
  assumes "\<forall>mt \<in> set ms. applies px q (f mt) \<longleftrightarrow> a \<and> selected px q mt"
  shows "taken px (map f ms) q = (if a then map_option f (find (selected px q) ms) else None)"
  using assms by (induction ms) (auto simp: taken_def)

lemma with_env_routes_plain:
  "\<forall>r \<in> set rs. \<not> HasPrefix (hr_Name r) (vsh_RoutePrefix h) \<Longrightarrow>
   with_env_routes c h host ns rs = concat (map (\<lambda>r. routes_for c h host ns r @ [r]) rs)"
  by (simp add: with_env_routes_def)

lemma steer_routes:
  assumes "\<forall>r \<in> set rs. \<not> HasPrefix (hr_Name r) (vsh_RoutePrefix h)" and "matches_ok h" and "px_rest px [] q"
    and "\<forall>r \<in> set rs. \<forall>m \<in> set (hr_Match r). \<forall>mt \<in> set (vsh_Matches h). separate mt m"
  shows "taken px (with_env_routes c h host ns rs) q = steer c h host ns px q (taken px rs q)"
  unfolding with_env_routes_plain [OF assms(1)] using assms(4)
proof (induction rs)
  case (Cons r rs)
  let ?f = "env_route c h host ns r"
  have "\<forall>mt \<in> set (vsh_Matches h). applies px q (?f mt) \<longleftrightarrow> applies px q r \<and> selected px q mt"
    using Cons.prems by (auto simp: env_route_applies [OF assms(2) _ _ assms(3)])
  from taken_env_routes [OF this]
  have "taken px (routes_for c h host ns r) q =
      (if list_ex (is_default h host ns) (hr_Route r) \<and> applies px q r
       then map_option ?f (find (selected px q) (vsh_Matches h)) else None)"
    by (simp add: routes_for_def taken_def)
  with Cons.IH Cons.prems show ?case
    by (auto simp: taken_append taken_Cons steer_def split: option.splits)
qed (simp add: taken_def steer_def)

lemma unselected_routes:
  assumes "\<forall>r \<in> set rs. \<not> HasPrefix (hr_Name r) (vsh_RoutePrefix h)" and "matches_ok h"
    and "\<forall>mt \<in> set (vsh_Matches h). \<not> selected px q mt"
  shows "taken px (with_env_routes c h host ns rs) q = taken px rs q"
  unfolding with_env_routes_plain [OF assms(1)]
proof (induction rs)
  case (Cons r rs)
  have "taken px (routes_for c h host ns r) q = None"
    using assms(3) by (auto simp: taken_def find_None_iff routes_for_def dest: env_route_selected [OF assms(2)])
  with Cons show ?case by (simp add: taken_append taken_Cons)
qed (simp add: taken_def)

section \<open>What an update sends\<close>

lemma updateVirtualService_sends:
  assumes "updateVirtualService (traced c) h heap p host s = (res, t)" and "log_of t = log_of s @ es"
    and "UpdatedVirtualService vs e \<in> set es" and "dests_ok (vs_Http (heap ! p))"
  shows "\<not> routesConfiguredWithDynamicEnvRoutes (vs_Http (heap ! p)) (vsh_RoutePrefix h)"
    and "vs_Http vs = with_env_routes c h host (vs_Namespace (heap ! p)) (vs_Http (heap ! p))"
proof -
  show new: "\<not> routesConfiguredWithDynamicEnvRoutes (vs_Http (heap ! p)) (vsh_RoutePrefix h)"
    using assms(1-3) by (auto simp: updateVirtualService_def Let_def)
  let ?st = "\<lparr>rs_Name = vs_Name (heap ! p), rs_Namespace = vs_Namespace (heap ! p), rs_Status = []\<rparr>"
  obtain r u where add: "AddVirtualServiceStatusEntry (traced c) (vsh_SubsetName h) ?st s = (r, u)" by fastforce
  then obtain es1 where es1: "log_of u = log_of s @ es1" "list_all is_status es1"
    using doesD [OF does_AddVirtualServiceStatusEntry] by blast
  then have no: "UpdatedVirtualService vs e \<notin> set es1" by (auto simp: list_all_iff)
  have routes: "new_routes (traced c) h host (vs_Namespace (heap ! p)) (vs_Http (heap ! p)) =
      Done (Inr (with_env_routes c h host (vs_Namespace (heap ! p)) (vs_Http (heap ! p))))"
    using new_routes_eq [OF assms(4), of "traced c"] by simp
  obtain w log where w: "world u = (w, log)" by fastforce
  show "vs_Http vs = with_env_routes c h host (vs_Namespace (heap ! p)) (vs_Http (heap ! p))"
  proof (cases "r = Done None")
    case True
    with assms(1,2,3) new no add routes w es1 show ?thesis
      by (auto simp: updateVirtualService_def Let_def bnd_apply call_apply log_call_eq split: prod.splits)
  next
    case False
    then have "u = t"
      using assms(1) new add
      by (cases r) (auto simp: updateVirtualService_def Let_def bnd_apply split: option.splits)
    with assms(2,3) es1 no show ?thesis by simp
  qed
qed

section \<open>Two environments in one virtual service\<close>

text \<open>The versions of two environments are told apart by the prefixes of their routes.\<close>

abbreviation version_of :: "DynamicEnvReconcileData \<Rightarrow> string" where
  "version_of data \<equiv> UniqueDynamicEnvName (rd_Identifier data)"

lemma handler_version [simp]:
  "vsh_UniqueVersion (NewVirtualServiceHandler data hosts dv) = version_of data"
  "vsh_RoutePrefix (NewVirtualServiceHandler data hosts dv) = CalculateVirtualServicePrefix (version_of data) (sub_Name (rd_Subset data))"
  "vsh_DefaultVersion (NewVirtualServiceHandler data hosts dv) = dv"
  by (simp_all add: NewVirtualServiceHandler_def Let_def)

lemma foreign_prefix:
  assumes "parallel (version_of dataA @ ''-'') (version_of dataB @ ''-'')"
    and "r \<in> set (routes_for c (NewVirtualServiceHandler dataB hosts dv) host ns r0)"
  shows "\<not> HasPrefix (hr_Name r) (CalculateVirtualServicePrefix (version_of dataA) sbst)"
proof -
  from routes_for_prefixed [OF assms(2)]
  obtain x where "hr_Name r = (VirtualServiceRoutePrefix @ ''-'') @ (version_of dataB @ ''-'') @ x"
    by (auto simp: HasPrefix_prefix Prefix_append prefix_def)
  moreover have "CalculateVirtualServicePrefix (version_of dataA) sbst =
      (VirtualServiceRoutePrefix @ ''-'') @ (version_of dataA @ ''-'') @ sbst"
    by (simp add: Prefix_append)
  moreover have "\<not> prefix ((version_of dataA @ ''-'') @ sbst) ((version_of dataB @ ''-'') @ x)"
    using parallelD1 [OF parallel_append [OF assms(1)]] by blast
  ultimately show ?thesis unfolding HasPrefix_prefix by (metis same_prefix_prefix)
qed

lemma redirected_not_default:
  assumes "vsh_UniqueVersion h \<noteq> vsh_DefaultVersion h'" and "r \<in> set (routes_for c h host ns r0)"
  shows "routes_for c h' host' ns' r = []"
proof -
  have "\<not> is_default h' host' ns' (redirect h d)" for d
    using assms(1) by (cases "rd_Destination d") (auto simp: is_default_def redirect_def default_destination_def)
  then have "\<not> list_ex (is_default h' host' ns') (hr_Route r)"
    using assms(2) by (auto simp: routes_for_def env_route_def env_route_body_def list_ex_iff split: if_splits)
  then show ?thesis by (simp add: routes_for_def)
qed

lemma cleanup_filter:
  "cleanup_routes version rs = filter (\<lambda>r. \<not> HasPrefix (hr_Name r) (CalculateVirtualServicePrefix version [])) rs"
  by (induction rs) simp_all

lemma cleanup_append [simp]: "cleanup_routes v (xs @ ys) = cleanup_routes v xs @ cleanup_routes v ys"
  by (simp add: cleanup_filter)

lemma cleanup_own_routes:
  "HasPrefix (vsh_RoutePrefix h) (CalculateVirtualServicePrefix v []) \<Longrightarrow> cleanup_routes v (routes_for c h host ns r) = []"
  using routes_for_prefixed HasPrefix_trans by (fastforce simp: cleanup_filter filter_empty_conv)

lemma cleanup_none: "\<forall>r \<in> set rs. \<not> HasPrefix (hr_Name r) (CalculateVirtualServicePrefix v []) \<Longrightarrow> cleanup_routes v rs = rs"
  by (simp add: cleanup_filter)

lemma cleanup_drops_env_routes:
  assumes "HasPrefix (vsh_RoutePrefix h) (CalculateVirtualServicePrefix version [])"
    and "\<forall>r \<in> set rs. \<not> HasPrefix (hr_Name r) (CalculateVirtualServicePrefix version [])"
  shows "cleanup_routes version (with_env_routes c h host ns rs) = rs"
proof -
  have new: "filter (\<lambda>r. \<not> HasPrefix (hr_Name r) (CalculateVirtualServicePrefix version [])) (routes_for c h host ns r) = []" for r
    using assms(1) routes_for_prefixed HasPrefix_trans by (fastforce simp: filter_empty_conv)
  have "\<forall>r \<in> set rs. \<not> HasPrefix (hr_Name r) (vsh_RoutePrefix h)"
    using assms HasPrefix_trans by blast
  with assms(2) show ?thesis
    unfolding cleanup_filter by (induction rs) (simp_all add: with_env_routes_def new)
qed

lemma concat_singletons: "\<forall>x \<in> set xs. f x = [] \<Longrightarrow> concat (map (\<lambda>x. f x @ [x]) xs) = xs"
  by (induction xs) simp_all

lemma dests_ok_env_routes: "dests_ok rs \<Longrightarrow> dests_ok (with_env_routes c h host ns rs)"
  by (force simp: dests_ok_def with_env_routes_def routes_for_def env_route_def env_route_body_def redirect_def is_default_def
      split: if_splits option.splits)

lemma env_routes_foreign:
  assumes "parallel (version_of dataA @ ''-'') (version_of dataB @ ''-'')"
    and "\<forall>r \<in> set rs. \<not> HasPrefix (hr_Name r) (CalculateVirtualServicePrefix (version_of dataA) sbst)"
    and "r \<in> set (with_env_routes c (NewVirtualServiceHandler dataB hosts dv) host ns rs)"
  shows "\<not> HasPrefix (hr_Name r) (CalculateVirtualServicePrefix (version_of dataA) sbst)"
  using assms(2,3) foreign_prefix [OF assms(1)] by (fastforce simp: with_env_routes_def)

lemma cleanup_earlier_environment:
  fixes c :: "'w Env"
  assumes "parallel (version_of dataA @ ''-'') (version_of dataB @ ''-'')" and "version_of dataA \<noteq> dvB"
    and "\<forall>r \<in> set rs. \<not> HasPrefix (hr_Name r) (CalculateVirtualServicePrefix (version_of dataA) [])"
    and "\<forall>r \<in> set rs. \<not> HasPrefix (hr_Name r) (CalculateVirtualServicePrefix (version_of dataB) [])"
    and hA_def: "hA = NewVirtualServiceHandler dataA hostsA dvA" and hB_def: "hB = NewVirtualServiceHandler dataB hostsB dvB"
  shows "cleanup_routes (version_of dataA) (with_env_routes c hB hostB ns (with_env_routes c hA hostA ns rs)) =
    with_env_routes c hB hostB ns rs"
proof -
  let ?env = "\<lambda>h host r. routes_for c h host ns r"
  have subset: "HasPrefix (CalculateVirtualServicePrefix v sbst) (CalculateVirtualServicePrefix v [])" for v sbst
    by (rule Prefix_subset_of_env)
  have noA: "\<forall>r \<in> set rs. \<not> HasPrefix (hr_Name r) (vsh_RoutePrefix hA)"
    using assms(3) subset HasPrefix_trans unfolding hA_def handler_version by blast
  have noB: "\<forall>r \<in> set rs. \<not> HasPrefix (hr_Name r) (vsh_RoutePrefix hB)"
    using assms(4) subset HasPrefix_trans unfolding hB_def handler_version by blast
  have noB': "\<forall>r \<in> set (with_env_routes c hA hostA ns rs). \<not> HasPrefix (hr_Name r) (vsh_RoutePrefix hB)"
    using env_routes_foreign [OF parallel_commute [THEN iffD1, OF assms(1)]] noB unfolding hA_def hB_def handler_version
    by blast
  have dropA: "cleanup_routes (version_of dataA) (?env hA hostA r) = []" for r
    by (rule cleanup_own_routes) (simp add: hA_def subset)
  have keepB: "cleanup_routes (version_of dataA) (?env hB hostB r) = ?env hB hostB r" for r
    using foreign_prefix [OF assms(1)] unfolding hB_def by (blast intro: cleanup_none)
  have noneB: "concat (map (\<lambda>x. ?env hB hostB x @ [x]) (?env hA hostA r)) = ?env hA hostA r" for r
  proof -
    have "\<forall>x \<in> set (?env hA hostA r). ?env hB hostB x = []"
      using redirected_not_default [of hA hB] assms(2) unfolding hA_def hB_def handler_version by blast
    then show ?thesis by (rule concat_singletons)
  qed
  show ?thesis
    unfolding with_env_routes_plain [OF noB']
    unfolding with_env_routes_plain [OF noA] with_env_routes_plain [OF noB]
    using assms(3) by (induction rs) (simp_all add: dropA keepB noneB)
qed

section \<open>A sample proxy\<close>

text \<open>A request is the list of its headers; conditions on labels and other conditions are not met, except the empty one.\<close>

definition sample_proxy :: "(string \<times> string) list proxy" where
  "sample_proxy = \<lparr>px_header = (\<lambda>k m q. case (m, map_of q k) of
       (ExactMatch v, Some u) \<Rightarrow> u = v | (PrefixMatch v, Some u) \<Rightarrow> HasPrefix u v | _ \<Rightarrow> False),
     px_label = (\<lambda>k v q. False), px_rest = (\<lambda>rest q. rest = [])\<rparr>"

abbreviation jason :: "(string \<times> string) list" where "jason \<equiv> [(''end-user'', ''jason'')]"
abbreviation bob :: "(string \<times> string) list" where "bob \<equiv> [(''end-user'', ''bob'')]"

abbreviation sample_vs_world :: "(mem \<times> effect list) loop_state" where
  "sample_vs_world \<equiv> \<lparr>cur_de = sample_vs_env, world = (empty_mem\<lparr>m_des := [sample_vs_env], m_vss := [sample_vs]\<rparr>, [])\<rparr>"

lemma sample_matches_ok [simp]: "matches_ok sample_vs_handler"
  by (simp add: matches_ok_def sample_vs_handler_def NewVirtualServiceHandler_def Let_def gm_ok_def gm_keys_def)

lemma sample_dests_ok [simp]: "dests_ok (vs_Http ([sample_vs] ! 0))"
  using sample_default(2) by (simp add: sample_vs_def)

fun sent_service :: "effect \<Rightarrow> VirtualService option" where
  "sent_service (UpdatedVirtualService vs e) = Some vs"
| "sent_service _ = None"

lemma sample_sends:
  "list_ex (\<lambda>e. sent_service e \<noteq> None)
     (log_of (snd (updateVirtualService (traced mem_env) sample_vs_handler [sample_vs] 0 ''details'' sample_vs_world)))"
  by code_simp

abbreviation sample_log_sent :: "effect list" where
  "sample_log_sent \<equiv> log_of (snd (updateVirtualService (traced mem_env) sample_vs_handler [sample_vs] 0 ''details'' sample_vs_world))"

lemma sample_sent:
  obtains res t vs e where "updateVirtualService (traced mem_env) sample_vs_handler [sample_vs] 0 ''details'' sample_vs_world = (res, t)"
    and "log_of t = log_of sample_vs_world @ sample_log_sent" and "UpdatedVirtualService vs e \<in> set sample_log_sent"
proof -
  obtain res t where run: "updateVirtualService (traced mem_env) sample_vs_handler [sample_vs] 0 ''details'' sample_vs_world = (res, t)"
    by fastforce
  from sample_sends obtain f where f: "f \<in> set sample_log_sent" "sent_service f \<noteq> None" by (auto simp: list_ex_iff)
  from f(2) obtain vs e where "f = UpdatedVirtualService vs e" by (cases f) auto
  with f run that show thesis by simp
qed

text \<open>
  The hypothesis of the first property below is needed: a condition of the environment replaces a condition of the
  original match on the same header, so a request that the original route did not accept is sent to the environment.
\<close>

lemma header_condition_replaced:
  "let r = sample_route\<lparr>hr_Match := [HTTPMatchRequest_zero\<lparr>mr_Headers := Some [(''end-user'', ExactMatch ''bob'')]\<rparr>]\<rparr>
   in taken sample_proxy [r] jason = None \<and>
      new_routes mem_env sample_vs_handler ''details'' ''ns'' [r] =
        Done (Inr (with_env_routes mem_env sample_vs_handler ''details'' ''ns'' [r])) \<and>
      taken sample_proxy (with_env_routes mem_env sample_vs_handler ''details'' ''ns'' [r]) jason \<noteq> None"
  by code_simp

section \<open>Properties\<close>



text \<open>
  C20: other traffic is not touched. A request that no match of the environment selects takes the same route after the
  update as before, whatever conditions the virtual service has.
\<close>

theorem unselected_traffic_unchanged:
  assumes "updateVirtualService (traced c) h heap p host s = (res, t)" and "log_of t = log_of s @ es"
    and "UpdatedVirtualService vs e \<in> set es" and "dests_ok (vs_Http (heap ! p))" and "matches_ok h"
    and "\<forall>mt \<in> set (vsh_Matches h). \<not> selected px q mt"
  shows "taken px (vs_Http vs) q = taken px (vs_Http (heap ! p)) q"
proof -
  note sent = updateVirtualService_sends [OF assms(1-4)]
  have "\<forall>r \<in> set (vs_Http (heap ! p)). \<not> HasPrefix (hr_Name r) (vsh_RoutePrefix h)"
    using sent(1) by (auto simp: configured_iff)
  from unselected_routes [OF this assms(5,6)] sent(2) show ?thesis by simp
qed

theorem unselected_traffic_unchanged_witness:
  "\<exists>vs e. UpdatedVirtualService vs e \<in> set sample_log_sent \<and> taken sample_proxy (vs_Http vs) bob = taken sample_proxy [sample_route] bob"
proof -
  obtain res t vs e where run: "updateVirtualService (traced mem_env) sample_vs_handler [sample_vs] 0 ''details'' sample_vs_world = (res, t)"
    and log: "log_of t = log_of sample_vs_world @ sample_log_sent" and sent: "UpdatedVirtualService vs e \<in> set sample_log_sent"
    by (rule sample_sent)
  have "\<forall>mt \<in> set (vsh_Matches sample_vs_handler). \<not> selected sample_proxy bob mt"
    by (simp add: sample_vs_handler_def NewVirtualServiceHandler_def Let_def selected_def conditions_def sample_proxy_def
        gm_keys_def toIstioStringMatch_def)
  from unselected_traffic_unchanged [OF run log sent sample_dests_ok sample_matches_ok this]
  have "taken sample_proxy (vs_Http vs) bob = taken sample_proxy [sample_route] bob" by (simp add: sample_vs_def)
  with sent show ?thesis by blast
qed



end
