(* ===== verification/Metrics.thy ===== *)
theory Metrics
  imports Status_Manager
begin

text \<open>
  The Prometheus collector, \<^verbatim>\<open>pkg/metrics/collector.go\<close>: on every scrape it lists the dynamic environments and sends
  one metric per degraded environment and one count per namespace.

  The Prometheus client is not part of the repository. \<open>must\<close> stands for \<open>MustNewConstMetric\<close> with the value type of a
  gauge: it builds a metric from a description, a value and label values, or panics. The channel is the list of the
  metrics that were sent, in order. The counts are \<open>float64\<close> in the sources; adding one to a count is exact below
  \<open>2 ^ 53\<close>, so they are natural numbers here.
\<close>

record Desc =
  desc_fqName :: string
  desc_help :: string
  desc_variableLabels :: "string list"

definition runningEnvironmentsDesc :: Desc where
  "runningEnvironmentsDesc = \<lparr>desc_fqName = ''dynamic_environments'',
     desc_help = ''Number of deployed dynamic environments per namespace'', desc_variableLabels = [''namespace'']\<rparr>"

definition degradedEnvironmentsDesc :: Desc where
  "degradedEnvironmentsDesc = \<lparr>desc_fqName = ''degraded_dynamic_environments'',
     desc_help = ''Number of dynamic environments in degraded state per namespace'',
     desc_variableLabels = [''namespace'', ''name'']\<rparr>"

section \<open>Operations\<close>

definition Describe :: "Desc list" where
  \<comment> \<open>the descriptions sent, in order\<close>
  "Describe = [runningEnvironmentsDesc, degradedEnvironmentsDesc]"

type_synonym ('w, 'm, 'a) collecting = "('w \<times> 'm list, 'a) prog"

definition send :: "'m outcome \<Rightarrow> ('w, 'm, unit) collecting" where
  \<comment> \<open>\<open>metrics <- m\<close>, with the call that builds \<open>m\<close>\<close>
  "send r = (\<lambda>(w, sent). case r of Done m \<Rightarrow> (Done (), w, sent @ [m]) | Panic \<Rightarrow> (Panic, w, sent))"

definition in_world :: "('w \<Rightarrow> 'a \<times> 'w) \<Rightarrow> ('w, 'm, 'a) collecting" where
  "in_world f = (\<lambda>(w, sent). case f w of (x, w) \<Rightarrow> (Done x, w, sent))"

fun collect_items ::
  "(Desc \<Rightarrow> nat \<Rightarrow> string list \<Rightarrow> 'm outcome) \<Rightarrow> DynamicEnv list \<Rightarrow> nat gomap \<Rightarrow> ('w, 'm, nat gomap) collecting" where
  \<comment> \<open>the loop over the environments, with the variable \<open>desPerNamespace\<close>\<close>
  "collect_items must [] desPerNamespace = ret desPerNamespace"
| "collect_items must (de # items) desPerNamespace =
     (let desPerNamespace = gm_put (de_Namespace de) (gm_get 0 desPerNamespace (de_Namespace de) + 1) desPerNamespace
      in if st_State (de_Status de) = Degraded then
           bnd (send (must degradedEnvironmentsDesc 1 [de_Namespace de, de_Name de])) (\<lambda>_.
           collect_items must items desPerNamespace)
         else collect_items must items desPerNamespace)"

fun collect_counts ::
  "(Desc \<Rightarrow> nat \<Rightarrow> string list \<Rightarrow> 'm outcome) \<Rightarrow> nat gomap \<Rightarrow> string list \<Rightarrow> ('w, 'm, unit) collecting" where
  \<comment> \<open>the loop over the namespaces\<close>
  "collect_counts must desPerNamespace [] = ret ()"
| "collect_counts must desPerNamespace (ns # nss) =
     bnd (send (must runningEnvironmentsDesc (gm_get 0 desPerNamespace ns) [ns])) (\<lambda>_.
     collect_counts must desPerNamespace nss)"

definition Collect :: "'w Env \<Rightarrow> (Desc \<Rightarrow> nat \<Rightarrow> string list \<Rightarrow> 'm outcome) \<Rightarrow> ('w, 'm, unit) collecting" where
  "Collect c must =
     bnd (in_world (ListDynamicEnvs c)) (\<lambda>des. case des of
       Inl err \<Rightarrow> ret ()
     | Inr items \<Rightarrow>
         bnd (collect_items must items gm_make) (\<lambda>desPerNamespace.
         bnd (in_world (RangeOrder c (gm_keys desPerNamespace))) (\<lambda>nss.
         collect_counts must desPerNamespace nss)))"

text \<open>
  \<open>Start\<close> registers the collector, waits for the context to be done and removes it again. The registry is not part of the
  repository: \<open>register\<close> and \<open>unregister\<close> are its calls, \<open>blocked\<close> what happens to it until the context is done.
\<close>

definition collector_Start ::
  "('r \<Rightarrow> goerror option \<times> 'r) \<Rightarrow> ('r \<Rightarrow> 'r) \<Rightarrow> ('r \<Rightarrow> 'r) \<Rightarrow> 'r \<Rightarrow> goerror option \<times> 'r" where
  "collector_Start register blocked unregister registry =
     (case register registry of
        (Some err, registry) \<Rightarrow> (Some err, registry)
      | (None, registry) \<Rightarrow> (None, unregister (blocked registry)))"

section \<open>What is counted\<close>

definition envs_in :: "string \<Rightarrow> DynamicEnv list \<Rightarrow> nat" where
  "envs_in ns items = length (filter (\<lambda>de. de_Namespace de = ns) items)"

definition degraded :: "DynamicEnv \<Rightarrow> bool" where
  "degraded de \<longleftrightarrow> st_State (de_Status de) = Degraded"

text \<open>
  What is documented of \<open>MustNewConstMetric\<close>: it builds the metric when there is one value for each variable label of the
  description and the values are valid UTF-8, as ASCII is. \<open>mk\<close> is the metric.
\<close>

definition ascii :: "string \<Rightarrow> bool" where
  "ascii s = list_all (\<lambda>c. of_char c < (128 :: nat)) s"

definition builds_metrics ::
  "(Desc \<Rightarrow> nat \<Rightarrow> string list \<Rightarrow> 'm outcome) \<Rightarrow> (Desc \<Rightarrow> nat \<Rightarrow> string list \<Rightarrow> 'm) \<Rightarrow> bool" where
  "builds_metrics must mk \<longleftrightarrow> (\<forall>d v ls. length ls = length (desc_variableLabels d) \<and> (\<forall>l \<in> set ls. ascii l) \<longrightarrow>
     must d v ls = Done (mk d v ls))"

lemma send_Done [simp]: "send (Done m) (w, sent) = (Done (), w, sent @ [m])"
  by (simp add: send_def)

lemma returns_send_Done [wp]: "returns (send (Done m)) s P \<longleftrightarrow> P () (fst s, snd s @ [m])"
  by (cases s) (simp add: returns_def)

lemma returns_in_world [wp]:
  "returns (in_world f) s P \<longleftrightarrow> (case f (fst s) of (x, w) \<Rightarrow> P x (w, snd s))"
  by (cases s) (simp add: returns_def in_world_def split: prod.split)

lemma collect_items_returns:
  fixes s :: "'w \<times> 'm list"
  assumes "builds_metrics must mk" and "\<forall>de \<in> set items. ascii (de_Namespace de) \<and> ascii (de_Name de)"
  shows "returns (collect_items must items m) s (\<lambda>m' t.
    t = (fst s, snd s @ map (\<lambda>de. mk degradedEnvironmentsDesc 1 [de_Namespace de, de_Name de]) (filter degraded items)) \<and>
    (\<forall>ns. gm_get 0 m' ns = gm_get 0 m ns + envs_in ns items) \<and>
    set (gm_keys m') = set (gm_keys m) \<union> de_Namespace ` set items \<and> (gm_ok m \<longrightarrow> gm_ok m'))"
  using assms(2)
proof (induction items arbitrary: m s)
  case (Cons de items)
  let ?m = "gm_put (de_Namespace de) (gm_get 0 m (de_Namespace de) + 1) m"
  have built: "must degradedEnvironmentsDesc 1 [de_Namespace de, de_Name de] =
      Done (mk degradedEnvironmentsDesc 1 [de_Namespace de, de_Name de])"
    using assms(1) Cons.prems by (simp add: builds_metrics_def degradedEnvironmentsDesc_def)
  have IH: "returns (collect_items must items ?m) t (\<lambda>m' u.
      u = (fst t, snd t @ map (\<lambda>de. mk degradedEnvironmentsDesc 1 [de_Namespace de, de_Name de]) (filter degraded items)) \<and>
      (\<forall>ns. gm_get 0 m' ns = gm_get 0 m ns + envs_in ns (de # items)) \<and>
      set (gm_keys m') = set (gm_keys m) \<union> de_Namespace ` set (de # items) \<and> (gm_ok m \<longrightarrow> gm_ok m'))" for t :: "'w \<times> 'm list"
    using Cons.prems by (intro returns_mono [OF Cons.IH]) (auto simp: envs_in_def)
  show ?case
    by (auto simp: Let_def wp built degraded_def [abs_def] simp del: One_nat_def
        intro!: returns_mono [OF IH [unfolded degraded_def [abs_def]]])
qed (simp add: wp envs_in_def)

lemma collect_counts_returns:
  assumes "builds_metrics must mk" and "\<forall>ns \<in> set nss. ascii ns"
  shows "returns (collect_counts must m nss) s (\<lambda>_ t.
    t = (fst s, snd s @ map (\<lambda>ns. mk runningEnvironmentsDesc (gm_get 0 m ns) [ns]) nss))"
  using assms(2)
proof (induction nss arbitrary: s)
  case (Cons ns nss)
  then have "must runningEnvironmentsDesc v [ns] = Done (mk runningEnvironmentsDesc v [ns])" for v
    using assms(1) by (simp add: builds_metrics_def runningEnvironmentsDesc_def)
  with Cons show ?case by (auto simp: wp intro!: returns_mono [OF Cons.IH])
qed (simp add: wp)

text \<open>The counts add up to the number of environments.\<close>

lemma counts_sum_set:
  "finite S \<Longrightarrow> (\<Sum>ns \<in> S. envs_in ns items) = length (filter (\<lambda>de. de_Namespace de \<in> S) items)"
proof (induction items)
  case (Cons de items)
  have "(\<Sum>ns \<in> S. envs_in ns (de # items)) = (\<Sum>ns \<in> S. (if ns = de_Namespace de then 1 else 0) + envs_in ns items)"
    by (intro sum.cong) (auto simp: envs_in_def)
  with Cons show ?case by (simp add: sum.distrib)
qed (simp add: envs_in_def)

lemma counts_sum:
  assumes "distinct nss" and "set nss = de_Namespace ` set items"
  shows "(\<Sum>ns \<leftarrow> nss. envs_in ns items) = length items"
proof -
  have "filter (\<lambda>de. de_Namespace de \<in> set nss) items = items" using assms(2) by (simp add: filter_id_conv)
  with counts_sum_set [of "set nss" items] assms(1) show ?thesis by (simp add: sum_list_distinct_conv_sum_set)
qed

section \<open>Properties\<close>

text \<open>
  C38: what a scrape sends. When the environments can be listed, the collector sends one metric with value one for
  every degraded environment, in the order of the list and labelled with its namespace and name, and after them, for every
  namespace that has an environment, exactly one metric with the number of its environments; these numbers add up to the
  number of environments. Nothing else is sent, and the call does not panic.
\<close>

theorem Collect_correct:
  assumes "range_visits_all c" and "builds_metrics must mk" and "ListDynamicEnvs c w = (Inr items, w1)"
    and "\<forall>de \<in> set items. ascii (de_Namespace de) \<and> ascii (de_Name de)"
  shows "returns (Collect c must) (w, sent) (\<lambda>_ (w', sent'). \<exists>nss. distinct nss \<and> set nss = de_Namespace ` set items \<and>
    sent' = sent @ map (\<lambda>de. mk degradedEnvironmentsDesc 1 [de_Namespace de, de_Name de])
                (filter (\<lambda>de. st_State (de_Status de) = Degraded) items)
              @ map (\<lambda>ns. mk runningEnvironmentsDesc (length (filter (\<lambda>de. de_Namespace de = ns) items)) [ns]) nss \<and>
    (\<Sum>ns \<leftarrow> nss. length (filter (\<lambda>de. de_Namespace de = ns) items)) = length items)"
proof -
  have counted: "returns (collect_counts must m nss) t (\<lambda>_ (w', sent'). \<exists>nss. distinct nss \<and>
      set nss = de_Namespace ` set items \<and> sent' = snd t @ map (\<lambda>ns. mk runningEnvironmentsDesc (envs_in ns items) [ns]) nss \<and>
      (\<Sum>ns \<leftarrow> nss. envs_in ns items) = length items)"
    if "\<forall>ns. gm_get 0 m ns = envs_in ns items" "set (gm_keys m) = de_Namespace ` set items" "gm_ok m"
      "RangeOrder c (gm_keys m) u = (nss, u')" for m nss u u' t
  proof -
    from range_visits_allD [OF assms(1) _ that(4)] that(2,3)
    have nss: "distinct nss" "set nss = de_Namespace ` set items" by (auto simp: gm_ok_def)
    then have "\<forall>ns \<in> set nss. ascii ns" using assms(4) by auto
    from collect_counts_returns [OF assms(2) this] show ?thesis
      by (rule returns_mono) (use nss that(1) counts_sum [OF nss] in \<open>auto intro!: exI [of _ nss]\<close>)
  qed
  show ?thesis
    unfolding Collect_def returns_bnd returns_in_world fst_conv assms(3) prod.case sum.case
    apply (rule returns_mono [OF collect_items_returns [OF assms(2,4)]])
    apply (clarsimp simp: gm_get_def [of _ gm_make] returns_in_world split: prod.split)
    apply (rule returns_mono [OF counted])
    apply (auto simp: gm_keys_def [of "Some []"] gm_make_def envs_in_def degraded_def [abs_def])
    done
qed

text \<open>A metric as what it was made from, for the witness.\<close>

definition plain_metric :: "Desc \<Rightarrow> nat \<Rightarrow> string list \<Rightarrow> (string \<times> nat \<times> string list) outcome" where
  "plain_metric d v ls = (if length ls = length (desc_variableLabels d) then Done (desc_fqName d, v, ls) else Panic)"

definition scraped :: "string \<Rightarrow> GlobalReadyStatus \<Rightarrow> DynamicEnv" where
  "scraped name state = \<lparr>de_Name = name, de_Namespace = ''ns'', de_Finalizers = [], de_DeletionTimestamp = None, de_rest = [],
     de_Spec = \<lparr>spec_IstioMatches = None, spec_Subsets = [], spec_Consumers = []\<rparr>,
     de_Status = \<lparr>st_SubsetsStatus = None, st_ConsumersStatus = None, st_State = state, st_TotalCount = 0, st_TotalReady = 0\<rparr>\<rparr>"

theorem Collect_correct_witness:
  "returns (Collect mem_env plain_metric) (empty_mem\<lparr>m_des := [scraped ''a'' Ready, scraped ''b'' Degraded]\<rparr>, [])
     (\<lambda>_ (w, sent). sent = [(''degraded_dynamic_environments'', 1, [''ns'', ''b'']), (''dynamic_environments'', 2, [''ns''])])"
proof -
  let ?items = "[scraped ''a'' Ready, scraped ''b'' Degraded]"
  let ?w = "empty_mem\<lparr>m_des := ?items\<rparr>"
  have must: "builds_metrics plain_metric (\<lambda>d v ls. (desc_fqName d, v, ls))"
    by (simp add: builds_metrics_def plain_metric_def)
  have items: "ListDynamicEnvs mem_env ?w = (Inr ?items, ?w)" by (simp add: mem_env_def)
  have names: "\<forall>de \<in> set ?items. ascii (de_Namespace de) \<and> ascii (de_Name de)" by (simp add: scraped_def ascii_def)
  have one: "nss = [x]" if "distinct nss" "set nss = {x}" for nss and x :: string
    using that by (cases nss; cases "tl nss") auto
  show ?thesis
  proof (rule returns_mono [OF Collect_correct [OF mem_env_range must items names]], clarify)
    fix nss :: "string list"
    assume "distinct nss" "set nss = de_Namespace ` set ?items"
    then have "nss = [''ns'']" using one [of nss "''ns''"] by (simp add: scraped_def)
    then show "[] @ map (\<lambda>de. (desc_fqName degradedEnvironmentsDesc, 1, [de_Namespace de, de_Name de]))
          (filter (\<lambda>de. st_State (de_Status de) = Degraded) ?items) @
        map (\<lambda>ns. (desc_fqName runningEnvironmentsDesc, length (filter (\<lambda>de. de_Namespace de = ns) ?items), [ns])) nss =
        [(''degraded_dynamic_environments'', 1, [''ns'', ''b'']), (''dynamic_environments'', 2, [''ns''])]"
      by (simp add: scraped_def degradedEnvironmentsDesc_def runningEnvironmentsDesc_def Ready_def Degraded_def)
  qed
qed

end
