(* ===== verification/Entry_Point.thy ===== *)
theory Entry_Point
  imports Controller
begin

text \<open>
  The entry point, \<^verbatim>\<open>cmd/main.go\<close>: it parses the flags, sets up the controller, the webhook, the collector and the
  health checks, and starts the manager.

  The manager is not part of the repository. \<open>step\<close> lists the calls that \<open>main\<close> makes to it, in the order in which they
  happen, and \<open>ask\<close> is the answer to each of them; every call is made at most once. Arguments are the pairs of a flag's name
  and value in the order of the command line; \<open>other\<close> answers for the flags of the logging package. \<open>NewManager\<close> stands for
  \<open>NewManager\<close> and for loading the configuration it is given, which both end the program with code 1 when they fail. The
  flag that asks for help is left out.
\<close>

section \<open>Flags\<close>

definition DefaultVersionLabel :: string where "DefaultVersionLabel = ''version''"
definition DefaultVersion :: string where "DefaultVersion = ''shared''"

definition arrayFlags_String :: "string list option \<Rightarrow> string" where
  \<comment> \<open>the receiver is a pointer\<close>
  "arrayFlags_String i = (case i of None \<Rightarrow> [] | Some xs \<Rightarrow> Join (CHR '','') xs)"

definition arrayFlags_Set :: "string list \<Rightarrow> string \<Rightarrow> goerror + string list" where
  "arrayFlags_Set i value =
     (let values = Split (CHR '','') value
      in if list_ex (\<lambda>s. s = []) values then Inl (ErrorString ''comma-separated list contains empty value'')
         else Inr (i @ values))"

record Flags =
  fl_metricsAddr :: string
  fl_enableLeaderElection :: bool
  fl_probeAddr :: string
  fl_versionLabel :: string
  fl_defaultVersion :: string
  fl_labelsToRemove :: "string list"

definition Flags_default :: Flags where
  "Flags_default = \<lparr>fl_metricsAddr = '':8080'', fl_enableLeaderElection = False, fl_probeAddr = '':8081'',
     fl_versionLabel = DefaultVersionLabel, fl_defaultVersion = DefaultVersion, fl_labelsToRemove = []\<rparr>"

definition ParseBool :: "string \<Rightarrow> bool option" where
  \<comment> \<open>\<open>strconv.ParseBool\<close>\<close>
  "ParseBool s =
     (if s \<in> {''1'', ''t'', ''T'', ''true'', ''TRUE'', ''True''} then Some True
      else if s \<in> {''0'', ''f'', ''F'', ''false'', ''FALSE'', ''False''} then Some False
      else None)"

definition set_flag :: "(string \<Rightarrow> string \<Rightarrow> goerror option) \<Rightarrow> Flags \<Rightarrow> string \<Rightarrow> string \<Rightarrow> goerror + Flags" where
  "set_flag other fl name value =
     (if name = ''metrics-bind-address'' then Inr (fl\<lparr>fl_metricsAddr := value\<rparr>)
      else if name = ''health-probe-bind-address'' then Inr (fl\<lparr>fl_probeAddr := value\<rparr>)
      else if name = ''leader-elect'' then
        (case ParseBool value of
           None \<Rightarrow> Inl (ErrorString ''parse error'')
         | Some b \<Rightarrow> Inr (fl\<lparr>fl_enableLeaderElection := b\<rparr>))
      else if name = ''version-label'' then Inr (fl\<lparr>fl_versionLabel := value\<rparr>)
      else if name = ''default-version'' then Inr (fl\<lparr>fl_defaultVersion := value\<rparr>)
      else if name = ''remove-labels'' then
        (case arrayFlags_Set (fl_labelsToRemove fl) value of
           Inl err \<Rightarrow> Inl err
         | Inr i \<Rightarrow> Inr (fl\<lparr>fl_labelsToRemove := i\<rparr>))
      else (case other name value of Some err \<Rightarrow> Inl err | None \<Rightarrow> Inr fl))"

fun parse_flags :: "(string \<Rightarrow> string \<Rightarrow> goerror option) \<Rightarrow> (string \<times> string) list \<Rightarrow> Flags \<Rightarrow> goerror + Flags" where
  \<comment> \<open>\<open>flag.Parse\<close>\<close>
  "parse_flags other [] fl = Inr fl"
| "parse_flags other ((name, value) # args) fl =
     (case set_flag other fl name value of Inl err \<Rightarrow> Inl err | Inr fl \<Rightarrow> parse_flags other args fl)"

section \<open>Registration of the types\<close>

text \<open>
  \<^verbatim>\<open>api/v1alpha1/groupversion_info.go\<close> and the two \<open>init\<close> functions. A scheme and the packages that add their types to
  it are not part of the repository; a builder is the group version and the objects registered with it, and \<open>build\<close> is
  what adding them to a scheme does. The program does not reach \<open>main\<close> when one of the registrations fails.
\<close>

record GroupVersion =
  gv_Group :: string
  gv_Version :: string

definition v1alpha1_GroupVersion :: GroupVersion where
  "v1alpha1_GroupVersion = \<lparr>gv_Group = ''riskified.com'', gv_Version = ''v1alpha1''\<rparr>"

record Builder =
  sb_GroupVersion :: GroupVersion
  sb_objects :: "string list"

definition SchemeBuilder :: Builder where
  "SchemeBuilder = \<lparr>sb_GroupVersion = v1alpha1_GroupVersion, sb_objects = []\<rparr>"

definition v1alpha1_init :: "Builder \<Rightarrow> Builder" where
  "v1alpha1_init b = b\<lparr>sb_objects := sb_objects b @ [''DynamicEnv'', ''DynamicEnvList'']\<rparr>"

type_synonym 's registration = "'s \<Rightarrow> goerror option \<times> 's"

definition Must :: "goerror option \<times> 's \<Rightarrow> 's outcome" where
  \<comment> \<open>\<open>utilruntime.Must\<close> panics on an error\<close>
  "Must r = (case r of (Some err, _) \<Rightarrow> Panic | (None, s) \<Rightarrow> Done s)"

definition main_init :: "'s registration \<Rightarrow> (Builder \<Rightarrow> 's registration) \<Rightarrow> 's registration \<Rightarrow> 's \<Rightarrow> 's outcome" where
  "main_init clientgo build istio scheme =
     map_outcome2 (\<lambda>scheme.
       map_outcome2 (\<lambda>scheme. Must (istio scheme)) (Must (build (v1alpha1_init SchemeBuilder) scheme)))
     (Must (clientgo scheme))"

lemma Must_Done: "Must r = Done s \<longleftrightarrow> r = (None, s)"
  by (auto simp: Must_def split: prod.splits option.splits)

lemma main_init_Done:
  "main_init clientgo build istio s = Done t \<longleftrightarrow> (\<exists>s1 s2. clientgo s = (None, s1) \<and>
     build \<lparr>sb_GroupVersion = \<lparr>gv_Group = ''riskified.com'', gv_Version = ''v1alpha1''\<rparr>,
       sb_objects = [''DynamicEnv'', ''DynamicEnvList'']\<rparr> s1 = (None, s2) \<and> istio s2 = (None, t))"
  by (auto simp: main_init_def v1alpha1_init_def SchemeBuilder_def v1alpha1_GroupVersion_def map_outcome2_Done Must_Done)

section \<open>Setting up\<close>

datatype kind = KindDynamicEnv | KindDeployment | KindDestinationRule | KindVirtualService

record ControllerSetup =
  cs_For :: kind
  cs_Watches :: "kind list" \<comment> \<open>with the handler \<open>EnqueueRequestForAnnotation\<close>\<close>
  cs_GenerationChangedPredicate :: bool
  cs_Reconciler :: DynamicEnvReconciler

definition SetupWithManager :: "DynamicEnvReconciler \<Rightarrow> ControllerSetup" where
  "SetupWithManager r = \<lparr>cs_For = KindDynamicEnv,
     cs_Watches = [KindDeployment, KindDestinationRule, KindVirtualService],
     cs_GenerationChangedPredicate = True, cs_Reconciler = r\<rparr>"

record ManagerOptions =
  mo_MetricsBindAddress :: string
  mo_WebhookPort :: nat
  mo_HealthProbeBindAddress :: string
  mo_LeaderElection :: bool
  mo_LeaderElectionID :: string

datatype step =
    NewManager ManagerOptions
  | SetupController ControllerSetup
  | SetupWebhook kind
  | SetupCollector
  | AddHealthzCheck string
  | AddReadyzCheck string
  | StartManager

datatype exit = Exit nat | Finished

definition SetupWebhookWithManager :: step where
  "SetupWebhookWithManager = SetupWebhook KindDynamicEnv"

definition required :: "(step \<Rightarrow> goerror option) \<Rightarrow> step \<Rightarrow> step list \<times> exit \<Rightarrow> step list \<times> exit" where
  \<comment> \<open>\<open>if err := ...; err != nil { ...; os.Exit(1) }\<close>\<close>
  "required ask s continue = (case ask s of Some err \<Rightarrow> ([s], Exit 1) | None \<Rightarrow> (s # fst continue, snd continue))"

definition manager_options :: "Flags \<Rightarrow> ManagerOptions" where
  "manager_options fl = \<lparr>mo_MetricsBindAddress = fl_metricsAddr fl, mo_WebhookPort = 9443,
     mo_HealthProbeBindAddress = fl_probeAddr fl, mo_LeaderElection = fl_enableLeaderElection fl,
     mo_LeaderElectionID = ''dynamic-environment-lock''\<rparr>"

definition start_steps :: "(step \<Rightarrow> goerror option) \<Rightarrow> step list \<times> exit" where
  \<comment> \<open>from the collector on; a collector that cannot be added is only logged\<close>
  "start_steps ask =
     (let (steps, result) =
        required ask (AddHealthzCheck ''healthz'')
        (required ask (AddReadyzCheck ''readyz'')
        (required ask StartManager ([], Finished)))
      in (SetupCollector # steps, result))"

definition main_steps :: "(step \<Rightarrow> goerror option) \<Rightarrow> Flags \<Rightarrow> string \<Rightarrow> step list \<times> exit" where
  "main_steps ask fl ENABLE_WEBHOOKS =
     (let r = \<lparr>r_VersionLabel = fl_versionLabel fl, r_DefaultVersion = fl_defaultVersion fl,
               r_LabelsToRemove = fl_labelsToRemove fl\<rparr>
      in required ask (NewManager (manager_options fl))
         (required ask (SetupController (SetupWithManager r))
         (if ENABLE_WEBHOOKS \<noteq> ''false'' then required ask SetupWebhookWithManager (start_steps ask)
          else start_steps ask)))"

definition main :: "(string \<Rightarrow> string \<Rightarrow> goerror option) \<Rightarrow> (step \<Rightarrow> goerror option) \<Rightarrow> (string \<times> string) list
    \<Rightarrow> string \<Rightarrow> step list \<times> exit" where
  \<comment> \<open>a flag that cannot be parsed ends the program with code 2\<close>
  "main other ask args ENABLE_WEBHOOKS =
     (case parse_flags other args Flags_default of
        Inl err \<Rightarrow> ([], Exit 2)
      | Inr fl \<Rightarrow> main_steps ask fl ENABLE_WEBHOOKS)"

section \<open>Flags are parsed in order\<close>

definition given :: "string \<Rightarrow> (string \<times> string) list \<Rightarrow> string list" where
  \<comment> \<open>the values given for a flag\<close>
  "given name args = map snd (filter (\<lambda>(n, _). n = name) args)"

lemma given_simps [simp]:
  "given name [] = []" "given name ((n, v) # args) = (if n = name then v # given name args else given name args)"
  by (simp_all add: given_def)

lemma set_flag_labels:
  "set_flag other fl name value = Inr fl' \<Longrightarrow> fl_labelsToRemove fl' =
     fl_labelsToRemove fl @ (if name = ''remove-labels'' then Split (CHR '','') value else [])"
  by (auto simp: set_flag_def arrayFlags_Set_def Let_def split: if_splits option.splits sum.splits)

lemma parse_flags_labels:
  "parse_flags other args fl = Inr fl' \<Longrightarrow> fl_labelsToRemove fl' =
     fl_labelsToRemove fl @ concat (map (Split (CHR '','')) (given ''remove-labels'' args))"
proof (induction args arbitrary: fl)
  case (Cons a args)
  obtain n v where a: "a = (n, v)" by (cases a)
  with Cons.prems obtain fl1 where "set_flag other fl n v = Inr fl1" "parse_flags other args fl1 = Inr fl'"
    by (auto split: sum.splits)
  with Cons.IH [of fl1] set_flag_labels [of other fl n v fl1] a show ?case by auto
qed simp

lemma set_flag_version:
  "set_flag other fl name value = Inr fl' \<Longrightarrow>
     fl_versionLabel fl' = (if name = ''version-label'' then value else fl_versionLabel fl) \<and>
     fl_defaultVersion fl' = (if name = ''default-version'' then value else fl_defaultVersion fl)"
  by (auto simp: set_flag_def split: if_splits option.splits sum.splits)

lemma parse_flags_version:
  "parse_flags other args fl = Inr fl' \<Longrightarrow>
     fl_versionLabel fl' = last (fl_versionLabel fl # given ''version-label'' args) \<and>
     fl_defaultVersion fl' = last (fl_defaultVersion fl # given ''default-version'' args)"
proof (induction args arbitrary: fl)
  case (Cons a args)
  obtain n v where a: "a = (n, v)" by (cases a)
  with Cons.prems obtain fl1 where "set_flag other fl n v = Inr fl1" "parse_flags other args fl1 = Inr fl'"
    by (auto split: sum.splits)
  with Cons.IH [of fl1] set_flag_version [of other fl n v fl1] a show ?case by (auto split: if_splits)
qed simp

text \<open>The calls that must succeed before the manager is started.\<close>

definition needed :: "Flags \<Rightarrow> string \<Rightarrow> step set" where
  "needed fl enabled =
     {NewManager (manager_options fl),
      SetupController (SetupWithManager \<lparr>r_VersionLabel = fl_versionLabel fl, r_DefaultVersion = fl_defaultVersion fl,
        r_LabelsToRemove = fl_labelsToRemove fl\<rparr>),
      AddHealthzCheck ''healthz'', AddReadyzCheck ''readyz''} \<union>
     (if enabled = ''false'' then {} else {SetupWebhook KindDynamicEnv})"

lemma required_parts:
  "set (fst (required ask s k)) = (if ask s = None then insert s (set (fst k)) else {s})"
  "snd (required ask s k) = (if ask s = None then snd k else Exit 1)"
  by (auto simp: required_def split: option.split)

lemma start_steps_parts:
  "StartManager \<in> set (fst (start_steps ask)) \<longleftrightarrow> ask (AddHealthzCheck ''healthz'') = None \<and> ask (AddReadyzCheck ''readyz'') = None"
  "StartManager \<in> set (fst (start_steps ask)) \<Longrightarrow> {AddHealthzCheck ''healthz'', AddReadyzCheck ''readyz''} \<subseteq> set (fst (start_steps ask))"
  "snd (start_steps ask) = (if ask (AddHealthzCheck ''healthz'') = None \<and> ask (AddReadyzCheck ''readyz'') = None \<and>
     ask StartManager = None then Finished else Exit 1)"
  by (auto simp: start_steps_def split_beta required_parts split: if_splits)

lemma main_steps_run:
  "(StartManager \<in> set (fst (main_steps ask fl enabled)) \<longleftrightarrow> (\<forall>s \<in> needed fl enabled. ask s = None)) \<and>
   (StartManager \<in> set (fst (main_steps ask fl enabled)) \<longrightarrow> needed fl enabled \<subseteq> set (fst (main_steps ask fl enabled))) \<and>
   snd (main_steps ask fl enabled) =
     (if (\<forall>s \<in> needed fl enabled. ask s = None) \<and> ask StartManager = None then Finished else Exit 1)"
proof (cases "enabled = ''false''")
  case True
  then show ?thesis
    using start_steps_parts(2) [of ask]
    by (auto simp: main_steps_def needed_def Let_def required_parts start_steps_parts(1,3))
next
  case False
  then show ?thesis
    using start_steps_parts(2) [of ask]
    by (auto simp: main_steps_def needed_def Let_def required_parts start_steps_parts(1,3) SetupWebhookWithManager_def)
qed

section \<open>Properties\<close>

text \<open>
  C39: a list of labels is parsed without loss. A value is accepted exactly when none of its comma-separated parts is
  empty; then the parts are appended to what earlier occurrences of the flag gave, and printing them gives the
  value back; otherwise the flag reports an error and the list is unchanged.
\<close>

theorem arrayFlags_roundtrip:
  "case arrayFlags_Set i value of
     Inl err \<Rightarrow> [] \<in> set (Split (CHR '','') value)
   | Inr i' \<Rightarrow> \<exists>xs. i' = i @ xs \<and> arrayFlags_String (Some xs) = value \<and> xs \<noteq> [] \<and> (\<forall>x \<in> set xs. x \<noteq> [] \<and> CHR '','' \<notin> set x) \<and>
       arrayFlags_Set [] (arrayFlags_String (Some xs)) = Inr xs"
proof (cases "[] \<in> set (Split (CHR '','') value)")
  case True
  then show ?thesis by (auto simp: arrayFlags_Set_def list_ex_iff)
next
  case False
  moreover have "CHR '','' \<notin> set x" if "x \<in> set (Split (CHR '','') value)" for x
    using that by (rule Split_parts)
  ultimately show ?thesis
    by (auto simp: arrayFlags_Set_def arrayFlags_String_def list_ex_iff intro!: exI [of _ "Split (CHR '','') value"])
qed

theorem arrayFlags_roundtrip_witness:
  "\<exists>xs. [''app'', ''argo'', ''x''] = [''app''] @ xs \<and> arrayFlags_String (Some xs) = ''argo,x''"
proof -
  have "arrayFlags_Set [''app''] ''argo,x'' = Inr [''app'', ''argo'', ''x'']" by code_simp
  with arrayFlags_roundtrip [of "''argo,x''" "[''app'']"] show ?thesis by auto
qed

text \<open>
  C40: the manager runs only when it is completely set up. It is started exactly when the flags can be parsed and the
  manager, the controller, the webhook unless it is disabled, and both checks could be set up; the collector
  does not matter. Then the controller watches the resource itself and the three kinds of resources that the
  operator writes, with the last version label and default version of the command line and with all labels of all
  \<^verbatim>\<open>remove-labels\<close> flags in order. The program ends with code 2 exactly on a flag that cannot be parsed and otherwise
  with code 1 or, after the manager has ended without an error, normally.
\<close>

theorem main_starts_complete:
  "case parse_flags other args Flags_default of
     Inl err \<Rightarrow> main other ask args enabled = ([], Exit 2)
   | Inr fl \<Rightarrow>
     fl_versionLabel fl = last (''version'' # given ''version-label'' args) \<and>
     fl_defaultVersion fl = last (''shared'' # given ''default-version'' args) \<and>
     fl_labelsToRemove fl = concat (map (Split (CHR '','')) (given ''remove-labels'' args)) \<and>
     (StartManager \<in> set (fst (main other ask args enabled)) \<longleftrightarrow> (\<forall>s \<in> needed fl enabled. ask s = None)) \<and>
     (StartManager \<in> set (fst (main other ask args enabled)) \<longrightarrow> needed fl enabled \<subseteq> set (fst (main other ask args enabled))) \<and>
     snd (main other ask args enabled) =
       (if (\<forall>s \<in> needed fl enabled. ask s = None) \<and> ask StartManager = None then Finished else Exit 1)"
proof (cases "parse_flags other args Flags_default")
  case (Inr fl)
  have run: "main other ask args enabled = main_steps ask fl enabled" by (simp add: main_def Inr)
  show ?thesis
    unfolding Inr sum.case run
    using parse_flags_labels [OF Inr] parse_flags_version [OF Inr]
    by (intro conjI main_steps_run [THEN conjunct1] main_steps_run [THEN conjunct2, THEN conjunct1]
        main_steps_run [THEN conjunct2, THEN conjunct2])
      (simp_all only: Flags_default_def Flags.simps DefaultVersionLabel_def DefaultVersion_def append_Nil)
qed (simp add: main_def)

theorem main_starts_complete_witness:
  "snd (main (\<lambda>n v. None) (\<lambda>s. if s = SetupCollector then Some (ErrorString ''no registry'') else None)
     [(''remove-labels'', ''argo,app''), (''remove-labels'', ''x'')] ''false'') = Finished"
proof -
  let ?args = "[(''remove-labels'', ''argo,app''), (''remove-labels'', ''x'')]"
  obtain fl where fl: "parse_flags (\<lambda>n v. None) ?args Flags_default = Inr fl"
    by (auto simp: set_flag_def arrayFlags_Set_def Let_def)
  from main_starts_complete [where other = "\<lambda>n v. None" and args = ?args and enabled = "''false''" and
      ask = "\<lambda>s. if s = SetupCollector then Some (ErrorString ''no registry'') else None"]
  show ?thesis unfolding fl sum.case by (simp add: needed_def)
qed

end
