(* ===== verification/Go_Memory.thy ===== *)
theory Go_Memory
  imports Prelude
begin

text \<open>
  Memory with sharing, for code whose whole point is what is shared: the deep copies of the API types.

  A memory is the list of the cells allocated so far; the address of a cell is its position, and allocation appends. A cell is
  an array or a map; a variable that was allocated with \<open>new\<close> is an array of one element. A pointer names an element of an array,
  a slice a window of an array, a map variable a map; each may be nil.

  \<open>shape\<close> says what a value of a type reaches: \<open>sh_ok\<close>, that all its references are there and of the right type; \<open>sh_refs\<close>, the
  addresses it reaches; \<open>sh_eq\<close>, equality as \<open>reflect.DeepEqual\<close> decides it, between a value in one memory and a value in
  another. The locale \<open>deep_copier\<close> is the contract of a copy operation, and there is one construction and one lemma for each
  way in which Go builds a type: assigned values, structs, pointers, slices and maps.
\<close>

section \<open>Memory\<close>

type_synonym ptr = "(nat \<times> nat) option"

record slice_header =
  sl_arr :: nat
  sl_off :: nat
  sl_len :: nat

type_synonym slice = "slice_header option"
type_synonym mapref = "nat option"

definition array_at :: "('c \<Rightarrow> 'a list option) \<Rightarrow> 'c list \<Rightarrow> nat \<Rightarrow> 'a list" where
  "array_at un h a = (case un (h ! a) of Some xs \<Rightarrow> xs | None \<Rightarrow> [])"

definition window :: "('c \<Rightarrow> 'a list option) \<Rightarrow> 'c list \<Rightarrow> slice_header \<Rightarrow> 'a list" where
  "window un h s = take (sl_len s) (drop (sl_off s) (array_at un h (sl_arr s)))"

definition deref :: "('c \<Rightarrow> 'a list option) \<Rightarrow> 'c list \<Rightarrow> nat \<times> nat \<Rightarrow> 'a" where
  "deref un h p = array_at un h (fst p) ! snd p"

text \<open>Two memories agree on some addresses.\<close>

definition agree :: "'c list \<Rightarrow> 'c list \<Rightarrow> nat set \<Rightarrow> bool" where
  "agree h h' A \<longleftrightarrow> (\<forall>a \<in> A. a < length h' \<and> h' ! a = h ! a)"

lemma agree_subset: "agree h h' A \<Longrightarrow> B \<subseteq> A \<Longrightarrow> agree h h' B"
  by (auto simp: agree_def)

lemma agree_Un [simp]: "agree h h' (A \<union> B) \<longleftrightarrow> agree h h' A \<and> agree h h' B"
  by (auto simp: agree_def)

lemma agree_insert [simp]: "agree h h' (insert a A) \<longleftrightarrow> a < length h' \<and> h' ! a = h ! a \<and> agree h h' A"
  by (auto simp: agree_def)

lemma agree_empty [simp]: "agree h h' {}"
  by (simp add: agree_def)

lemma agree_prefix: "prefix h h' \<Longrightarrow> (\<And>a. a \<in> A \<Longrightarrow> a < length h) \<Longrightarrow> agree h h' A"
  by (auto simp: agree_def prefix_def nth_append trans_less_add1)

lemma prefix_of_nth: "length h \<le> length h' \<Longrightarrow> (\<And>b. b < length h \<Longrightarrow> h' ! b = h ! b) \<Longrightarrow> prefix h h'"
  by (auto simp: prefix_def intro!: exI [of _ "drop (length h) h'"] nth_equalityI simp: nth_append)

lemma prefix_nth: "prefix h h' \<Longrightarrow> b < length h \<Longrightarrow> h' ! b = h ! b"
  by (auto simp: prefix_def nth_append)

section \<open>Shapes and copies\<close>

record ('c, 'a) shape =
  sh_ok :: "'c list \<Rightarrow> 'a \<Rightarrow> bool"
  sh_refs :: "'c list \<Rightarrow> 'a \<Rightarrow> nat set"
  sh_eq :: "'c list \<Rightarrow> 'a \<Rightarrow> 'c list \<Rightarrow> 'a \<Rightarrow> bool"

type_synonym ('c, 'a) copying = "'a \<Rightarrow> 'c list \<Rightarrow> 'a \<times> 'c list"

text \<open>
  What a value reaches is allocated, and is all that matters for reading it.
\<close>

locale local_shape =
  fixes sh :: "('c, 'a) shape"
  assumes refs_allocated: "sh_ok sh h x \<Longrightarrow> a \<in> sh_refs sh h x \<Longrightarrow> a < length h"
    and ok_local: "sh_ok sh h x \<Longrightarrow> agree h h' (sh_refs sh h x) \<Longrightarrow> sh_ok sh h' x"
    and refs_local: "sh_ok sh h x \<Longrightarrow> agree h h' (sh_refs sh h x) \<Longrightarrow> sh_refs sh h' x = sh_refs sh h x"
    and eq_local: "sh_ok sh h x \<Longrightarrow> sh_ok sh g y \<Longrightarrow> agree h h' (sh_refs sh h x) \<Longrightarrow> agree g g' (sh_refs sh g y) \<Longrightarrow>
      sh_eq sh h' x g' y = sh_eq sh h x g y"
    and eq_refl: "sh_ok sh h x \<Longrightarrow> sh_eq sh h x h x"
begin

lemma agree_self: "sh_ok sh h x \<Longrightarrow> agree h h (sh_refs sh h x)"
  using refs_allocated by (auto simp: agree_def)

lemma agree_grown: "sh_ok sh h x \<Longrightarrow> prefix h h' \<Longrightarrow> agree h h' (sh_refs sh h x)"
  using refs_allocated by (intro agree_prefix)

lemma grown:
  assumes "sh_ok sh h x" and "prefix h h'"
  shows "sh_ok sh h' x" and "sh_refs sh h' x = sh_refs sh h x"
  using ok_local refs_local agree_grown assms by blast+

lemma eq_moved:
  assumes "sh_ok sh h x" and "sh_ok sh g y" and "sh_eq sh h x g y"
    and "agree h h' (sh_refs sh h x)" and "agree g g' (sh_refs sh g y)"
  shows "sh_eq sh h' x g' y"
  using eq_local assms by blast

lemma eq_back:
  assumes "sh_ok sh h0 x" and "prefix h0 h" and "sh_ok sh g y" and "sh_eq sh h x g y" and "agree g g' (sh_refs sh g y)"
  shows "sh_eq sh h0 x g' y"
proof -
  have "sh_eq sh h0 x g y" using eq_local [OF assms(1,3) agree_grown [OF assms(1,2)] agree_self [OF assms(3)]] assms(4) by simp
  from eq_moved [OF assms(1,3) this agree_self [OF assms(1)] assms(5)] show ?thesis .
qed

lemma list_eq_local:
  assumes "\<forall>x \<in> set xs. sh_ok sh h x" and "\<forall>y \<in> set ys. sh_ok sh g y"
    and "\<forall>x \<in> set xs. agree h h' (sh_refs sh h x)" and "\<forall>y \<in> set ys. agree g g' (sh_refs sh g y)"
  shows "list_all2 (\<lambda>x y. sh_eq sh h' x g' y) xs ys = list_all2 (\<lambda>x y. sh_eq sh h x g y) xs ys"
  using assms by (intro list.rel_cong refl eq_local) auto

end

text \<open>
  The contract of a copy: it only adds to the memory, and its result is deeply equal to the original and reaches nothing that
  was there before.
\<close>

locale deep_copier = local_shape sh for sh :: "('c, 'a) shape" +
  fixes copy :: "('c, 'a) copying"
  assumes copies: "sh_ok sh h x \<Longrightarrow> copy x h = (y, h') \<Longrightarrow> prefix h h' \<and> sh_ok sh h' y \<and> sh_eq sh h x h' y \<and>
      (\<forall>a \<in> sh_refs sh h' y. length h \<le> a)"
begin

text \<open>Writing to memory that the copy reaches is not seen through the original, nor the other way round.\<close>

lemma writes_apart:
  assumes "sh_ok sh h x" and "copy x h = (y, h')"
  shows "sh_refs sh h' x \<inter> sh_refs sh h' y = {}"
    and "a \<in> sh_refs sh h' y \<Longrightarrow> sh_ok sh (h'[a := c]) x \<and> sh_eq sh h x (h'[a := c]) x"
    and "a \<in> sh_refs sh h' x \<Longrightarrow> sh_ok sh (h'[a := c]) y \<and> sh_eq sh h x (h'[a := c]) y"
proof -
  note c = copies [OF assms] and x = grown [OF assms(1)]
  have pre: "prefix h h'" and y: "sh_ok sh h' y" "sh_eq sh h x h' y" "\<forall>a \<in> sh_refs sh h' y. length h \<le> a" using c by simp_all
  have old: "a < length h" if "a \<in> sh_refs sh h' x" for a using refs_allocated [OF assms(1)] x [OF pre] that by blast
  show apart: "sh_refs sh h' x \<inter> sh_refs sh h' y = {}" using y(3) old by fastforce
  {
    assume "a \<in> sh_refs sh h' y"
    with apart have "a \<notin> sh_refs sh h' x" by blast
    then have "agree h (h'[a := c]) (sh_refs sh h x)"
      using agree_grown [OF assms(1) pre] x(2) [OF pre] by (auto simp: agree_def) (metis nth_list_update_neq)
    then show "sh_ok sh (h'[a := c]) x \<and> sh_eq sh h x (h'[a := c]) x"
      using ok_local eq_moved [OF assms(1,1) eq_refl [OF assms(1)] agree_self] assms(1) by blast
  next
    assume "a \<in> sh_refs sh h' x"
    with apart have "a \<notin> sh_refs sh h' y" by blast
    then have "agree h' (h'[a := c]) (sh_refs sh h' y)"
      using refs_allocated [OF y(1)] by (auto simp: agree_def) (metis nth_list_update_neq)
    then show "sh_ok sh (h'[a := c]) y \<and> sh_eq sh h x (h'[a := c]) y"
      using ok_local eq_moved [OF assms(1) y(1,2) agree_self] y(1) assms(1) by blast
  }
qed

end

section \<open>Assigned values\<close>

definition plain :: "('c, 'a) shape" where
  "plain = \<lparr>sh_ok = (\<lambda>h x. True), sh_refs = (\<lambda>h x. {}), sh_eq = (\<lambda>h x g y. x = y)\<rparr>"

definition assign :: "('c, 'a) copying" where
  "assign x h = (x, h)"

lemma plain_simps [simp]: "sh_ok plain h x" "sh_refs plain h x = {}" "sh_eq plain h x g y \<longleftrightarrow> x = y"
  by (simp_all add: plain_def)

interpretation assigned: deep_copier plain assign
  by unfold_locales (auto simp: assign_def)

section \<open>Structs\<close>

text \<open>
  A struct is copied field by field. \<open>and_copy\<close> puts two fields together; \<open>struct\<close> takes the fields with references out of a record
  (\<open>get\<close>) and puts their copies back (\<open>put\<close>); \<open>rest\<close> is what is assigned.
\<close>

definition and_shape :: "('c, 'a) shape \<Rightarrow> ('c, 'b) shape \<Rightarrow> ('c, 'a \<times> 'b) shape" where
  "and_shape S T = \<lparr>sh_ok = (\<lambda>h p. sh_ok S h (fst p) \<and> sh_ok T h (snd p)),
     sh_refs = (\<lambda>h p. sh_refs S h (fst p) \<union> sh_refs T h (snd p)),
     sh_eq = (\<lambda>h p g q. sh_eq S h (fst p) g (fst q) \<and> sh_eq T h (snd p) g (snd q))\<rparr>"

definition and_copy :: "('c, 'a) copying \<Rightarrow> ('c, 'b) copying \<Rightarrow> ('c, 'a \<times> 'b) copying" where
  "and_copy c d = (\<lambda>(x, y) h. let (x', h) = c x h; (y', h) = d y h in ((x', y'), h))"

lemma and_shape_simps [simp]:
  "sh_ok (and_shape S T) h p \<longleftrightarrow> sh_ok S h (fst p) \<and> sh_ok T h (snd p)"
  "sh_refs (and_shape S T) h p = sh_refs S h (fst p) \<union> sh_refs T h (snd p)"
  "sh_eq (and_shape S T) h p g q \<longleftrightarrow> sh_eq S h (fst p) g (fst q) \<and> sh_eq T h (snd p) g (snd q)"
  by (simp_all add: and_shape_def)

lemma local_shape_and:
  assumes "local_shape S" and "local_shape T"
  shows "local_shape (and_shape S T)"
proof (rule local_shape.intro, unfold and_shape_simps agree_Un)
  fix h p a assume "sh_ok S h (fst p) \<and> sh_ok T h (snd p)" "a \<in> sh_refs S h (fst p) \<union> sh_refs T h (snd p)"
  then show "a < length h" using assms [THEN local_shape.refs_allocated] by blast
next
  fix h h' p
  assume "sh_ok S h (fst p) \<and> sh_ok T h (snd p)" "agree h h' (sh_refs S h (fst p)) \<and> agree h h' (sh_refs T h (snd p))"
  then show "sh_ok S h' (fst p) \<and> sh_ok T h' (snd p)"
    "sh_refs S h' (fst p) \<union> sh_refs T h' (snd p) = sh_refs S h (fst p) \<union> sh_refs T h (snd p)"
    using assms [THEN local_shape.ok_local] assms [THEN local_shape.refs_local] by blast+
next
  fix h h' g g' p q
  assume "sh_ok S h (fst p) \<and> sh_ok T h (snd p)" "sh_ok S g (fst q) \<and> sh_ok T g (snd q)"
    "agree h h' (sh_refs S h (fst p)) \<and> agree h h' (sh_refs T h (snd p))"
    "agree g g' (sh_refs S g (fst q)) \<and> agree g g' (sh_refs T g (snd q))"
  then show "(sh_eq S h' (fst p) g' (fst q) \<and> sh_eq T h' (snd p) g' (snd q)) =
      (sh_eq S h (fst p) g (fst q) \<and> sh_eq T h (snd p) g (snd q))"
    using assms [THEN local_shape.eq_local] by blast
next
  fix h p assume "sh_ok S h (fst p) \<and> sh_ok T h (snd p)"
  then show "sh_eq S h (fst p) h (fst p) \<and> sh_eq T h (snd p) h (snd p)" using assms [THEN local_shape.eq_refl] by blast
qed

lemma deep_copier_and:
  assumes "deep_copier S c" and "deep_copier T d"
  shows "deep_copier (and_shape S T) (and_copy c d)"
proof -
  note S = assms(1) [THEN deep_copier.axioms(1)] and T = assms(2) [THEN deep_copier.axioms(1)]
  show ?thesis
  proof (intro deep_copier.intro deep_copier_axioms.intro local_shape_and S T)
    fix h p q h'
    assume ok: "sh_ok (and_shape S T) h p" and run: "and_copy c d p h = (q, h')"
    obtain x y where p: "p = (x, y)" by fastforce
    obtain x' h1 where x: "c x h = (x', h1)" by fastforce
    obtain y' h2 where y: "d y h1 = (y', h2)" by fastforce
    have q: "q = (x', y')" "h' = h2" using run by (simp_all add: p x y and_copy_def)
    have okx: "sh_ok S h x" and oky: "sh_ok T h y" using ok by (simp_all add: p)
    note 1 = deep_copier.copies [OF assms(1) okx x]
    have pre: "prefix h h1" "sh_ok S h1 x'" using 1 by simp_all
    note oky1 = local_shape.grown [OF T oky pre(1)]
    note 2 = deep_copier.copies [OF assms(2) oky1(1) y]
    have pre2: "prefix h1 h2" "sh_ok T h2 y'" "sh_eq T h1 y h2 y'" using 2 by simp_all
    note x' = local_shape.grown [OF S pre(2) pre2(1)]
    have "sh_eq S h x h2 x'"
      using 1 local_shape.eq_moved [OF S okx pre(2) _ local_shape.agree_self [OF S okx] local_shape.agree_grown [OF S pre(2) pre2(1)]] by blast
    moreover have "sh_eq T h y h2 y'"
      by (rule local_shape.eq_back [OF T oky pre(1) pre2(2,3) local_shape.agree_self [OF T pre2(2)]])
    moreover have "length h \<le> length h1" using pre(1) by (rule prefix_length_le)
    ultimately show "prefix h h' \<and> sh_ok (and_shape S T) h' q \<and> sh_eq (and_shape S T) h p h' q \<and>
        (\<forall>a \<in> sh_refs (and_shape S T) h' q. length h \<le> a)"
      using 1 2 x' by (auto simp: p q intro: prefix_order.trans)
  qed
qed

definition struct_shape :: "('s \<Rightarrow> 'f) \<Rightarrow> ('s \<Rightarrow> 'r) \<Rightarrow> ('c, 'f) shape \<Rightarrow> ('c, 's) shape" where
  "struct_shape get rest S = \<lparr>sh_ok = (\<lambda>h s. sh_ok S h (get s)), sh_refs = (\<lambda>h s. sh_refs S h (get s)),
     sh_eq = (\<lambda>h s g t. rest s = rest t \<and> sh_eq S h (get s) g (get t))\<rparr>"

lemma struct_shape_simps [simp]:
  "sh_ok (struct_shape get rest S) h s \<longleftrightarrow> sh_ok S h (get s)"
  "sh_refs (struct_shape get rest S) h s = sh_refs S h (get s)"
  "sh_eq (struct_shape get rest S) h s g t \<longleftrightarrow> rest s = rest t \<and> sh_eq S h (get s) g (get t)"
  by (simp_all add: struct_shape_def)

lemma deep_copier_struct:
  assumes "deep_copier S c"
    and run: "\<And>s h. copy s h = (case c (get s) h of (f, h') \<Rightarrow> (put f s, h'))"
    and put: "\<And>f s. get (put f s) = f" "\<And>f s. rest (put f s) = rest s"
  shows "deep_copier (struct_shape get rest S) copy"
proof -
  note S = assms(1) [THEN deep_copier.axioms(1)]
  have "local_shape (struct_shape get rest S)"
  proof (rule local_shape.intro, unfold struct_shape_simps)
    fix h s a assume "sh_ok S h (get s)" "a \<in> sh_refs S h (get s)"
    then show "a < length h" by (rule local_shape.refs_allocated [OF S])
  next
    fix h h' s assume "sh_ok S h (get s)" "agree h h' (sh_refs S h (get s))"
    then show "sh_ok S h' (get s)" "sh_refs S h' (get s) = sh_refs S h (get s)"
      by (rule local_shape.ok_local [OF S], rule local_shape.refs_local [OF S])
  next
    fix h h' g g' s t
    assume "sh_ok S h (get s)" "sh_ok S g (get t)" "agree h h' (sh_refs S h (get s))" "agree g g' (sh_refs S g (get t))"
    from local_shape.eq_local [OF S this] show "(rest s = rest t \<and> sh_eq S h' (get s) g' (get t)) =
        (rest s = rest t \<and> sh_eq S h (get s) g (get t))" by simp
  next
    fix h s assume "sh_ok S h (get s)"
    then show "rest s = rest s \<and> sh_eq S h (get s) h (get s)" by (simp add: local_shape.eq_refl [OF S])
  qed
  then show ?thesis
    using deep_copier.copies [OF assms(1)]
    by (intro deep_copier.intro deep_copier_axioms.intro) (auto simp: run put split: prod.splits)
qed

section \<open>Slices\<close>

text \<open>\<open>wrap\<close> and \<open>un\<close> are the constructor and the selector of one kind of cell.\<close>

definition kind_of_cell :: "('a list \<Rightarrow> 'c) \<Rightarrow> ('c \<Rightarrow> 'a list option) \<Rightarrow> bool" where
  "kind_of_cell wrap un \<longleftrightarrow> (\<forall>xs. un (wrap xs) = Some xs)"

definition slice_there :: "('c \<Rightarrow> 'a list option) \<Rightarrow> 'c list \<Rightarrow> slice_header \<Rightarrow> bool" where
  "slice_there un h s \<longleftrightarrow> sl_arr s < length h \<and> un (h ! sl_arr s) \<noteq> None \<and> sl_off s + sl_len s \<le> length (array_at un h (sl_arr s))"

definition slice_shape :: "('c \<Rightarrow> 'a list option) \<Rightarrow> ('c, 'a) shape \<Rightarrow> ('c, slice) shape" where
  "slice_shape un S = \<lparr>
     sh_ok = (\<lambda>h s. case s of None \<Rightarrow> True | Some s \<Rightarrow> slice_there un h s \<and> (\<forall>x \<in> set (window un h s). sh_ok S h x)),
     sh_refs = (\<lambda>h s. case s of None \<Rightarrow> {} | Some s \<Rightarrow> insert (sl_arr s) (\<Union>x \<in> set (window un h s). sh_refs S h x)),
     sh_eq = (\<lambda>h s g t. case (s, t) of
         (None, None) \<Rightarrow> True
       | (Some s, Some t) \<Rightarrow> list_all2 (\<lambda>x y. sh_eq S h x g y) (window un h s) (window un g t)
       | _ \<Rightarrow> False)\<rparr>"

text \<open>
  \<open>for i := range *in { (*in)[i].DeepCopyInto(&(*out)[i]) }\<close>: \<open>i\<close> is the next index, \<open>xs\<close> are the elements of the original
  from there on, \<open>a\<close> is the new array.
\<close>

fun fill ::
  "('a list \<Rightarrow> 'c) \<Rightarrow> ('c \<Rightarrow> 'a list option) \<Rightarrow> ('c, 'a) copying \<Rightarrow> nat \<Rightarrow> nat \<Rightarrow> 'a list \<Rightarrow> 'c list \<Rightarrow> 'c list" where
  "fill wrap un copy a i [] h = h"
| "fill wrap un copy a i (x # xs) h =
     (let (y, h) = copy x h
      in fill wrap un copy a (Suc i) xs (h[a := wrap ((array_at un h a)[i := y])]))"

definition copy_slice ::
  "('a list \<Rightarrow> 'c) \<Rightarrow> ('c \<Rightarrow> 'a list option) \<Rightarrow> 'a \<Rightarrow> ('c, 'a) copying \<Rightarrow> ('c, slice) copying" where
  \<comment> \<open>\<open>if in != nil { *out = make([]T, len(*in)); for ... }\<close>\<close>
  "copy_slice wrap un zero copy s h = (case s of
     None \<Rightarrow> (None, h)
   | Some s \<Rightarrow>
       let a = length h; n = sl_len s; xs = window un h s; h = h @ [wrap (replicate n zero)]
       in (Some \<lparr>sl_arr = a, sl_off = 0, sl_len = n\<rparr>, fill wrap un copy a 0 xs h))"

definition copy_elements :: "('a list \<Rightarrow> 'c) \<Rightarrow> ('c \<Rightarrow> 'a list option) \<Rightarrow> 'a \<Rightarrow> ('c, slice) copying" where
  \<comment> \<open>\<open>if in != nil { *out = make([]T, len(*in)); copy(*out, *in) }\<close>\<close>
  "copy_elements wrap un zero s h = (case s of
     None \<Rightarrow> (None, h)
   | Some s \<Rightarrow>
       let a = length h; n = sl_len s; xs = window un h s; h = h @ [wrap (replicate n zero)]
       in (Some \<lparr>sl_arr = a, sl_off = 0, sl_len = n\<rparr>, h[a := wrap xs]))"

lemma slice_shape_simps [simp]:
  "sh_ok (slice_shape un S) h None" "sh_refs (slice_shape un S) h None = {}"
  "sh_ok (slice_shape un S) h (Some s) \<longleftrightarrow> slice_there un h s \<and> (\<forall>x \<in> set (window un h s). sh_ok S h x)"
  "sh_refs (slice_shape un S) h (Some s) = insert (sl_arr s) (\<Union>x \<in> set (window un h s). sh_refs S h x)"
  "sh_eq (slice_shape un S) h None g None"
  "\<not> sh_eq (slice_shape un S) h None g (Some t)" "\<not> sh_eq (slice_shape un S) h (Some s) g None"
  "sh_eq (slice_shape un S) h (Some s) g (Some t) \<longleftrightarrow> list_all2 (\<lambda>x y. sh_eq S h x g y) (window un h s) (window un g t)"
  by (simp_all add: slice_shape_def)

lemma slice_eq_nil [simp]: "sh_eq (slice_shape un S) h s g None \<longleftrightarrow> s = None"
  by (cases s) simp_all

lemma same_cell:
  assumes "h' ! sl_arr s = h ! sl_arr s" and "sl_arr s < length h'"
  shows "window un h' s = window un h s" and "slice_there un h s \<Longrightarrow> slice_there un h' s"
  using assms by (simp_all add: window_def slice_there_def array_at_def)

lemma agree_UN [simp]: "agree h h' (\<Union>x \<in> X. f x) \<longleftrightarrow> (\<forall>x \<in> X. agree h h' (f x))"
  by (auto simp: agree_def)

lemma local_shape_slice:
  assumes S: "local_shape S"
  shows "local_shape (slice_shape un S)"
proof (rule local_shape.intro)
  fix h s a assume "sh_ok (slice_shape un S) h s" "a \<in> sh_refs (slice_shape un S) h s"
  then show "a < length h" using local_shape.refs_allocated [OF S] by (cases s) (auto simp: slice_there_def)
next
  fix h h' s assume ok: "sh_ok (slice_shape un S) h s" and agree: "agree h h' (sh_refs (slice_shape un S) h s)"
  have "sh_ok (slice_shape un S) h' s \<and> sh_refs (slice_shape un S) h' s = sh_refs (slice_shape un S) h s"
  proof (cases s)
    case (Some sl)
    have cell: "h' ! sl_arr sl = h ! sl_arr sl" "sl_arr sl < length h'"
      and elems: "\<forall>x \<in> set (window un h sl). sh_ok S h x \<and> agree h h' (sh_refs S h x)"
      using ok agree by (simp_all add: Some)
    have "sh_ok S h' x \<and> sh_refs S h' x = sh_refs S h x" if "x \<in> set (window un h sl)" for x
      using elems that local_shape.ok_local [OF S] local_shape.refs_local [OF S] by metis
    then show ?thesis using ok same_cell [OF cell, of un] by (simp add: Some)
  qed simp
  then show "sh_ok (slice_shape un S) h' s" "sh_refs (slice_shape un S) h' s = sh_refs (slice_shape un S) h s" by simp_all
next
  fix h h' g g' s t
  assume "sh_ok (slice_shape un S) h s" "sh_ok (slice_shape un S) g t" "agree h h' (sh_refs (slice_shape un S) h s)"
    "agree g g' (sh_refs (slice_shape un S) g t)"
  then show "sh_eq (slice_shape un S) h' s g' t = sh_eq (slice_shape un S) h s g t"
    by (cases s; cases t) (simp_all add: same_cell [of h' _ h] same_cell [of g' _ g] local_shape.list_eq_local [OF S])
next
  fix h s assume "sh_ok (slice_shape un S) h s"
  then show "sh_eq (slice_shape un S) h s h s"
    using local_shape.eq_refl [OF S] by (cases s) (auto simp: list_all2_same)
qed

lemma fill_copies:
  assumes "deep_copier S c" and kind: "kind_of_cell wrap un"
  shows "\<forall>x \<in> set xs. sh_ok S h0 x \<Longrightarrow> prefix h0 h \<Longrightarrow> length h0 \<le> a \<Longrightarrow> a < length h \<Longrightarrow> un (h ! a) = Some ys \<Longrightarrow>
    length ys = i + length xs \<Longrightarrow> fill wrap un c a i xs h = h' \<Longrightarrow>
    length h \<le> length h' \<and> (\<forall>b < length h. b \<noteq> a \<longrightarrow> h' ! b = h ! b) \<and>
    (\<exists>zs. un (h' ! a) = Some (take i ys @ zs) \<and>
      list_all2 (\<lambda>x z. sh_ok S h' z \<and> sh_eq S h0 x h' z \<and> (\<forall>b \<in> sh_refs S h' z. length h0 \<le> b \<and> b \<noteq> a)) xs zs)"
proof (induction xs arbitrary: h i ys)
  case (Cons x xs)
  note un = kind [unfolded kind_of_cell_def, rule_format]
  note S = assms(1) [THEN deep_copier.axioms(1)]
  obtain y h1 where run: "c x h = (y, h1)" by fastforce
  let ?ys = "ys[i := y]" and ?h = "h1[a := wrap (ys[i := y])]"
  have x: "sh_ok S h0 x" using Cons.prems(1) by simp
  note copied = deep_copier.copies [OF assms(1) local_shape.grown(1) [OF S x Cons.prems(2)] run]
  have grown: "prefix h h1" "sh_ok S h1 y" "sh_eq S h x h1 y" and fresh: "\<forall>b \<in> sh_refs S h1 y. length h \<le> b" using copied by simp_all
  have a: "a < length h1" "h1 ! a = h ! a"
    using Cons.prems(4) grown(1) by (auto simp: prefix_nth dest: prefix_length_le)
  have "prefix h0 h1" using Cons.prems(2) grown(1) by (rule prefix_order.trans)
  then have pre: "prefix h0 ?h"
    using Cons.prems(3) by (intro prefix_of_nth) (auto simp: prefix_nth dest: prefix_length_le)
  have rest: "fill wrap un c a (Suc i) xs ?h = h'"
    using Cons.prems(5,7) a by (simp add: run array_at_def)
  from Cons.IH [OF _ pre Cons.prems(3) _ _ _ rest, of ?ys] Cons.prems(1,6) a(1) obtain zs where
    old: "length h1 \<le> length h'" "\<forall>b < length h1. b \<noteq> a \<longrightarrow> h' ! b = h1 ! b" and
    zs: "un (h' ! a) = Some (take (Suc i) ?ys @ zs)"
      "list_all2 (\<lambda>x z. sh_ok S h' z \<and> sh_eq S h0 x h' z \<and> (\<forall>b \<in> sh_refs S h' z. length h0 \<le> b \<and> b \<noteq> a)) xs zs"
    by (auto simp: un)
  have agree: "agree h1 h' (sh_refs S h1 y)"
    using old fresh local_shape.refs_allocated [OF S grown(2)] Cons.prems(4) by (fastforce simp: agree_def)
  have y: "sh_ok S h' y" "sh_refs S h' y = sh_refs S h1 y" "sh_eq S h0 x h' y"
    using local_shape.ok_local [OF S grown(2) agree] local_shape.refs_local [OF S grown(2) agree]
      local_shape.eq_back [OF S x Cons.prems(2) grown(2,3) agree] by simp_all
  have far: "length h0 \<le> b \<and> b \<noteq> a" if "b \<in> sh_refs S h' y" for b
    using that fresh Cons.prems(3,4) by (auto simp: y(2))
  have "take (Suc i) ?ys @ zs = take i ys @ y # zs" using Cons.prems(6) by (simp add: take_Suc_conv_app_nth)
  moreover have "h' ! b = h ! b" if "b < length h" "b \<noteq> a" for b
    using that old(2) prefix_nth [OF grown(1)] prefix_length_le [OF grown(1)] by auto
  moreover have "length h \<le> length h'" using old(1) grown(1) by (auto dest: prefix_length_le)
  ultimately show ?case using zs y far by auto
qed simp

lemma deep_copier_slice:
  assumes "deep_copier S c" and kind: "kind_of_cell wrap un"
  shows "deep_copier (slice_shape un S) (copy_slice wrap un zero c)"
proof (intro deep_copier.intro deep_copier_axioms.intro local_shape_slice deep_copier.axioms(1) [OF assms(1)])
  fix h s t h'
  assume ok: "sh_ok (slice_shape un S) h s" and run: "copy_slice wrap un zero c s h = (t, h')"
  note un = kind [unfolded kind_of_cell_def, rule_format]
  show "prefix h h' \<and> sh_ok (slice_shape un S) h' t \<and> sh_eq (slice_shape un S) h s h' t \<and>
    (\<forall>a \<in> sh_refs (slice_shape un S) h' t. length h \<le> a)"
  proof (cases s)
    case (Some sl)
    let ?a = "length h" and ?xs = "window un h sl" and ?h = "h @ [wrap (replicate (sl_len sl) zero)]"
    have len: "length ?xs = sl_len sl" using ok by (auto simp: Some slice_there_def window_def)
    have t: "t = Some \<lparr>sl_arr = ?a, sl_off = 0, sl_len = sl_len sl\<rparr>" and fill: "fill wrap un c ?a 0 ?xs ?h = h'"
      using run by (simp_all add: Some copy_slice_def Let_def)
    from fill_copies [OF assms, of ?xs h ?h ?a "replicate (sl_len sl) zero" 0, OF _ _ _ _ _ _ fill] ok
    obtain zs where mem: "?a < length h'" "\<forall>b < ?a. h' ! b = h ! b" and zs: "un (h' ! ?a) = Some zs"
      and all: "list_all2 (\<lambda>x z. sh_ok S h' z \<and> sh_eq S h x h' z \<and> (\<forall>b \<in> sh_refs S h' z. ?a \<le> b \<and> b \<noteq> ?a)) ?xs zs"
      by (auto simp: Some len un nth_append)
    have win: "window un h' \<lparr>sl_arr = ?a, sl_off = 0, sl_len = sl_len sl\<rparr> = zs"
      using list_all2_lengthD [OF all] by (simp add: window_def array_at_def zs len)
    have "prefix h h'" using mem by (intro prefix_of_nth) auto
    moreover have "slice_there un h' \<lparr>sl_arr = ?a, sl_off = 0, sl_len = sl_len sl\<rparr>"
      using mem zs list_all2_lengthD [OF all] by (simp add: slice_there_def array_at_def len)
    ultimately show ?thesis
      using all by (auto simp: Some t win list_all2_conv_all_nth in_set_conv_nth)
  qed (use run in \<open>simp add: copy_slice_def\<close>)
qed

lemma fill_assign:
  assumes kind: "kind_of_cell wrap un"
  shows "a < length h \<Longrightarrow> un (h ! a) = Some ys \<Longrightarrow> length ys = i + length xs \<Longrightarrow>
    fill wrap un assign a i xs h = (if xs = [] then h else h[a := wrap (take i ys @ xs)])"
proof (induction xs arbitrary: h i ys)
  case (Cons x xs)
  have un: "un (wrap zs) = Some zs" for zs using kind by (simp add: kind_of_cell_def)
  have "take (Suc i) (ys[i := x]) = take i ys @ [x]" using Cons.prems(3) by (simp add: take_Suc_conv_app_nth)
  with Cons.prems Cons.IH [of "h[a := wrap (ys[i := x])]" "ys[i := x]" "Suc i"] show ?case
    by (auto simp: assign_def array_at_def un)
qed simp

lemma copy_elements_eq:
  assumes kind: "kind_of_cell wrap un" and "sh_ok (slice_shape un S) h s"
  shows "copy_elements wrap un zero s h = copy_slice wrap un zero assign s h"
proof (cases s)
  case (Some sl)
  let ?zs = "replicate (sl_len sl) zero"
  have un: "un (wrap zs) = Some zs" for zs using kind by (simp add: kind_of_cell_def)
  have len: "length (window un h sl) = sl_len sl" using assms(2) by (auto simp: Some slice_there_def window_def)
  have "fill wrap un assign (length h) 0 (window un h sl) (h @ [wrap ?zs]) = h @ [wrap (window un h sl)]"
    using fill_assign [OF kind, of "length h" "h @ [wrap ?zs]" ?zs 0 "window un h sl"] len
    by (cases "window un h sl = []") (simp_all add: un)
  then show ?thesis by (simp add: Some copy_elements_def copy_slice_def Let_def)
qed (simp add: copy_elements_def copy_slice_def)

lemma deep_copier_elements:
  assumes kind: "kind_of_cell wrap un"
  shows "deep_copier (slice_shape un plain) (copy_elements wrap un zero)"
proof -
  note dc = deep_copier_slice [OF assigned.deep_copier_axioms kind, of zero]
  show ?thesis
    using deep_copier.copies [OF dc]
    by (intro deep_copier.intro deep_copier_axioms.intro deep_copier.axioms(1) [OF dc]) (simp add: copy_elements_eq [OF kind])
qed

section \<open>Pointers\<close>

text \<open>A pointer sees a window of length one.\<close>

definition as_slice :: "ptr \<Rightarrow> slice" where
  "as_slice p = map_option (\<lambda>(a, i). \<lparr>sl_arr = a, sl_off = i, sl_len = Suc 0\<rparr>) p"

definition ptr_shape :: "('c \<Rightarrow> 'a list option) \<Rightarrow> ('c, 'a) shape \<Rightarrow> ('c, ptr) shape" where
  "ptr_shape un S = \<lparr>sh_ok = (\<lambda>h p. sh_ok (slice_shape un S) h (as_slice p)),
     sh_refs = (\<lambda>h p. sh_refs (slice_shape un S) h (as_slice p)),
     sh_eq = (\<lambda>h p g q. sh_eq (slice_shape un S) h (as_slice p) g (as_slice q))\<rparr>"

definition new_copy :: "('a list \<Rightarrow> 'c) \<Rightarrow> 'a \<Rightarrow> ('c, 'a) copying \<Rightarrow> 'a \<Rightarrow> 'c list \<Rightarrow> (nat \<times> nat) \<times> 'c list" where
  \<comment> \<open>\<open>out := new(T); in.DeepCopyInto(out)\<close>\<close>
  "new_copy wrap zero copy x h =
     (let a = length h; (y, h) = copy x (h @ [wrap [zero]]) in ((a, 0), h[a := wrap [y]]))"

definition copy_ptr ::
  "('a list \<Rightarrow> 'c) \<Rightarrow> ('c \<Rightarrow> 'a list option) \<Rightarrow> 'a \<Rightarrow> ('c, 'a) copying \<Rightarrow> ('c, ptr) copying" where
  "copy_ptr wrap un zero copy p h = (case p of
     None \<Rightarrow> (None, h)
   | Some p \<Rightarrow> case new_copy wrap zero copy (deref un h p) h of (q, h) \<Rightarrow> (Some q, h))"

definition through_ptr ::
  "('a list \<Rightarrow> 'c) \<Rightarrow> ('c \<Rightarrow> 'a list option) \<Rightarrow> 'a \<Rightarrow> ('c, 'a) copying \<Rightarrow> ('c, 'a) copying" where
  \<comment> \<open>\<open>*val.DeepCopy()\<close>\<close>
  "through_ptr wrap un zero copy x h = (case new_copy wrap zero copy x h of (p, h) \<Rightarrow> (deref un h p, h))"

lemma ptr_shape_simps [simp]:
  "sh_ok (ptr_shape un S) h p \<longleftrightarrow> sh_ok (slice_shape un S) h (as_slice p)"
  "sh_refs (ptr_shape un S) h p = sh_refs (slice_shape un S) h (as_slice p)"
  "sh_eq (ptr_shape un S) h p g q \<longleftrightarrow> sh_eq (slice_shape un S) h (as_slice p) g (as_slice q)"
  by (simp_all add: ptr_shape_def)

lemma window_one:
  assumes "slice_there un h \<lparr>sl_arr = a, sl_off = i, sl_len = Suc 0\<rparr>"
  shows "window un h \<lparr>sl_arr = a, sl_off = i, sl_len = Suc 0\<rparr> = [deref un h (a, i)]"
  using assms by (simp add: slice_there_def window_def deref_def take_Suc_conv_app_nth)

lemma local_shape_ptr:
  assumes "local_shape S"
  shows "local_shape (ptr_shape un S)"
proof -
  note S = local_shape_slice [OF assms, of un]
  show ?thesis
    by (rule local_shape.intro; unfold ptr_shape_simps)
      (fact local_shape.refs_allocated [OF S] local_shape.ok_local [OF S] local_shape.refs_local [OF S] local_shape.eq_local [OF S]
        local_shape.eq_refl [OF S])+
qed

text \<open>What \<open>new_copy\<close> leaves behind: one new cell with the copy in it, and what the copy reaches.\<close>

lemma new_copy_copies:
  assumes "deep_copier S c" and kind: "kind_of_cell wrap un" and "sh_ok S h x" and "new_copy wrap zero c x h = (p, h')"
  obtains y where "p = (length h, 0)" and "length h < length h'" and "h' ! length h = wrap [y]" and "prefix h h'" and "sh_ok S h' y"
    and "sh_eq S h x h' y" and "\<forall>a \<in> sh_refs S h' y. length h < a"
proof -
  note S = assms(1) [THEN deep_copier.axioms(1)]
  obtain y h1 where run: "c x (h @ [wrap [zero]]) = (y, h1)" by fastforce
  have p: "p = (length h, 0)" "h' = h1[length h := wrap [y]]" using assms(4) by (simp_all add: new_copy_def run Let_def)
  have start: "prefix h (h @ [wrap [zero]])" by simp
  note copied = deep_copier.copies [OF assms(1) local_shape.grown(1) [OF S assms(3) start] run]
  have c: "prefix (h @ [wrap [zero]]) h1" "sh_ok S h1 y" "sh_eq S (h @ [wrap [zero]]) x h1 y" "\<forall>a \<in> sh_refs S h1 y. length h < a"
    using copied by auto
  have len: "length h < length h1" using prefix_length_le [OF c(1)] by simp
  have agree: "agree h1 h' (sh_refs S h1 y)"
    using c(4) local_shape.refs_allocated [OF S c(2)] by (auto simp: agree_def p)
  have "prefix h h'"
    using len prefix_nth [OF c(1)] by (intro prefix_of_nth) (auto simp: p nth_append)
  with p len c(4) local_shape.ok_local [OF S c(2) agree] local_shape.refs_local [OF S c(2) agree]
    local_shape.eq_back [OF S assms(3) start c(2,3) agree] show thesis
    by (intro that) auto
qed

lemma deep_copier_ptr:
  assumes "deep_copier S c" and kind: "kind_of_cell wrap un"
  shows "deep_copier (ptr_shape un S) (copy_ptr wrap un zero c)"
proof (intro deep_copier.intro deep_copier_axioms.intro local_shape_ptr deep_copier.axioms(1) [OF assms(1)])
  fix h p q h'
  assume ok: "sh_ok (ptr_shape un S) h p" and run: "copy_ptr wrap un zero c p h = (q, h')"
  show "prefix h h' \<and> sh_ok (ptr_shape un S) h' q \<and> sh_eq (ptr_shape un S) h p h' q \<and>
    (\<forall>a \<in> sh_refs (ptr_shape un S) h' q. length h \<le> a)"
  proof (cases p)
    case (Some ai)
    obtain a i where p: "p = Some (a, i)" using Some by (cases ai) simp
    obtain r where new: "new_copy wrap zero c (deref un h (a, i)) h = (r, h')" and q: "q = Some r"
      using run by (auto simp: p copy_ptr_def split: prod.splits)
    have there: "slice_there un h \<lparr>sl_arr = a, sl_off = i, sl_len = Suc 0\<rparr>" using ok by (simp add: p as_slice_def)
    have x: "sh_ok S h (deref un h (a, i))" using ok by (simp add: p as_slice_def window_one [OF there])
    obtain y where y: "r = (length h, 0)" "length h < length h'" "h' ! length h = wrap [y]" "prefix h h'" "sh_ok S h' y"
      "sh_eq S h (deref un h (a, i)) h' y" "\<forall>a \<in> sh_refs S h' y. length h < a" by (rule new_copy_copies [OF assms x new])
    have there': "slice_there un h' \<lparr>sl_arr = length h, sl_off = 0, sl_len = Suc 0\<rparr>" "deref un h' (length h, 0) = y"
      using y(2,3) kind by (simp_all add: slice_there_def array_at_def deref_def kind_of_cell_def)
    show ?thesis using y there there' by (auto simp: p q as_slice_def window_one)
  qed (use run in \<open>simp add: copy_ptr_def as_slice_def\<close>)
qed

lemma deep_copier_through_ptr:
  assumes "deep_copier S c" and kind: "kind_of_cell wrap un"
  shows "deep_copier S (through_ptr wrap un zero c)"
proof (intro deep_copier.intro deep_copier_axioms.intro deep_copier.axioms(1) [OF assms(1)])
  fix h x z h'
  assume ok: "sh_ok S h x" and run: "through_ptr wrap un zero c x h = (z, h')"
  obtain r where new: "new_copy wrap zero c x h = (r, h')" and z: "z = deref un h' r"
    using run by (auto simp: through_ptr_def split: prod.splits)
  obtain y where y: "r = (length h, 0)" "length h < length h'" "h' ! length h = wrap [y]" "prefix h h'" "sh_ok S h' y"
    "sh_eq S h x h' y" "\<forall>a \<in> sh_refs S h' y. length h < a" by (rule new_copy_copies [OF assms ok new])
  have "z = y" using y(1,3) kind by (simp add: z deref_def array_at_def kind_of_cell_def)
  with y show "prefix h h' \<and> sh_ok S h' z \<and> sh_eq S h x h' z \<and> (\<forall>a \<in> sh_refs S h' z. length h \<le> a)" by auto
qed

section \<open>Maps\<close>

definition map_at :: "('c \<Rightarrow> (string \<times> 'a) list option) \<Rightarrow> 'c list \<Rightarrow> nat \<Rightarrow> (string \<times> 'a) list" where
  "map_at un h a = (case un (h ! a) of Some m \<Rightarrow> m | None \<Rightarrow> [])"

definition map_shape :: "('c \<Rightarrow> (string \<times> 'a) list option) \<Rightarrow> ('c, 'a) shape \<Rightarrow> ('c, mapref) shape" where
  "map_shape un S = \<lparr>
     sh_ok = (\<lambda>h m. case m of None \<Rightarrow> True
       | Some a \<Rightarrow> a < length h \<and> un (h ! a) \<noteq> None \<and> distinct (map fst (map_at un h a)) \<and> (\<forall>v \<in> snd ` set (map_at un h a). sh_ok S h v)),
     sh_refs = (\<lambda>h m. case m of None \<Rightarrow> {} | Some a \<Rightarrow> insert a (\<Union>v \<in> snd ` set (map_at un h a). sh_refs S h v)),
     sh_eq = (\<lambda>h m g n. case (m, n) of
         (None, None) \<Rightarrow> True
       | (Some a, Some b) \<Rightarrow> length (map_at un h a) = length (map_at un g b) \<and>
           (\<forall>(k, v) \<in> set (map_at un h a). case map_of (map_at un g b) k of Some w \<Rightarrow> sh_eq S h v g w | None \<Rightarrow> False)
       | _ \<Rightarrow> False)\<rparr>"

text \<open>
  \<open>for key, val := range *in { (*out)[key] = val }\<close> with the copy of \<open>val\<close>. The order in which the keys are visited is not
  specified: \<open>ord n\<close> chooses it for the loop that starts with a memory of \<open>n\<close> cells.
\<close>

fun put_keys ::
  "((string \<times> 'a) list \<Rightarrow> 'c) \<Rightarrow> ('c \<Rightarrow> (string \<times> 'a) list option) \<Rightarrow> ('c, 'a) copying \<Rightarrow> (string \<times> 'a) list \<Rightarrow> nat
   \<Rightarrow> string list \<Rightarrow> 'c list \<Rightarrow> 'c list" where
  "put_keys wrap un copy m a [] h = h"
| "put_keys wrap un copy m a (k # ks) h =
     (case map_of m k of
        None \<Rightarrow> put_keys wrap un copy m a ks h
      | Some v \<Rightarrow> let (y, h) = copy v h in put_keys wrap un copy m a ks (h[a := wrap (AList.update k y (map_at un h a))]))"

definition copy_map ::
  "(nat \<Rightarrow> string list \<Rightarrow> string list) \<Rightarrow> ((string \<times> 'a) list \<Rightarrow> 'c) \<Rightarrow> ('c \<Rightarrow> (string \<times> 'a) list option) \<Rightarrow> ('c, 'a) copying
   \<Rightarrow> ('c, mapref) copying" where
  \<comment> \<open>\<open>if in != nil { *out = make(map[string]T, len(*in)); for ... }\<close>\<close>
  "copy_map ord wrap un copy m h = (case m of
     None \<Rightarrow> (None, h)
   | Some b \<Rightarrow>
       let a = length h; m = map_at un h b; h = h @ [wrap []]
       in (Some a, put_keys wrap un copy m a (ord (length h) (map fst m)) h))"

definition visits_all :: "(nat \<Rightarrow> string list \<Rightarrow> string list) \<Rightarrow> bool" where
  "visits_all ord \<longleftrightarrow> (\<forall>n ks. distinct ks \<longrightarrow> distinct (ord n ks) \<and> set (ord n ks) = set ks)"

lemma map_shape_simps [simp]:
  "sh_ok (map_shape un S) h None" "sh_refs (map_shape un S) h None = {}"
  "sh_ok (map_shape un S) h (Some a) \<longleftrightarrow> a < length h \<and> un (h ! a) \<noteq> None \<and> distinct (map fst (map_at un h a)) \<and>
     (\<forall>v \<in> snd ` set (map_at un h a). sh_ok S h v)"
  "sh_refs (map_shape un S) h (Some a) = insert a (\<Union>v \<in> snd ` set (map_at un h a). sh_refs S h v)"
  "sh_eq (map_shape un S) h None g None"
  "\<not> sh_eq (map_shape un S) h None g (Some b)" "\<not> sh_eq (map_shape un S) h (Some a) g None"
  "sh_eq (map_shape un S) h (Some a) g (Some b) \<longleftrightarrow> length (map_at un h a) = length (map_at un g b) \<and>
     (\<forall>(k, v) \<in> set (map_at un h a). case map_of (map_at un g b) k of Some w \<Rightarrow> sh_eq S h v g w | None \<Rightarrow> False)"
  by (simp_all add: map_shape_def)

lemma local_shape_map:
  assumes S: "local_shape S"
  shows "local_shape (map_shape un S)"
proof (rule local_shape.intro)
  fix h m a assume "sh_ok (map_shape un S) h m" "a \<in> sh_refs (map_shape un S) h m"
  then show "a < length h" using local_shape.refs_allocated [OF S] by (cases m) auto
next
  fix h h' m assume ok: "sh_ok (map_shape un S) h m" and agree: "agree h h' (sh_refs (map_shape un S) h m)"
  have "sh_ok (map_shape un S) h' m \<and> sh_refs (map_shape un S) h' m = sh_refs (map_shape un S) h m"
  proof (cases m)
    case (Some a)
    have cell: "h' ! a = h ! a" "a < length h'"
      and vals: "\<forall>v \<in> snd ` set (map_at un h a). sh_ok S h v \<and> agree h h' (sh_refs S h v)"
      using ok agree by (simp_all add: Some)
    have "sh_ok S h' v \<and> sh_refs S h' v = sh_refs S h v" if "v \<in> snd ` set (map_at un h a)" for v
      using vals that local_shape.ok_local [OF S] local_shape.refs_local [OF S] by metis
    moreover have "map_at un h' a = map_at un h a" using cell by (simp add: map_at_def)
    ultimately show ?thesis using ok cell by (simp add: Some)
  qed simp
  then show "sh_ok (map_shape un S) h' m" "sh_refs (map_shape un S) h' m = sh_refs (map_shape un S) h m" by simp_all
next
  fix h h' g g' m n
  assume ok: "sh_ok (map_shape un S) h m" "sh_ok (map_shape un S) g n" and agree: "agree h h' (sh_refs (map_shape un S) h m)"
    "agree g g' (sh_refs (map_shape un S) g n)"
  show "sh_eq (map_shape un S) h' m g' n = sh_eq (map_shape un S) h m g n"
  proof (cases m; cases n)
    fix a b assume mn: "m = Some a" "n = Some b"
    have at: "map_at un h' a = map_at un h a" "map_at un g' b = map_at un g b"
      using agree by (simp_all add: mn map_at_def)
    have "sh_eq S h' v g' w = sh_eq S h v g w" if "(k, v) \<in> set (map_at un h a)" "map_of (map_at un g b) k = Some w" for k v w
    proof -
      have "v \<in> snd ` set (map_at un h a)" "w \<in> snd ` set (map_at un g b)"
        using that map_of_SomeD by force+
      with ok agree show ?thesis by (intro local_shape.eq_local [OF S]) (auto simp: mn)
    qed
    then show ?thesis by (auto simp: mn at split: option.splits)
  qed simp_all
next
  fix h m assume "sh_ok (map_shape un S) h m"
  then show "sh_eq (map_shape un S) h m h m"
    using local_shape.eq_refl [OF S] by (cases m) (force simp: split_beta)+
qed

lemma put_keys_copies:
  assumes "deep_copier S c" and kind: "kind_of_cell wrap un" and ok: "\<forall>v \<in> snd ` set m. sh_ok S h0 v"
  shows "prefix h0 h \<Longrightarrow> length h0 \<le> a \<Longrightarrow> a < length h \<Longrightarrow> un (h ! a) = Some cur \<Longrightarrow> distinct (map fst cur) \<Longrightarrow>
    distinct ks \<Longrightarrow> set ks \<subseteq> fst ` set m \<Longrightarrow> put_keys wrap un c m a ks h = h' \<Longrightarrow>
    length h \<le> length h' \<and> (\<forall>b < length h. b \<noteq> a \<longrightarrow> h' ! b = h ! b) \<and>
    (\<exists>m'. un (h' ! a) = Some m' \<and> distinct (map fst m') \<and> (\<forall>k. k \<notin> set ks \<longrightarrow> map_of m' k = map_of cur k) \<and>
      (\<forall>k \<in> set ks. \<exists>v z. map_of m k = Some v \<and> map_of m' k = Some z \<and> sh_ok S h' z \<and> sh_eq S h0 v h' z \<and>
        (\<forall>b \<in> sh_refs S h' z. length h0 \<le> b)))"
proof (induction ks arbitrary: h cur)
  case (Cons k ks)
  note S = assms(1) [THEN deep_copier.axioms(1)]
  have un: "un (wrap zs) = Some zs" for zs using kind by (simp add: kind_of_cell_def)
  obtain v where v: "map_of m k = Some v" using Cons.prems(7) by (cases "map_of m k") (auto simp: map_of_eq_None_iff)
  then have okv: "sh_ok S h0 v" using ok by (force dest: map_of_SomeD)
  obtain y h1 where run: "c v h = (y, h1)" by fastforce
  let ?cur = "AList.update k y cur" and ?h = "h1[a := wrap (AList.update k y cur)]"
  note copied = deep_copier.copies [OF assms(1) local_shape.grown(1) [OF S okv Cons.prems(1)] run]
  have grown: "prefix h h1" "sh_ok S h1 y" "sh_eq S h v h1 y" and fresh: "\<forall>b \<in> sh_refs S h1 y. length h \<le> b" using copied by simp_all
  note len = prefix_length_le [OF grown(1)] and nth = prefix_nth [OF grown(1)]
  have a: "a < length h1" "h1 ! a = h ! a" using Cons.prems(3) len nth by simp_all
  have "prefix h0 h1" using Cons.prems(1) grown(1) by (rule prefix_order.trans)
  then have pre: "prefix h0 ?h"
    using Cons.prems(2) by (intro prefix_of_nth) (auto simp: prefix_nth dest: prefix_length_le)
  have rest: "put_keys wrap un c m a ks ?h = h'"
    using Cons.prems(4,8) a by (simp add: v run map_at_def)
  have cur: "?h ! a = wrap ?cur" "distinct (map fst ?cur)" using a Cons.prems(5) by (simp_all add: distinct_update)
  from Cons.IH [OF pre Cons.prems(2) _ _ cur(2) _ _ rest] Cons.prems(6,7) a(1) obtain m' where
    old: "length h1 \<le> length h'" "\<forall>b < length h1. b \<noteq> a \<longrightarrow> h' ! b = h1 ! b" and
    m': "un (h' ! a) = Some m'" "distinct (map fst m')" "\<forall>k. k \<notin> set ks \<longrightarrow> map_of m' k = map_of ?cur k" and
    good: "\<forall>k \<in> set ks. \<exists>v z. map_of m k = Some v \<and> map_of m' k = Some z \<and> sh_ok S h' z \<and> sh_eq S h0 v h' z \<and>
        (\<forall>b \<in> sh_refs S h' z. length h0 \<le> b)"
    by (auto simp: un cur(1))
  have agree: "agree h1 h' (sh_refs S h1 y)"
    using old fresh local_shape.refs_allocated [OF S grown(2)] Cons.prems(3) by (fastforce simp: agree_def)
  have y: "sh_ok S h' y" "sh_refs S h' y = sh_refs S h1 y" "sh_eq S h0 v h' y"
    using local_shape.ok_local [OF S grown(2) agree] local_shape.refs_local [OF S grown(2) agree]
      local_shape.eq_back [OF S okv Cons.prems(1) grown(2,3) agree] by simp_all
  have here: "map_of m' k = Some y" "\<forall>b \<in> sh_refs S h' y. length h0 \<le> b"
    using m'(3) Cons.prems(6) fresh prefix_length_le [OF Cons.prems(1)] by (auto simp: update_conv' y(2))
  have "h' ! b = h ! b" if "b < length h" "b \<noteq> a" for b using that old(2) nth len by auto
  moreover have "\<forall>j. j \<notin> set (k # ks) \<longrightarrow> map_of m' j = map_of cur j" using m'(3) by (simp add: update_conv')
  moreover have "length h \<le> length h'" using old(1) len by simp
  ultimately show ?case using m'(1,2) good v y here by auto
qed (simp add: kind_of_cell_def)

lemma map_copied_eq:
  assumes "distinct (map fst m)" and "distinct (map fst m')" and "set ks = fst ` set m"
    and "\<forall>k. k \<notin> set ks \<longrightarrow> map_of m' k = None" and "\<forall>k \<in> set ks. \<exists>v z. map_of m k = Some v \<and> map_of m' k = Some z \<and> P v z"
  shows "length m = length m'" and "\<forall>(k, v) \<in> set m. case map_of m' k of Some z \<Rightarrow> P v z | None \<Rightarrow> False"
    and "\<forall>z \<in> snd ` set m'. \<exists>v \<in> snd ` set m. P v z"
proof -
  have "k \<in> fst ` set m' \<longleftrightarrow> k \<in> set ks" for k
    using assms(4,5) map_of_eq_None_iff [of m' k] by (cases "k \<in> set ks") fastforce+
  then have dom: "fst ` set m' = set ks" by blast
  have "length m = card (fst ` set m)" "length m' = card (fst ` set m')"
    using distinct_card [OF assms(1)] distinct_card [OF assms(2)] by simp_all
  then show "length m = length m'" by (simp add: dom assms(3))
  show "\<forall>(k, v) \<in> set m. case map_of m' k of Some z \<Rightarrow> P v z | None \<Rightarrow> False"
  proof clarify
    fix k v assume kv: "(k, v) \<in> set m"
    then have "k \<in> set ks" "map_of m k = Some v" using assms(1,3) by (force, simp)
    with assms(5) obtain z where "map_of m' k = Some z" "P v z" by auto
    then show "case map_of m' k of Some z \<Rightarrow> P v z | None \<Rightarrow> False" by simp
  qed
  show "\<forall>z \<in> snd ` set m'. \<exists>v \<in> snd ` set m. P v z"
  proof
    fix z assume "z \<in> snd ` set m'"
    then obtain k where k: "(k, z) \<in> set m'" by auto
    then have "k \<in> set ks" using dom by force
    with assms(2,5) k obtain v where "map_of m k = Some v" "P v z" by (metis map_of_is_SomeI option.inject)
    then show "\<exists>v \<in> snd ` set m. P v z" by (force dest: map_of_SomeD)
  qed
qed

lemma deep_copier_map:
  assumes "deep_copier S c" and kind: "kind_of_cell wrap un" and ord: "visits_all ord"
  shows "deep_copier (map_shape un S) (copy_map ord wrap un c)"
proof (intro deep_copier.intro deep_copier_axioms.intro local_shape_map deep_copier.axioms(1) [OF assms(1)])
  fix h m n h'
  assume ok: "sh_ok (map_shape un S) h m" and run: "copy_map ord wrap un c m h = (n, h')"
  show "prefix h h' \<and> sh_ok (map_shape un S) h' n \<and> sh_eq (map_shape un S) h m h' n \<and>
    (\<forall>a \<in> sh_refs (map_shape un S) h' n. length h \<le> a)"
  proof (cases m)
    case (Some b)
    let ?m = "map_at un h b" and ?a = "length h" and ?h = "h @ [wrap []]" and ?ks = "ord (Suc (length h)) (map fst (map_at un h b))"
    have dist: "distinct (map fst ?m)" and vals: "\<forall>v \<in> snd ` set ?m. sh_ok S h v" using ok by (simp_all add: Some)
    have ks: "distinct ?ks" "set ?ks = fst ` set ?m" using ord dist by (simp_all add: visits_all_def)
    have n: "n = Some ?a" and fill: "put_keys wrap un c ?m ?a ?ks ?h = h'" using run by (simp_all add: Some copy_map_def Let_def)
    have "un (?h ! ?a) = Some []" using kind by (simp add: kind_of_cell_def)
    from put_keys_copies [OF assms(1,2) vals _ _ _ this _ ks(1) _ fill] ks(2) obtain m' where
      mem: "?a < length h'" "\<forall>b < ?a. h' ! b = h ! b" and m': "un (h' ! ?a) = Some m'" "distinct (map fst m')"
        "\<forall>k. k \<notin> set ?ks \<longrightarrow> map_of m' k = None" and
      good: "\<forall>k \<in> set ?ks. \<exists>v z. map_of ?m k = Some v \<and> map_of m' k = Some z \<and> sh_ok S h' z \<and> sh_eq S h v h' z \<and>
        (\<forall>b \<in> sh_refs S h' z. length h \<le> b)"
      by (auto simp: nth_append)
    note same = map_copied_eq [OF dist m'(2) ks(2) m'(3) good]
    have "map_at un h' ?a = m'" using m'(1) by (simp add: map_at_def)
    moreover have "prefix h h'" using mem by (intro prefix_of_nth) auto
    moreover have "case map_of m' k of Some w \<Rightarrow> sh_eq S h v h' w | None \<Rightarrow> False" if "(k, v) \<in> set ?m" for k v
      using same(2) that by (auto split: option.splits)
    ultimately show ?thesis
      using same(1,3) m' mem(1) by (auto simp: Some n)
  qed (use run in \<open>simp add: copy_map_def\<close>)
qed

end
