(* ===== verification/Deep_Copy.thy ===== *)
theory Deep_Copy
  imports API_Types Go_Memory
begin

text \<open>
  The deep copies of the API types, \<^verbatim>\<open>api/v1alpha1/zz_generated.deepcopy.go\<close>, on a memory with sharing, and \<open>IsEmpty\<close> of
  \<^verbatim>\<open>dynamicenv_types.go\<close>, which tells a nil slice from an empty one.

  The structs appear here as they lie in memory: a slice, a map and a pointer are references (\<open>Go_Memory\<close>). \<open>DeepCopyInto\<close> is a
  function from the value of \<open>*in\<close> to the new value of \<open>*out\<close>, which also allocates; \<open>DeepCopy\<close> goes from pointer to pointer. The
  order in which fields are copied is that of the source.

  The deep copies of \<open>v1.EnvVar\<close>, \<open>ObjectMeta\<close> and \<open>ListMeta\<close> are not part of the repository: \<open>third_party\<close> holds them, and the order
  in which a loop visits the keys of a map. \<open>DeepCopyInto\<close> of \<open>metav1.Time\<close> assigns the time. What they reach is described
  by \<open>third_shapes\<close>, and they are required to meet the contract \<open>deep_copier\<close>.
\<close>

section \<open>The structs in memory\<close>

record ContainerOverrides_go =
  gco_ContainerName :: string
  gco_Image :: string
  gco_Command :: slice
  gco_Env :: slice

record IstioMatch_go =
  gim_Headers :: mapref
  gim_SourceLabels :: mapref

record Subset_go =
  gsub_Name :: string
  gsub_Namespace :: string
  gsub_PodLabels :: mapref
  gsub_Replicas :: ptr
  gsub_Containers :: slice
  gsub_InitContainers :: slice
  gsub_DefaultVersion :: string

record DynamicEnvSpec_go =
  gspec_IstioMatches :: slice
  gspec_Subsets :: slice
  gspec_Consumers :: slice

record SubsetErrors_go =
  gerrs_Deployment :: slice
  gerrs_DestinationRule :: slice
  gerrs_VirtualServices :: slice
  gerrs_Subset :: slice

record SubsetStatus_go =
  gss_Deployment :: ResourceStatus
  gss_DestinationRules :: slice
  gss_VirtualServices :: slice
  gss_Errors :: ptr
  gss_Hash :: int

record ConsumerStatus_go =
  gcs_ResourceStatus :: ResourceStatus
  gcs_Hash :: int
  gcs_Errors :: slice

record DynamicEnvStatus_go =
  gst_SubsetsStatus :: mapref
  gst_ConsumersStatus :: mapref
  gst_State :: GlobalReadyStatus
  gst_TotalCount :: int
  gst_TotalReady :: int

record SubsetMessages_go =
  gmsgs_Deployment :: slice
  gmsgs_DestinationRule :: slice
  gmsgs_VirtualService :: slice
  gmsgs_GlobalErrors :: slice

record TypeMeta =
  tm_Kind :: string
  tm_APIVersion :: string

record 'm DynamicEnv_go =
  gde_TypeMeta :: TypeMeta
  gde_ObjectMeta :: 'm
  gde_Spec :: DynamicEnvSpec_go
  gde_Status :: DynamicEnvStatus_go

record 'l DynamicEnvList_go =
  gdel_TypeMeta :: TypeMeta
  gdel_ListMeta :: 'l
  gdel_Items :: slice

text \<open>The kinds of cells: arrays of the types, and maps. \<open>Foreign\<close> holds what other packages allocate.\<close>

datatype ('e, 'm, 'l, 'x) cell =
    Int32s "int list"
  | Strings "string list"
  | EnvVars "'e list"
  | Containers "ContainerOverrides_go list"
  | StringMatches "StringMatch list"
  | Matches "IstioMatch_go list"
  | Subsets "Subset_go list"
  | Specs "DynamicEnvSpec_go list"
  | ResourceStatuses "ResourceStatus list"
  | StatusErrors "StatusError list"
  | Errorss "SubsetErrors_go list"
  | SubsetStatuses "SubsetStatus_go list"
  | ConsumerStatuses "ConsumerStatus_go list"
  | Statuses "DynamicEnvStatus_go list"
  | Messages "SubsetMessages_go list"
  | Envs "'m DynamicEnv_go list"
  | EnvLists "'l DynamicEnvList_go list"
  | StringMap "(string \<times> string) list"
  | HeaderMap "(string \<times> StringMatch) list"
  | SubsetStatusMap "(string \<times> SubsetStatus_go) list"
  | ConsumerStatusMap "(string \<times> ConsumerStatus_go) list"
  | Foreign 'x

definition un_Int32s :: "('e, 'm, 'l, 'x) cell \<Rightarrow> int list option" where
  "un_Int32s c = (case c of Int32s xs \<Rightarrow> Some xs | _ \<Rightarrow> None)"
definition un_Strings :: "('e, 'm, 'l, 'x) cell \<Rightarrow> string list option" where
  "un_Strings c = (case c of Strings xs \<Rightarrow> Some xs | _ \<Rightarrow> None)"
definition un_EnvVars :: "('e, 'm, 'l, 'x) cell \<Rightarrow> 'e list option" where
  "un_EnvVars c = (case c of EnvVars xs \<Rightarrow> Some xs | _ \<Rightarrow> None)"
definition un_Containers :: "('e, 'm, 'l, 'x) cell \<Rightarrow> ContainerOverrides_go list option" where
  "un_Containers c = (case c of Containers xs \<Rightarrow> Some xs | _ \<Rightarrow> None)"
definition un_StringMatches :: "('e, 'm, 'l, 'x) cell \<Rightarrow> StringMatch list option" where
  "un_StringMatches c = (case c of StringMatches xs \<Rightarrow> Some xs | _ \<Rightarrow> None)"
definition un_Matches :: "('e, 'm, 'l, 'x) cell \<Rightarrow> IstioMatch_go list option" where
  "un_Matches c = (case c of Matches xs \<Rightarrow> Some xs | _ \<Rightarrow> None)"
definition un_Subsets :: "('e, 'm, 'l, 'x) cell \<Rightarrow> Subset_go list option" where
  "un_Subsets c = (case c of Subsets xs \<Rightarrow> Some xs | _ \<Rightarrow> None)"
definition un_Specs :: "('e, 'm, 'l, 'x) cell \<Rightarrow> DynamicEnvSpec_go list option" where
  "un_Specs c = (case c of Specs xs \<Rightarrow> Some xs | _ \<Rightarrow> None)"
definition un_ResourceStatuses :: "('e, 'm, 'l, 'x) cell \<Rightarrow> ResourceStatus list option" where
  "un_ResourceStatuses c = (case c of ResourceStatuses xs \<Rightarrow> Some xs | _ \<Rightarrow> None)"
definition un_StatusErrors :: "('e, 'm, 'l, 'x) cell \<Rightarrow> StatusError list option" where
  "un_StatusErrors c = (case c of StatusErrors xs \<Rightarrow> Some xs | _ \<Rightarrow> None)"
definition un_Errorss :: "('e, 'm, 'l, 'x) cell \<Rightarrow> SubsetErrors_go list option" where
  "un_Errorss c = (case c of Errorss xs \<Rightarrow> Some xs | _ \<Rightarrow> None)"
definition un_SubsetStatuses :: "('e, 'm, 'l, 'x) cell \<Rightarrow> SubsetStatus_go list option" where
  "un_SubsetStatuses c = (case c of SubsetStatuses xs \<Rightarrow> Some xs | _ \<Rightarrow> None)"
definition un_ConsumerStatuses :: "('e, 'm, 'l, 'x) cell \<Rightarrow> ConsumerStatus_go list option" where
  "un_ConsumerStatuses c = (case c of ConsumerStatuses xs \<Rightarrow> Some xs | _ \<Rightarrow> None)"
definition un_Statuses :: "('e, 'm, 'l, 'x) cell \<Rightarrow> DynamicEnvStatus_go list option" where
  "un_Statuses c = (case c of Statuses xs \<Rightarrow> Some xs | _ \<Rightarrow> None)"
definition un_Messages :: "('e, 'm, 'l, 'x) cell \<Rightarrow> SubsetMessages_go list option" where
  "un_Messages c = (case c of Messages xs \<Rightarrow> Some xs | _ \<Rightarrow> None)"
definition un_Envs :: "('e, 'm, 'l, 'x) cell \<Rightarrow> 'm DynamicEnv_go list option" where
  "un_Envs c = (case c of Envs xs \<Rightarrow> Some xs | _ \<Rightarrow> None)"
definition un_EnvLists :: "('e, 'm, 'l, 'x) cell \<Rightarrow> 'l DynamicEnvList_go list option" where
  "un_EnvLists c = (case c of EnvLists xs \<Rightarrow> Some xs | _ \<Rightarrow> None)"
definition un_StringMap :: "('e, 'm, 'l, 'x) cell \<Rightarrow> (string \<times> string) list option" where
  "un_StringMap c = (case c of StringMap xs \<Rightarrow> Some xs | _ \<Rightarrow> None)"
definition un_HeaderMap :: "('e, 'm, 'l, 'x) cell \<Rightarrow> (string \<times> StringMatch) list option" where
  "un_HeaderMap c = (case c of HeaderMap xs \<Rightarrow> Some xs | _ \<Rightarrow> None)"
definition un_SubsetStatusMap :: "('e, 'm, 'l, 'x) cell \<Rightarrow> (string \<times> SubsetStatus_go) list option" where
  "un_SubsetStatusMap c = (case c of SubsetStatusMap xs \<Rightarrow> Some xs | _ \<Rightarrow> None)"
definition un_ConsumerStatusMap :: "('e, 'm, 'l, 'x) cell \<Rightarrow> (string \<times> ConsumerStatus_go) list option" where
  "un_ConsumerStatusMap c = (case c of ConsumerStatusMap xs \<Rightarrow> Some xs | _ \<Rightarrow> None)"

lemmas un_defs = un_Int32s_def un_Strings_def un_EnvVars_def un_Containers_def un_StringMatches_def un_Matches_def un_Subsets_def un_Specs_def un_ResourceStatuses_def un_StatusErrors_def un_Errorss_def un_SubsetStatuses_def un_ConsumerStatuses_def un_Statuses_def un_Messages_def un_Envs_def un_EnvLists_def un_StringMap_def un_HeaderMap_def un_SubsetStatusMap_def un_ConsumerStatusMap_def

lemma kinds_of_cells [simp]:
  "kind_of_cell Int32s un_Int32s"
  "kind_of_cell Strings un_Strings"
  "kind_of_cell EnvVars un_EnvVars"
  "kind_of_cell Containers un_Containers"
  "kind_of_cell StringMatches un_StringMatches"
  "kind_of_cell Matches un_Matches"
  "kind_of_cell Subsets un_Subsets"
  "kind_of_cell Specs un_Specs"
  "kind_of_cell ResourceStatuses un_ResourceStatuses"
  "kind_of_cell StatusErrors un_StatusErrors"
  "kind_of_cell Errorss un_Errorss"
  "kind_of_cell SubsetStatuses un_SubsetStatuses"
  "kind_of_cell ConsumerStatuses un_ConsumerStatuses"
  "kind_of_cell Statuses un_Statuses"
  "kind_of_cell Messages un_Messages"
  "kind_of_cell Envs un_Envs"
  "kind_of_cell EnvLists un_EnvLists"
  "kind_of_cell StringMap un_StringMap"
  "kind_of_cell HeaderMap un_HeaderMap"
  "kind_of_cell SubsetStatusMap un_SubsetStatusMap"
  "kind_of_cell ConsumerStatusMap un_ConsumerStatusMap"
  by (simp_all add: kind_of_cell_def un_defs)

section \<open>Other packages\<close>

record ('e, 'm, 'l, 'x) third_party =
  EnvVar_DeepCopyInto :: "(('e, 'm, 'l, 'x) cell, 'e) copying"
  EnvVar_zero :: 'e
  ObjectMeta_DeepCopyInto :: "(('e, 'm, 'l, 'x) cell, 'm) copying"
  ObjectMeta_zero :: 'm
  ListMeta_DeepCopyInto :: "(('e, 'm, 'l, 'x) cell, 'l) copying"
  ListMeta_zero :: 'l
  range_order :: "nat \<Rightarrow> string list \<Rightarrow> string list"

record ('e, 'm, 'l, 'x) third_shapes =
  EnvVar_shape :: "(('e, 'm, 'l, 'x) cell, 'e) shape"
  ObjectMeta_shape :: "(('e, 'm, 'l, 'x) cell, 'm) shape"
  ListMeta_shape :: "(('e, 'm, 'l, 'x) cell, 'l) shape"

definition third_party_ok :: "('e, 'm, 'l, 'x) third_shapes \<Rightarrow> ('e, 'm, 'l, 'x) third_party \<Rightarrow> bool" where
  "third_party_ok ts tp \<longleftrightarrow> deep_copier (EnvVar_shape ts) (EnvVar_DeepCopyInto tp) \<and>
     deep_copier (ObjectMeta_shape ts) (ObjectMeta_DeepCopyInto tp) \<and>
     deep_copier (ListMeta_shape ts) (ListMeta_DeepCopyInto tp) \<and> visits_all (range_order tp)"

section \<open>Zero values\<close>

definition StringMatch_zero :: StringMatch where
  "StringMatch_zero = \<lparr>sm_Exact = [], sm_Prefix = [], sm_Regex = []\<rparr>"
definition StatusError_zero :: StatusError where
  "StatusError_zero = \<lparr>se_Error = [], se_LastOccurrence = 0\<rparr>"
definition ContainerOverrides_go_zero :: ContainerOverrides_go where
  "ContainerOverrides_go_zero = \<lparr>gco_ContainerName = [], gco_Image = [], gco_Command = None, gco_Env = None\<rparr>"
definition IstioMatch_go_zero :: IstioMatch_go where
  "IstioMatch_go_zero = \<lparr>gim_Headers = None, gim_SourceLabels = None\<rparr>"
definition Subset_go_zero :: Subset_go where
  "Subset_go_zero = \<lparr>gsub_Name = [], gsub_Namespace = [], gsub_PodLabels = None, gsub_Replicas = None, gsub_Containers = None,
     gsub_InitContainers = None, gsub_DefaultVersion = []\<rparr>"
definition DynamicEnvSpec_go_zero :: DynamicEnvSpec_go where
  "DynamicEnvSpec_go_zero = \<lparr>gspec_IstioMatches = None, gspec_Subsets = None, gspec_Consumers = None\<rparr>"
definition SubsetErrors_go_zero :: SubsetErrors_go where
  "SubsetErrors_go_zero = \<lparr>gerrs_Deployment = None, gerrs_DestinationRule = None, gerrs_VirtualServices = None, gerrs_Subset = None\<rparr>"
definition SubsetStatus_go_zero :: SubsetStatus_go where
  "SubsetStatus_go_zero = \<lparr>gss_Deployment = ResourceStatus_zero, gss_DestinationRules = None, gss_VirtualServices = None,
     gss_Errors = None, gss_Hash = 0\<rparr>"
definition ConsumerStatus_go_zero :: ConsumerStatus_go where
  "ConsumerStatus_go_zero = \<lparr>gcs_ResourceStatus = ResourceStatus_zero, gcs_Hash = 0, gcs_Errors = None\<rparr>"
definition DynamicEnvStatus_go_zero :: DynamicEnvStatus_go where
  "DynamicEnvStatus_go_zero = \<lparr>gst_SubsetsStatus = None, gst_ConsumersStatus = None, gst_State = [], gst_TotalCount = 0,
     gst_TotalReady = 0\<rparr>"
definition SubsetMessages_go_zero :: SubsetMessages_go where
  "SubsetMessages_go_zero = \<lparr>gmsgs_Deployment = None, gmsgs_DestinationRule = None, gmsgs_VirtualService = None,
     gmsgs_GlobalErrors = None\<rparr>"
definition DynamicEnv_go_zero :: "('e, 'm, 'l, 'x) third_party \<Rightarrow> 'm DynamicEnv_go" where
  "DynamicEnv_go_zero tp = \<lparr>gde_TypeMeta = \<lparr>tm_Kind = [], tm_APIVersion = []\<rparr>, gde_ObjectMeta = ObjectMeta_zero tp,
     gde_Spec = DynamicEnvSpec_go_zero, gde_Status = DynamicEnvStatus_go_zero\<rparr>"
definition DynamicEnvList_go_zero :: "('e, 'm, 'l, 'x) third_party \<Rightarrow> 'l DynamicEnvList_go" where
  "DynamicEnvList_go_zero tp = \<lparr>gdel_TypeMeta = \<lparr>tm_Kind = [], tm_APIVersion = []\<rparr>, gdel_ListMeta = ListMeta_zero tp, gdel_Items = None\<rparr>"

section \<open>DeepCopyInto\<close>

definition ResourceStatus_DeepCopyInto :: "(('e, 'm, 'l, 'x) cell, ResourceStatus) copying" where
  "ResourceStatus_DeepCopyInto x h = (x, h)"

definition StatusError_DeepCopyInto :: "(('e, 'm, 'l, 'x) cell, StatusError) copying" where
  "StatusError_DeepCopyInto x h = (x\<lparr>se_LastOccurrence := se_LastOccurrence x\<rparr>, h)"

definition StringMatch_DeepCopyInto :: "(('e, 'm, 'l, 'x) cell, StringMatch) copying" where
  "StringMatch_DeepCopyInto x h = (x, h)"

definition ConsumerStatus_DeepCopyInto :: "(('e, 'm, 'l, 'x) cell, ConsumerStatus_go) copying" where
  "ConsumerStatus_DeepCopyInto x h =
     (let (errors, h) = copy_slice StatusErrors un_StatusErrors StatusError_zero StatusError_DeepCopyInto (gcs_Errors x) h
      in (x\<lparr>gcs_Errors := errors\<rparr>, h))"

definition ContainerOverrides_DeepCopyInto ::
  "('e, 'm, 'l, 'x) third_party \<Rightarrow> (('e, 'm, 'l, 'x) cell, ContainerOverrides_go) copying" where
  "ContainerOverrides_DeepCopyInto tp x h =
     (let (command, h) = copy_elements Strings un_Strings [] (gco_Command x) h;
          (env, h) = copy_slice EnvVars un_EnvVars (EnvVar_zero tp) (EnvVar_DeepCopyInto tp) (gco_Env x) h
      in (x\<lparr>gco_Command := command, gco_Env := env\<rparr>, h))"

definition IstioMatch_DeepCopyInto ::
  "('e, 'm, 'l, 'x) third_party \<Rightarrow> (('e, 'm, 'l, 'x) cell, IstioMatch_go) copying" where
  "IstioMatch_DeepCopyInto tp x h =
     (let (headers, h) = copy_map (range_order tp) HeaderMap un_HeaderMap assign (gim_Headers x) h;
          (sourceLabels, h) = copy_map (range_order tp) StringMap un_StringMap assign (gim_SourceLabels x) h
      in (x\<lparr>gim_Headers := headers, gim_SourceLabels := sourceLabels\<rparr>, h))"

definition Subset_DeepCopyInto :: "('e, 'm, 'l, 'x) third_party \<Rightarrow> (('e, 'm, 'l, 'x) cell, Subset_go) copying" where
  "Subset_DeepCopyInto tp x h =
     (let (podLabels, h) = copy_map (range_order tp) StringMap un_StringMap assign (gsub_PodLabels x) h;
          (replicas, h) = copy_ptr Int32s un_Int32s 0 assign (gsub_Replicas x) h;
          (containers, h) = copy_slice Containers un_Containers ContainerOverrides_go_zero (ContainerOverrides_DeepCopyInto tp)
            (gsub_Containers x) h;
          (initContainers, h) = copy_slice Containers un_Containers ContainerOverrides_go_zero (ContainerOverrides_DeepCopyInto tp)
            (gsub_InitContainers x) h
      in (x\<lparr>gsub_PodLabels := podLabels, gsub_Replicas := replicas, gsub_Containers := containers,
            gsub_InitContainers := initContainers\<rparr>, h))"

definition DynamicEnvSpec_DeepCopyInto ::
  "('e, 'm, 'l, 'x) third_party \<Rightarrow> (('e, 'm, 'l, 'x) cell, DynamicEnvSpec_go) copying" where
  "DynamicEnvSpec_DeepCopyInto tp x h =
     (let (matches, h) = copy_slice Matches un_Matches IstioMatch_go_zero (IstioMatch_DeepCopyInto tp) (gspec_IstioMatches x) h;
          (subsets, h) = copy_slice Subsets un_Subsets Subset_go_zero (Subset_DeepCopyInto tp) (gspec_Subsets x) h;
          (consumers, h) = copy_slice Subsets un_Subsets Subset_go_zero (Subset_DeepCopyInto tp) (gspec_Consumers x) h
      in (x\<lparr>gspec_IstioMatches := matches, gspec_Subsets := subsets, gspec_Consumers := consumers\<rparr>, h))"

definition SubsetErrors_DeepCopyInto :: "(('e, 'm, 'l, 'x) cell, SubsetErrors_go) copying" where
  "SubsetErrors_DeepCopyInto x h =
     (let (deployment, h) = copy_slice StatusErrors un_StatusErrors StatusError_zero StatusError_DeepCopyInto (gerrs_Deployment x) h;
          (destinationRule, h) = copy_slice StatusErrors un_StatusErrors StatusError_zero StatusError_DeepCopyInto
            (gerrs_DestinationRule x) h;
          (virtualServices, h) = copy_slice StatusErrors un_StatusErrors StatusError_zero StatusError_DeepCopyInto
            (gerrs_VirtualServices x) h;
          (subset, h) = copy_slice StatusErrors un_StatusErrors StatusError_zero StatusError_DeepCopyInto (gerrs_Subset x) h
      in (x\<lparr>gerrs_Deployment := deployment, gerrs_DestinationRule := destinationRule,
            gerrs_VirtualServices := virtualServices, gerrs_Subset := subset\<rparr>, h))"

definition SubsetMessages_DeepCopyInto :: "(('e, 'm, 'l, 'x) cell, SubsetMessages_go) copying" where
  "SubsetMessages_DeepCopyInto x h =
     (let (deployment, h) = copy_elements Strings un_Strings [] (gmsgs_Deployment x) h;
          (destinationRule, h) = copy_elements Strings un_Strings [] (gmsgs_DestinationRule x) h;
          (virtualService, h) = copy_elements Strings un_Strings [] (gmsgs_VirtualService x) h;
          (globalErrors, h) = copy_elements Strings un_Strings [] (gmsgs_GlobalErrors x) h
      in (x\<lparr>gmsgs_Deployment := deployment, gmsgs_DestinationRule := destinationRule,
            gmsgs_VirtualService := virtualService, gmsgs_GlobalErrors := globalErrors\<rparr>, h))"

definition SubsetStatus_DeepCopyInto :: "(('e, 'm, 'l, 'x) cell, SubsetStatus_go) copying" where
  "SubsetStatus_DeepCopyInto x h =
     (let (destinationRules, h) = copy_elements ResourceStatuses un_ResourceStatuses ResourceStatus_zero (gss_DestinationRules x) h;
          (virtualServices, h) = copy_elements ResourceStatuses un_ResourceStatuses ResourceStatus_zero (gss_VirtualServices x) h;
          (errors, h) = copy_ptr Errorss un_Errorss SubsetErrors_go_zero SubsetErrors_DeepCopyInto (gss_Errors x) h
      in (x\<lparr>gss_DestinationRules := destinationRules, gss_VirtualServices := virtualServices, gss_Errors := errors\<rparr>, h))"

definition DynamicEnvStatus_DeepCopyInto ::
  "('e, 'm, 'l, 'x) third_party \<Rightarrow> (('e, 'm, 'l, 'x) cell, DynamicEnvStatus_go) copying" where
  "DynamicEnvStatus_DeepCopyInto tp x h =
     (let (subsetsStatus, h) = copy_map (range_order tp) SubsetStatusMap un_SubsetStatusMap
            (through_ptr SubsetStatuses un_SubsetStatuses SubsetStatus_go_zero SubsetStatus_DeepCopyInto) (gst_SubsetsStatus x) h;
          (consumersStatus, h) = copy_map (range_order tp) ConsumerStatusMap un_ConsumerStatusMap
            (through_ptr ConsumerStatuses un_ConsumerStatuses ConsumerStatus_go_zero ConsumerStatus_DeepCopyInto)
            (gst_ConsumersStatus x) h
      in (x\<lparr>gst_SubsetsStatus := subsetsStatus, gst_ConsumersStatus := consumersStatus\<rparr>, h))"

definition DynamicEnv_DeepCopyInto ::
  "('e, 'm, 'l, 'x) third_party \<Rightarrow> (('e, 'm, 'l, 'x) cell, 'm DynamicEnv_go) copying" where
  "DynamicEnv_DeepCopyInto tp x h =
     (let (meta, h) = ObjectMeta_DeepCopyInto tp (gde_ObjectMeta x) h;
          (spec, h) = DynamicEnvSpec_DeepCopyInto tp (gde_Spec x) h;
          (status, h) = DynamicEnvStatus_DeepCopyInto tp (gde_Status x) h
      in (x\<lparr>gde_ObjectMeta := meta, gde_Spec := spec, gde_Status := status\<rparr>, h))"

definition DynamicEnvList_DeepCopyInto ::
  "('e, 'm, 'l, 'x) third_party \<Rightarrow> (('e, 'm, 'l, 'x) cell, 'l DynamicEnvList_go) copying" where
  "DynamicEnvList_DeepCopyInto tp x h =
     (let (meta, h) = ListMeta_DeepCopyInto tp (gdel_ListMeta x) h;
          (items, h) = copy_slice Envs un_Envs (DynamicEnv_go_zero tp) (DynamicEnv_DeepCopyInto tp) (gdel_Items x) h
      in (x\<lparr>gdel_ListMeta := meta, gdel_Items := items\<rparr>, h))"

section \<open>DeepCopy\<close>

definition ConsumerStatus_DeepCopy :: "(('e, 'm, 'l, 'x) cell, ptr) copying" where
  "ConsumerStatus_DeepCopy = copy_ptr ConsumerStatuses un_ConsumerStatuses ConsumerStatus_go_zero ConsumerStatus_DeepCopyInto"
definition ContainerOverrides_DeepCopy :: "('e, 'm, 'l, 'x) third_party \<Rightarrow> (('e, 'm, 'l, 'x) cell, ptr) copying" where
  "ContainerOverrides_DeepCopy tp = copy_ptr Containers un_Containers ContainerOverrides_go_zero (ContainerOverrides_DeepCopyInto tp)"
definition DynamicEnv_DeepCopy :: "('e, 'm, 'l, 'x) third_party \<Rightarrow> (('e, 'm, 'l, 'x) cell, ptr) copying" where
  "DynamicEnv_DeepCopy tp = copy_ptr Envs un_Envs (DynamicEnv_go_zero tp) (DynamicEnv_DeepCopyInto tp)"
definition DynamicEnvList_DeepCopy :: "('e, 'm, 'l, 'x) third_party \<Rightarrow> (('e, 'm, 'l, 'x) cell, ptr) copying" where
  "DynamicEnvList_DeepCopy tp = copy_ptr EnvLists un_EnvLists (DynamicEnvList_go_zero tp) (DynamicEnvList_DeepCopyInto tp)"
definition DynamicEnvSpec_DeepCopy :: "('e, 'm, 'l, 'x) third_party \<Rightarrow> (('e, 'm, 'l, 'x) cell, ptr) copying" where
  "DynamicEnvSpec_DeepCopy tp = copy_ptr Specs un_Specs DynamicEnvSpec_go_zero (DynamicEnvSpec_DeepCopyInto tp)"
definition DynamicEnvStatus_DeepCopy :: "('e, 'm, 'l, 'x) third_party \<Rightarrow> (('e, 'm, 'l, 'x) cell, ptr) copying" where
  "DynamicEnvStatus_DeepCopy tp = copy_ptr Statuses un_Statuses DynamicEnvStatus_go_zero (DynamicEnvStatus_DeepCopyInto tp)"
definition IstioMatch_DeepCopy :: "('e, 'm, 'l, 'x) third_party \<Rightarrow> (('e, 'm, 'l, 'x) cell, ptr) copying" where
  "IstioMatch_DeepCopy tp = copy_ptr Matches un_Matches IstioMatch_go_zero (IstioMatch_DeepCopyInto tp)"
definition ResourceStatus_DeepCopy :: "(('e, 'm, 'l, 'x) cell, ptr) copying" where
  "ResourceStatus_DeepCopy = copy_ptr ResourceStatuses un_ResourceStatuses ResourceStatus_zero ResourceStatus_DeepCopyInto"
definition StatusError_DeepCopy :: "(('e, 'm, 'l, 'x) cell, ptr) copying" where
  "StatusError_DeepCopy = copy_ptr StatusErrors un_StatusErrors StatusError_zero StatusError_DeepCopyInto"
definition StringMatch_DeepCopy :: "(('e, 'm, 'l, 'x) cell, ptr) copying" where
  "StringMatch_DeepCopy = copy_ptr StringMatches un_StringMatches StringMatch_zero StringMatch_DeepCopyInto"
definition Subset_DeepCopy :: "('e, 'm, 'l, 'x) third_party \<Rightarrow> (('e, 'm, 'l, 'x) cell, ptr) copying" where
  "Subset_DeepCopy tp = copy_ptr Subsets un_Subsets Subset_go_zero (Subset_DeepCopyInto tp)"
definition SubsetErrors_DeepCopy :: "(('e, 'm, 'l, 'x) cell, ptr) copying" where
  "SubsetErrors_DeepCopy = copy_ptr Errorss un_Errorss SubsetErrors_go_zero SubsetErrors_DeepCopyInto"
definition SubsetMessages_DeepCopy :: "(('e, 'm, 'l, 'x) cell, ptr) copying" where
  "SubsetMessages_DeepCopy = copy_ptr Messages un_Messages SubsetMessages_go_zero SubsetMessages_DeepCopyInto"
definition SubsetStatus_DeepCopy :: "(('e, 'm, 'l, 'x) cell, ptr) copying" where
  "SubsetStatus_DeepCopy = copy_ptr SubsetStatuses un_SubsetStatuses SubsetStatus_go_zero SubsetStatus_DeepCopyInto"

text \<open>A \<open>runtime.Object\<close> is a pointer with its type, or nil.\<close>

datatype Object = DynamicEnvObject "nat \<times> nat" | DynamicEnvListObject "nat \<times> nat"

definition DynamicEnv_DeepCopyObject ::
  "('e, 'm, 'l, 'x) third_party \<Rightarrow> ptr \<Rightarrow> ('e, 'm, 'l, 'x) cell list \<Rightarrow> Object option \<times> ('e, 'm, 'l, 'x) cell list" where
  "DynamicEnv_DeepCopyObject tp p h =
     (case DynamicEnv_DeepCopy tp p h of (Some c, h) \<Rightarrow> (Some (DynamicEnvObject c), h) | (None, h) \<Rightarrow> (None, h))"

definition DynamicEnvList_DeepCopyObject ::
  "('e, 'm, 'l, 'x) third_party \<Rightarrow> ptr \<Rightarrow> ('e, 'm, 'l, 'x) cell list \<Rightarrow> Object option \<times> ('e, 'm, 'l, 'x) cell list" where
  "DynamicEnvList_DeepCopyObject tp p h =
     (case DynamicEnvList_DeepCopy tp p h of (Some c, h) \<Rightarrow> (Some (DynamicEnvListObject c), h) | (None, h) \<Rightarrow> (None, h))"

section \<open>What the types reach\<close>

type_synonym ('e, 'm, 'l, 'x, 'a) reach = "(('e, 'm, 'l, 'x) cell, 'a) shape"

definition ConsumerStatus_shape :: "('e, 'm, 'l, 'x, ConsumerStatus_go) reach" where
  "ConsumerStatus_shape = struct_shape gcs_Errors (gcs_Errors_update (\<lambda>_. None)) (slice_shape un_StatusErrors plain)"

definition ContainerOverrides_shape :: "('e, 'm, 'l, 'x) third_shapes \<Rightarrow> ('e, 'm, 'l, 'x, ContainerOverrides_go) reach" where
  "ContainerOverrides_shape ts = struct_shape (\<lambda>x. (gco_Command x, gco_Env x)) (\<lambda>x. x\<lparr>gco_Command := None, gco_Env := None\<rparr>)
     (and_shape (slice_shape un_Strings plain) (slice_shape un_EnvVars (EnvVar_shape ts)))"

definition IstioMatch_shape :: "('e, 'm, 'l, 'x, IstioMatch_go) reach" where
  "IstioMatch_shape = struct_shape (\<lambda>x. (gim_Headers x, gim_SourceLabels x)) (\<lambda>x. x\<lparr>gim_Headers := None, gim_SourceLabels := None\<rparr>)
     (and_shape (map_shape un_HeaderMap plain) (map_shape un_StringMap plain))"

definition Subset_shape :: "('e, 'm, 'l, 'x) third_shapes \<Rightarrow> ('e, 'm, 'l, 'x, Subset_go) reach" where
  "Subset_shape ts = struct_shape (\<lambda>x. (gsub_PodLabels x, gsub_Replicas x, gsub_Containers x, gsub_InitContainers x))
     (\<lambda>x. x\<lparr>gsub_PodLabels := None, gsub_Replicas := None, gsub_Containers := None, gsub_InitContainers := None\<rparr>)
     (and_shape (map_shape un_StringMap plain) (and_shape (ptr_shape un_Int32s plain)
       (and_shape (slice_shape un_Containers (ContainerOverrides_shape ts)) (slice_shape un_Containers (ContainerOverrides_shape ts)))))"

definition DynamicEnvSpec_shape :: "('e, 'm, 'l, 'x) third_shapes \<Rightarrow> ('e, 'm, 'l, 'x, DynamicEnvSpec_go) reach" where
  "DynamicEnvSpec_shape ts = struct_shape (\<lambda>x. (gspec_IstioMatches x, gspec_Subsets x, gspec_Consumers x))
     (\<lambda>x. x\<lparr>gspec_IstioMatches := None, gspec_Subsets := None, gspec_Consumers := None\<rparr>)
     (and_shape (slice_shape un_Matches IstioMatch_shape)
       (and_shape (slice_shape un_Subsets (Subset_shape ts)) (slice_shape un_Subsets (Subset_shape ts))))"

definition SubsetErrors_shape :: "('e, 'm, 'l, 'x, SubsetErrors_go) reach" where
  "SubsetErrors_shape = struct_shape (\<lambda>x. (gerrs_Deployment x, gerrs_DestinationRule x, gerrs_VirtualServices x, gerrs_Subset x))
     (\<lambda>x. x\<lparr>gerrs_Deployment := None, gerrs_DestinationRule := None, gerrs_VirtualServices := None, gerrs_Subset := None\<rparr>)
     (and_shape (slice_shape un_StatusErrors plain) (and_shape (slice_shape un_StatusErrors plain)
       (and_shape (slice_shape un_StatusErrors plain) (slice_shape un_StatusErrors plain))))"

definition SubsetMessages_shape :: "('e, 'm, 'l, 'x, SubsetMessages_go) reach" where
  "SubsetMessages_shape =
     struct_shape (\<lambda>x. (gmsgs_Deployment x, gmsgs_DestinationRule x, gmsgs_VirtualService x, gmsgs_GlobalErrors x))
     (\<lambda>x. x\<lparr>gmsgs_Deployment := None, gmsgs_DestinationRule := None, gmsgs_VirtualService := None, gmsgs_GlobalErrors := None\<rparr>)
     (and_shape (slice_shape un_Strings plain) (and_shape (slice_shape un_Strings plain)
       (and_shape (slice_shape un_Strings plain) (slice_shape un_Strings plain))))"

definition SubsetStatus_shape :: "('e, 'm, 'l, 'x, SubsetStatus_go) reach" where
  "SubsetStatus_shape = struct_shape (\<lambda>x. (gss_DestinationRules x, gss_VirtualServices x, gss_Errors x))
     (\<lambda>x. x\<lparr>gss_DestinationRules := None, gss_VirtualServices := None, gss_Errors := None\<rparr>)
     (and_shape (slice_shape un_ResourceStatuses plain)
       (and_shape (slice_shape un_ResourceStatuses plain) (ptr_shape un_Errorss SubsetErrors_shape)))"

definition DynamicEnvStatus_shape :: "('e, 'm, 'l, 'x, DynamicEnvStatus_go) reach" where
  "DynamicEnvStatus_shape = struct_shape (\<lambda>x. (gst_SubsetsStatus x, gst_ConsumersStatus x))
     (\<lambda>x. x\<lparr>gst_SubsetsStatus := None, gst_ConsumersStatus := None\<rparr>)
     (and_shape (map_shape un_SubsetStatusMap SubsetStatus_shape) (map_shape un_ConsumerStatusMap ConsumerStatus_shape))"

definition DynamicEnv_shape :: "('e, 'm, 'l, 'x) third_shapes \<Rightarrow> ('e, 'm, 'l, 'x, 'm DynamicEnv_go) reach" where
  "DynamicEnv_shape ts = struct_shape (\<lambda>x. (gde_ObjectMeta x, gde_Spec x, gde_Status x))
     gde_TypeMeta
     (and_shape (ObjectMeta_shape ts) (and_shape (DynamicEnvSpec_shape ts) DynamicEnvStatus_shape))"

definition DynamicEnvList_shape :: "('e, 'm, 'l, 'x) third_shapes \<Rightarrow> ('e, 'm, 'l, 'x, 'l DynamicEnvList_go) reach" where
  "DynamicEnvList_shape ts = struct_shape (\<lambda>x. (gdel_ListMeta x, gdel_Items x))
     gdel_TypeMeta
     (and_shape (ListMeta_shape ts) (slice_shape un_Envs (DynamicEnv_shape ts)))"

section \<open>Every copy is deep\<close>

lemma assigned_copies:
  "ResourceStatus_DeepCopyInto = assign" "StatusError_DeepCopyInto = assign" "StringMatch_DeepCopyInto = assign"
  by (simp_all add: fun_eq_iff assign_def ResourceStatus_DeepCopyInto_def StatusError_DeepCopyInto_def StringMatch_DeepCopyInto_def)

lemmas deep_intros = deep_copier_and deep_copier_slice deep_copier_elements deep_copier_ptr deep_copier_through_ptr deep_copier_map
  assigned.deep_copier_axioms kinds_of_cells

abbreviation copy_errors :: "(('e, 'm, 'l, 'x) cell, slice) copying" where
  "copy_errors \<equiv> copy_slice StatusErrors un_StatusErrors StatusError_zero assign"
abbreviation copy_strings :: "(('e, 'm, 'l, 'x) cell, slice) copying" where
  "copy_strings \<equiv> copy_elements Strings un_Strings []"
abbreviation copy_resources :: "(('e, 'm, 'l, 'x) cell, slice) copying" where
  "copy_resources \<equiv> copy_elements ResourceStatuses un_ResourceStatuses ResourceStatus_zero"

interpretation consumer_status: deep_copier ConsumerStatus_shape ConsumerStatus_DeepCopyInto
  unfolding ConsumerStatus_shape_def
  by (rule deep_copier_struct [where c = copy_errors and put = "\<lambda>f. gcs_Errors_update (\<lambda>_. f)"], intro deep_intros)
    (simp_all add: ConsumerStatus_DeepCopyInto_def assigned_copies split: prod.splits)

interpretation subset_errors: deep_copier SubsetErrors_shape SubsetErrors_DeepCopyInto
  unfolding SubsetErrors_shape_def
  by (rule deep_copier_struct [where c = "and_copy copy_errors (and_copy copy_errors (and_copy copy_errors copy_errors))" and
        put = "\<lambda>(a, b, c, d) x. x\<lparr>gerrs_Deployment := a, gerrs_DestinationRule := b, gerrs_VirtualServices := c, gerrs_Subset := d\<rparr>"],
      intro deep_intros)
    (auto simp: SubsetErrors_DeepCopyInto_def assigned_copies and_copy_def split: prod.splits)

interpretation subset_messages: deep_copier SubsetMessages_shape SubsetMessages_DeepCopyInto
  unfolding SubsetMessages_shape_def
  by (rule deep_copier_struct [where c = "and_copy copy_strings (and_copy copy_strings (and_copy copy_strings copy_strings))" and
        put = "\<lambda>(a, b, c, d) x. x\<lparr>gmsgs_Deployment := a, gmsgs_DestinationRule := b, gmsgs_VirtualService := c, gmsgs_GlobalErrors := d\<rparr>"],
      intro deep_intros)
    (auto simp: SubsetMessages_DeepCopyInto_def and_copy_def split: prod.splits)

interpretation subset_status: deep_copier SubsetStatus_shape SubsetStatus_DeepCopyInto
  unfolding SubsetStatus_shape_def
  by (rule deep_copier_struct [where c = "and_copy copy_resources (and_copy copy_resources
          (copy_ptr Errorss un_Errorss SubsetErrors_go_zero SubsetErrors_DeepCopyInto))" and
        put = "\<lambda>(a, b, c) x. x\<lparr>gss_DestinationRules := a, gss_VirtualServices := b, gss_Errors := c\<rparr>"],
      intro deep_intros subset_errors.deep_copier_axioms)
    (auto simp: SubsetStatus_DeepCopyInto_def and_copy_def split: prod.splits)

lemma istio_match_deep:
  assumes "visits_all (range_order tp)"
  shows "deep_copier IstioMatch_shape (IstioMatch_DeepCopyInto tp)"
  unfolding IstioMatch_shape_def
  by (rule deep_copier_struct [where c = "and_copy (copy_map (range_order tp) HeaderMap un_HeaderMap assign)
          (copy_map (range_order tp) StringMap un_StringMap assign)" and
        put = "\<lambda>(a, b) x. x\<lparr>gim_Headers := a, gim_SourceLabels := b\<rparr>"],
      intro deep_intros assms)
    (auto simp: IstioMatch_DeepCopyInto_def and_copy_def split: prod.splits)

lemma container_overrides_deep:
  assumes "deep_copier (EnvVar_shape ts) (EnvVar_DeepCopyInto tp)"
  shows "deep_copier (ContainerOverrides_shape ts) (ContainerOverrides_DeepCopyInto tp)"
  unfolding ContainerOverrides_shape_def
  by (rule deep_copier_struct [where c = "and_copy copy_strings
          (copy_slice EnvVars un_EnvVars (EnvVar_zero tp) (EnvVar_DeepCopyInto tp))" and
        put = "\<lambda>(a, b) x. x\<lparr>gco_Command := a, gco_Env := b\<rparr>"],
      intro deep_intros assms)
    (auto simp: ContainerOverrides_DeepCopyInto_def and_copy_def split: prod.splits)

lemma subset_deep:
  assumes "deep_copier (EnvVar_shape ts) (EnvVar_DeepCopyInto tp)" and "visits_all (range_order tp)"
  shows "deep_copier (Subset_shape ts) (Subset_DeepCopyInto tp)"
proof -
  let ?containers = "copy_slice Containers un_Containers ContainerOverrides_go_zero (ContainerOverrides_DeepCopyInto tp)"
  show ?thesis
    unfolding Subset_shape_def
    by (rule deep_copier_struct [where c = "and_copy (copy_map (range_order tp) StringMap un_StringMap assign)
            (and_copy (copy_ptr Int32s un_Int32s 0 assign) (and_copy ?containers ?containers))" and
          put = "\<lambda>(a, b, c, d) x. x\<lparr>gsub_PodLabels := a, gsub_Replicas := b, gsub_Containers := c, gsub_InitContainers := d\<rparr>"],
        intro deep_intros container_overrides_deep assms)
      (auto simp: Subset_DeepCopyInto_def and_copy_def split: prod.splits)
qed

lemma spec_deep:
  assumes "deep_copier (EnvVar_shape ts) (EnvVar_DeepCopyInto tp)" and "visits_all (range_order tp)"
  shows "deep_copier (DynamicEnvSpec_shape ts) (DynamicEnvSpec_DeepCopyInto tp)"
proof -
  let ?subsets = "copy_slice Subsets un_Subsets Subset_go_zero (Subset_DeepCopyInto tp)"
  show ?thesis
    unfolding DynamicEnvSpec_shape_def
    by (rule deep_copier_struct [where c = "and_copy (copy_slice Matches un_Matches IstioMatch_go_zero (IstioMatch_DeepCopyInto tp))
            (and_copy ?subsets ?subsets)" and
          put = "\<lambda>(a, b, c) x. x\<lparr>gspec_IstioMatches := a, gspec_Subsets := b, gspec_Consumers := c\<rparr>"],
        intro deep_intros istio_match_deep subset_deep assms)
      (auto simp: DynamicEnvSpec_DeepCopyInto_def and_copy_def split: prod.splits)
qed

lemma status_deep:
  assumes "visits_all (range_order tp)"
  shows "deep_copier DynamicEnvStatus_shape (DynamicEnvStatus_DeepCopyInto tp)"
  unfolding DynamicEnvStatus_shape_def
  by (rule deep_copier_struct [where c = "and_copy
          (copy_map (range_order tp) SubsetStatusMap un_SubsetStatusMap
            (through_ptr SubsetStatuses un_SubsetStatuses SubsetStatus_go_zero SubsetStatus_DeepCopyInto))
          (copy_map (range_order tp) ConsumerStatusMap un_ConsumerStatusMap
            (through_ptr ConsumerStatuses un_ConsumerStatuses ConsumerStatus_go_zero ConsumerStatus_DeepCopyInto))" and
        put = "\<lambda>(a, b) x. x\<lparr>gst_SubsetsStatus := a, gst_ConsumersStatus := b\<rparr>"],
      intro deep_intros subset_status.deep_copier_axioms consumer_status.deep_copier_axioms assms)
    (auto simp: DynamicEnvStatus_DeepCopyInto_def and_copy_def split: prod.splits)

lemma dynamic_env_deep:
  assumes "third_party_ok ts tp"
  shows "deep_copier (DynamicEnv_shape ts) (DynamicEnv_DeepCopyInto tp)"
proof -
  have tp: "deep_copier (EnvVar_shape ts) (EnvVar_DeepCopyInto tp)" "deep_copier (ObjectMeta_shape ts) (ObjectMeta_DeepCopyInto tp)"
    "visits_all (range_order tp)" using assms by (simp_all add: third_party_ok_def)
  show ?thesis
    unfolding DynamicEnv_shape_def
    by (rule deep_copier_struct [where c = "and_copy (ObjectMeta_DeepCopyInto tp)
            (and_copy (DynamicEnvSpec_DeepCopyInto tp) (DynamicEnvStatus_DeepCopyInto tp))" and
          put = "\<lambda>(a, b, c) x. x\<lparr>gde_ObjectMeta := a, gde_Spec := b, gde_Status := c\<rparr>"],
        intro deep_intros spec_deep status_deep tp)
      (auto simp: DynamicEnv_DeepCopyInto_def and_copy_def split: prod.splits)
qed

lemma dynamic_env_list_deep:
  assumes "third_party_ok ts tp"
  shows "deep_copier (DynamicEnvList_shape ts) (DynamicEnvList_DeepCopyInto tp)"
proof -
  have tp: "deep_copier (ListMeta_shape ts) (ListMeta_DeepCopyInto tp)" using assms by (simp add: third_party_ok_def)
  show ?thesis
    unfolding DynamicEnvList_shape_def
    by (rule deep_copier_struct [where c = "and_copy (ListMeta_DeepCopyInto tp)
            (copy_slice Envs un_Envs (DynamicEnv_go_zero tp) (DynamicEnv_DeepCopyInto tp))" and
          put = "\<lambda>(a, b) x. x\<lparr>gdel_ListMeta := a, gdel_Items := b\<rparr>"],
        intro deep_intros dynamic_env_deep assms tp)
      (auto simp: DynamicEnvList_DeepCopyInto_def and_copy_def split: prod.splits)
qed

section \<open>IsEmpty\<close>

definition IsEmpty :: "('e, 'm, 'l, 'x) third_shapes \<Rightarrow> ('e, 'm, 'l, 'x) cell list \<Rightarrow> ContainerOverrides_go \<Rightarrow> bool" where
  \<comment> \<open>\<open>reflect.DeepEqual(co, ContainerOverrides{})\<close>\<close>
  "IsEmpty ts h co = sh_eq (ContainerOverrides_shape ts) h co h ContainerOverrides_go_zero"

lemma IsEmpty_iff: "IsEmpty ts h co \<longleftrightarrow> co = ContainerOverrides_go_zero"
  by (cases co) (simp add: IsEmpty_def ContainerOverrides_shape_def ContainerOverrides_go_zero_def)

text \<open>An override that lists an empty command is not empty: the slice is there, although it has no elements.\<close>

lemma empty_command_not_IsEmpty:
  "\<not> IsEmpty ts [Strings []] (ContainerOverrides_go_zero\<lparr>gco_Command := Some \<lparr>sl_arr = 0, sl_off = 0, sl_len = 0\<rparr>\<rparr>)"
  by (simp add: IsEmpty_iff ContainerOverrides_go_zero_def)

section \<open>Properties\<close>

text \<open>
  C19: a deep copy is equal to its original and shares nothing with it. When everything that a list of environments reaches is
  there, its copy is a new object that is deeply equal to the list; what was in memory before is unchanged; no memory is reached
  both from the list and from the copy, so whatever is written to memory that the copy reaches, the list still reads as it did
  before the call, and whatever is written to memory that the list reaches, the copy still reads like the list at the time of
  the call. The copy of nil is nil, and nothing is allocated for it.
\<close>

theorem DeepCopyObject_independent:
  fixes h :: "('e, 'm, 'l, 'x) cell list"
  assumes "third_party_ok ts tp" and "sh_ok (ptr_shape un_EnvLists (DynamicEnvList_shape ts)) h (Some p)"
    and "DynamicEnvList_DeepCopyObject tp (Some p) h = (obj, h')"
  shows "DynamicEnvList_DeepCopyObject tp None h = (None, h) \<and>
    (\<exists>q. obj = Some (DynamicEnvListObject q) \<and> prefix h h' \<and>
      sh_eq (ptr_shape un_EnvLists (DynamicEnvList_shape ts)) h (Some p) h' (Some q) \<and>
      sh_refs (ptr_shape un_EnvLists (DynamicEnvList_shape ts)) h' (Some p) \<inter>
        sh_refs (ptr_shape un_EnvLists (DynamicEnvList_shape ts)) h' (Some q) = {} \<and>
      (\<forall>a c. a \<in> sh_refs (ptr_shape un_EnvLists (DynamicEnvList_shape ts)) h' (Some q) \<longrightarrow>
         sh_eq (ptr_shape un_EnvLists (DynamicEnvList_shape ts)) h (Some p) (h'[a := c]) (Some p)) \<and>
      (\<forall>a c. a \<in> sh_refs (ptr_shape un_EnvLists (DynamicEnvList_shape ts)) h' (Some p) \<longrightarrow>
         sh_eq (ptr_shape un_EnvLists (DynamicEnvList_shape ts)) h (Some p) (h'[a := c]) (Some q)))"
proof -
  let ?S = "ptr_shape un_EnvLists (DynamicEnvList_shape ts) :: ('e, 'm, 'l, 'x, ptr) reach"
  have dc: "deep_copier ?S (DynamicEnvList_DeepCopy tp)"
    unfolding DynamicEnvList_DeepCopy_def by (intro deep_copier_ptr dynamic_env_list_deep assms(1)) simp
  obtain q where run: "DynamicEnvList_DeepCopy tp (Some p) h = (Some q, h')" and obj: "obj = Some (DynamicEnvListObject q)"
    using assms(3)
    by (auto simp: DynamicEnvList_DeepCopyObject_def DynamicEnvList_DeepCopy_def copy_ptr_def split: prod.splits option.splits)
  note apart = deep_copier.writes_apart [OF dc assms(2) run]
  have "prefix h h' \<and> sh_eq ?S h (Some p) h' (Some q)" using deep_copier.copies [OF dc assms(2) run] by blast
  moreover have "DynamicEnvList_DeepCopyObject tp None h = (None, h)"
    by (simp add: DynamicEnvList_DeepCopyObject_def DynamicEnvList_DeepCopy_def copy_ptr_def)
  ultimately show ?thesis using apart obj by blast
qed

text \<open>
  A list in memory: an environment with one subset, whose container override has a variable with a value source, and a status.
  Variables are a name and a pointer to the source, metadata a name and labels.
\<close>

definition sample_tp :: "(string \<times> ptr, string \<times> mapref, string, string list) third_party" where
  "sample_tp = \<lparr>
     EnvVar_DeepCopyInto = and_copy assign (copy_ptr Foreign (\<lambda>c. case c of Foreign xs \<Rightarrow> Some xs | _ \<Rightarrow> None) [] assign),
     EnvVar_zero = ([], None),
     ObjectMeta_DeepCopyInto = and_copy assign (copy_map (\<lambda>n ks. rev ks) StringMap un_StringMap assign), ObjectMeta_zero = ([], None),
     ListMeta_DeepCopyInto = assign, ListMeta_zero = [], range_order = (\<lambda>n ks. rev ks)\<rparr>"

definition sample_ts :: "(string \<times> ptr, string \<times> mapref, string, string list) third_shapes" where
  "sample_ts = \<lparr>
     EnvVar_shape = and_shape plain (ptr_shape (\<lambda>c. case c of Foreign xs \<Rightarrow> Some xs | _ \<Rightarrow> None) plain),
     ObjectMeta_shape = and_shape plain (map_shape un_StringMap plain), ListMeta_shape = plain\<rparr>"

lemma sample_third_party: "third_party_ok sample_ts sample_tp"
proof -
  have "kind_of_cell Foreign (\<lambda>c. case c of Foreign xs \<Rightarrow> Some xs | _ \<Rightarrow> None)" by (simp add: kind_of_cell_def)
  moreover have "visits_all (\<lambda>n ks. rev ks)" by (simp add: visits_all_def)
  ultimately show ?thesis
    unfolding third_party_ok_def sample_ts_def sample_tp_def third_party.simps third_shapes.simps
    by (intro conjI deep_intros)
qed

definition one :: "nat \<Rightarrow> slice" where
  "one a = Some \<lparr>sl_arr = a, sl_off = 0, sl_len = 1\<rparr>"

definition sample_memory :: "(string \<times> ptr, string \<times> mapref, string, string list) cell list" where
  "sample_memory =
     [EnvLists [\<lparr>gdel_TypeMeta = \<lparr>tm_Kind = ''DynamicEnvList'', tm_APIVersion = ''v1''\<rparr>, gdel_ListMeta = ''1'', gdel_Items = one 1\<rparr>],
      Envs [\<lparr>gde_TypeMeta = \<lparr>tm_Kind = ''DynamicEnv'', tm_APIVersion = ''v1''\<rparr>, gde_ObjectMeta = (''env'', Some 2),
        gde_Spec = \<lparr>gspec_IstioMatches = None, gspec_Subsets = one 3, gspec_Consumers = None\<rparr>,
        gde_Status = \<lparr>gst_SubsetsStatus = Some 7, gst_ConsumersStatus = None, gst_State = Ready, gst_TotalCount = 1,
          gst_TotalReady = 1\<rparr>\<rparr>],
      StringMap [(''team'', ''a''), (''app'', ''b'')],
      Subsets [Subset_go_zero\<lparr>gsub_Name := ''details'', gsub_Containers := one 4\<rparr>],
      Containers [ContainerOverrides_go_zero\<lparr>gco_Env := one 5\<rparr>],
      EnvVars [(''TOKEN'', Some (6, 0))],
      Foreign [''secret''],
      SubsetStatusMap [(''ns/details'', SubsetStatus_go_zero\<lparr>gss_Hash := 7\<rparr>)]]"

lemmas shape_defs = DynamicEnvList_shape_def DynamicEnv_shape_def DynamicEnvSpec_shape_def DynamicEnvStatus_shape_def Subset_shape_def
  IstioMatch_shape_def ContainerOverrides_shape_def SubsetStatus_shape_def SubsetErrors_shape_def ConsumerStatus_shape_def

lemmas sample_defs = sample_memory_def sample_ts_def one_def as_slice_def slice_there_def window_def array_at_def map_at_def un_defs
  Subset_go_zero_def ContainerOverrides_go_zero_def SubsetStatus_go_zero_def

lemma sample_memory_ok: "sh_ok (ptr_shape un_EnvLists (DynamicEnvList_shape sample_ts)) sample_memory (Some (0, 0))"
  by (simp add: shape_defs sample_defs)

theorem DeepCopyObject_independent_witness:
  "\<exists>q h'. DynamicEnvList_DeepCopyObject sample_tp (Some (0, 0)) sample_memory = (Some (DynamicEnvListObject q), h') \<and>
     sh_eq (ptr_shape un_EnvLists (DynamicEnvList_shape sample_ts)) sample_memory (Some (0, 0))
       (h'[6 := Foreign [''leaked'']]) (Some q)"
proof -
  obtain obj h' where run: "DynamicEnvList_DeepCopyObject sample_tp (Some (0, 0)) sample_memory = (obj, h')" by fastforce
  note ind = DeepCopyObject_independent [OF sample_third_party sample_memory_ok run]
  have "prefix sample_memory h'" using ind by blast
  moreover have "6 \<in> sh_refs (ptr_shape un_EnvLists (DynamicEnvList_shape sample_ts)) sample_memory (Some (0, 0))"
    by (simp add: shape_defs sample_defs)
  moreover have "deep_copier (ptr_shape un_EnvLists (DynamicEnvList_shape sample_ts)) (DynamicEnvList_DeepCopy sample_tp)"
    unfolding DynamicEnvList_DeepCopy_def by (intro deep_copier_ptr dynamic_env_list_deep sample_third_party) simp
  ultimately have "6 \<in> sh_refs (ptr_shape un_EnvLists (DynamicEnvList_shape sample_ts)) h' (Some (0, 0))"
    using local_shape.grown(2) [OF deep_copier.axioms(1) sample_memory_ok] by blast
  with ind run show ?thesis by blast
qed

end
