(* ===== verification/System.thy ===== *)
theory System
  imports Reporting
begin

text \<open>
  The operator at work: the queue of requests, the watch events that fill it and the reconcile calls that empty it, as a step
  relation. The queue belongs to the controller library, and so does the rule that a request goes back to the queue when a
  call ends with an error or asks for it; both are the parameter \<open>work_queue\<close>, and \<open>queue_ok\<close> is what their
  documentation promises. The manager makes one call at a time; between the steps of the operator the rest of the world
  may change in any way, and events may arrive at any time.

  A call counts as unsettled when the last thing it did was to report \<open>Processing\<close>, or an update that failed, or
  a failure to read the environment. Events of a deployment that only changes its status do not reach the queue, so
  it depends on the calls themselves that such an environment is looked at again.
\<close>

section \<open>The system\<close>

record 'q work_queue =
  wq_add :: "NamespacedName \<Rightarrow> 'q \<Rightarrow> 'q"
  wq_get :: "'q \<Rightarrow> (NamespacedName \<times> 'q) option"
  wq_handled :: "NamespacedName \<Rightarrow> Result \<Rightarrow> goerror option \<Rightarrow> 'q \<Rightarrow> 'q"
  wq_pending :: "'q \<Rightarrow> NamespacedName set"

definition queue_ok :: "'q work_queue \<Rightarrow> bool" where
  "queue_ok Q \<longleftrightarrow>
     (\<forall>req q. wq_pending Q (wq_add Q req q) = insert req (wq_pending Q q)) \<and>
     (\<forall>q req q'. wq_get Q q = Some (req, q') \<longrightarrow> wq_pending Q q \<subseteq> insert req (wq_pending Q q')) \<and>
     (\<forall>req res err q. wq_pending Q q \<subseteq> wq_pending Q (wq_handled Q req res err q) \<and>
        (err \<noteq> None \<or> Requeue res \<longrightarrow> req \<in> wq_pending Q (wq_handled Q req res err q)))"

record ('w, 'q) system =
  sy_world :: 'w
  sy_queue :: 'q
  sy_active :: "NamespacedName option"
  sy_history :: "(NamespacedName \<times> effect list) list" \<comment> \<open>the calls that returned, with their requests\<close>

inductive system_step :: "'w Env \<Rightarrow> DynamicEnvReconciler \<Rightarrow> 'q work_queue \<Rightarrow> ('w, 'q) system \<Rightarrow> ('w, 'q) system \<Rightarrow> bool"
  for c r Q where
  others: "system_step c r Q s (s\<lparr>sy_world := w\<rparr>)"
| environment_event: "system_step c r Q s (s\<lparr>sy_queue := wq_add Q req (sy_queue s)\<rparr>)"
| watch_event: "EnqueueRequestForAnnotation ev [] = Done reqs \<Longrightarrow>
    system_step c r Q s (s\<lparr>sy_queue := fold (wq_add Q) reqs (sy_queue s)\<rparr>)"
| take: "sy_active s = None \<Longrightarrow> wq_get Q (sy_queue s) = Some (req, q) \<Longrightarrow>
    system_step c r Q s (s\<lparr>sy_queue := q, sy_active := Some req\<rparr>)"
| run: "sy_active s = Some req \<Longrightarrow>
    Reconcile (traced c) r req (sy_world s, []) = (Done (res, err), w, es) \<Longrightarrow>
    system_step c r Q s (s\<lparr>sy_world := w, sy_queue := wq_handled Q req res err (sy_queue s), sy_active := None,
      sy_history := sy_history s @ [(req, es)]\<rparr>)"

inductive reachable :: "'w Env \<Rightarrow> DynamicEnvReconciler \<Rightarrow> 'q work_queue \<Rightarrow> ('w, 'q) system \<Rightarrow> bool"
  for c r Q where
  start: "reachable c r Q \<lparr>sy_world = w, sy_queue = q, sy_active = None, sy_history = []\<rparr>"
| next_step: "reachable c r Q s \<Longrightarrow> system_step c r Q s t \<Longrightarrow> reachable c r Q t"

definition last_log :: "NamespacedName \<Rightarrow> (NamespacedName \<times> effect list) list \<Rightarrow> effect list" where
  "last_log req history = fold (\<lambda>(r, es) log. if r = req then es else log) history []"

definition waiting :: "'q work_queue \<Rightarrow> ('w, 'q) system \<Rightarrow> NamespacedName set" where
  "waiting Q s = wq_pending Q (sy_queue s) \<union> set_option (sy_active s)"

lemma last_log_simps [simp]:
  "last_log req [] = []"
  "last_log req (history @ [(req', es)]) = (if req' = req then es else last_log req history)"
  by (simp_all add: last_log_def)

lemma queue_okD:
  assumes "queue_ok Q"
  shows "wq_pending Q (wq_add Q req q) = insert req (wq_pending Q q)"
    and "wq_get Q q = Some (req, q') \<Longrightarrow> wq_pending Q q \<subseteq> insert req (wq_pending Q q')"
    and "wq_pending Q q \<subseteq> wq_pending Q (wq_handled Q req res err q)"
    and "err \<noteq> None \<or> Requeue res \<Longrightarrow> req \<in> wq_pending Q (wq_handled Q req res err q)"
  using assms unfolding queue_ok_def by blast+

lemma pending_fold:
  "queue_ok Q \<Longrightarrow> wq_pending Q (fold (wq_add Q) reqs q) = set reqs \<union> wq_pending Q q"
  by (induction reqs arbitrary: q) (simp_all add: queue_okD)

section \<open>Unsettled calls ask to be repeated\<close>

fun unsettled :: "effect \<Rightarrow> bool" where
  "unsettled (UpdatedStatus de e) \<longleftrightarrow> st_State (de_Status de) = Processing \<or> e \<noteq> None"
| "unsettled (UpdatedDynamicEnv de e) \<longleftrightarrow> e \<noteq> None"
| "unsettled (GotDynamicEnv nn (Inl err)) \<longleftrightarrow> \<not> IsNotFound err"
| "unsettled _ \<longleftrightarrow> False"

definition repeats :: "Result \<times> goerror option \<Rightarrow> bool" where
  "repeats res \<longleftrightarrow> snd res \<noteq> None \<or> Requeue (fst res)"

lemma answer_repeats: "repeats (answer nonReady err) \<longleftrightarrow> nonReady \<or> err \<noteq> None"
  by (auto simp: repeats_def answer_def Result_zero_def)

lemma finish_repeats:
  "yields (finish (traced c) n nonReady rls) s (\<lambda>res t. log_of t \<noteq> [] \<and> (unsettled (last (log_of t)) \<longrightarrow> repeats res))"
  apply (rule yields_mono [OF finish_report], clarify)
  apply (simp only: answer_repeats)
  apply (auto simp: report_def global_state_cases split: option.splits)
  done

lemma reconcile_live_repeats:
  "yields (reconcile_live (traced c) r) s (\<lambda>res t. log_of t \<noteq> [] \<and> (unsettled (last (log_of t)) \<longrightarrow> repeats res))"
  unfolding reconcile_live_def yields_bnd yields_readDE Let_def
  apply (rule yields_mono [OF yields_any], clarify, simp only: yields_bnd)
  apply (rule yields_mono [OF yields_any], clarify, simp only: yields_bnd)
  apply (rule yields_mono [OF yields_any], clarify, rule finish_repeats)
  done

text \<open>A call that appends to the log, and fails when one of its requests leaves it unsettled.\<close>

definition owns_up :: "('w \<times> effect list, goerror option) go \<Rightarrow> bool" where
  "owns_up m \<longleftrightarrow> (\<forall>s. yields m s (\<lambda>err t. \<exists>es. log_of t = log_of s @ es \<and> (list_ex unsettled es \<longrightarrow> err \<noteq> None)))"

lemma owns_up_quiet: "does (\<lambda>e. \<not> unsettled e) m \<Longrightarrow> owns_up m"
  by (auto simp: owns_up_def list_ex_iff list_all_iff intro!: yieldsI elim!: doesD)

lemma owns_up_bnd:
  assumes "does (\<lambda>e. \<not> unsettled e) m" and "\<And>x. owns_up (f x)"
  shows "owns_up (bnd m f)"
  unfolding owns_up_def yields_bnd
proof
  fix s
  have "yields m s (\<lambda>x t. \<exists>es. log_of t = log_of s @ es \<and> \<not> list_ex unsettled es)"
    using assms(1) by (auto simp: list_ex_iff list_all_iff intro!: yieldsI elim!: doesD)
  then show "yields m s (\<lambda>x t. yields (f x) t
      (\<lambda>err u. \<exists>es. log_of u = log_of s @ es \<and> (list_ex unsettled es \<longrightarrow> err \<noteq> None)))"
    apply (rule yields_mono, clarify)
    subgoal for x t es
      by (rule yields_mono [OF assms(2) [unfolded owns_up_def, rule_format]]) fastforce
    done
qed

lemma owns_up_chain:
  assumes "owns_up m" and "owns_up rest"
  shows "owns_up (bnd m (\<lambda>err. case err of Some err \<Rightarrow> ret (Some err) | None \<Rightarrow> rest))"
  unfolding owns_up_def yields_bnd
  apply (intro allI yields_mono [OF assms(1) [unfolded owns_up_def, rule_format]], clarify)
  subgoal for s err t es
    by (cases err) (auto simp: yields_simps intro!: yields_mono [OF assms(2) [unfolded owns_up_def, rule_format]])
  done

lemma owns_up_deleteFinalizer: "owns_up (deleteFinalizer (traced c) finalizer)"
  unfolding owns_up_def
  by (intro allI yieldsI) (auto simp: deleteFinalizer_def bnd_apply UpdateDE_def write_back_apply log_call_def
      split: prod.splits option.splits)

lemma owns_up_block:
  assumes "does (\<lambda>e. \<not> unsettled e) work" and "owns_up rest"
  shows "owns_up (finalizer_block (traced c) finalizer work rest)"
  unfolding finalizer_block_def
  by (rule owns_up_bnd)
    (auto simp: does_intro assms owns_up_quiet split: option.split
      intro!: owns_up_bnd owns_up_chain owns_up_deleteFinalizer)

lemma quiet_deletes:
  "does (\<lambda>e. \<not> unsettled e) (deleteDeployment (traced c) rs)"
  "does (\<lambda>e. \<not> unsettled e) (deleteDestinationRule (traced c) rs)"
  "does (\<lambda>e. \<not> unsettled e) (cleanupVirtualService (traced c) rs)"
  unfolding deleteDeployment_def deleteDestinationRule_def cleanupVirtualService_def
  by (intro does_intro; simp)+

lemma quiet_loops:
  "does (\<lambda>e. \<not> unsettled e) (delete_deployments (traced c) rss n)"
  "does (\<lambda>e. \<not> unsettled e) (delete_destination_rules (traced c) rss n)"
  "does (\<lambda>e. \<not> unsettled e) (cleanup_virtual_services (traced c) rss)"
  by (induction rss arbitrary: n; auto intro!: does_intro quiet_deletes)+

lemma quiet_deletion:
  "does (\<lambda>e. \<not> unsettled e) (deleteAllDeployments (traced c))"
  "does (\<lambda>e. \<not> unsettled e) (deleteAllDestinationRules (traced c))"
  "does (\<lambda>e. \<not> unsettled e) (bnd (cleanupVirtualServices (traced c)) (\<lambda>err. ret (0 :: int, err)))"
  unfolding deleteAllDeployments_def deleteAllDestinationRules_def cleanupVirtualServices_def
  by (intro does_intro quiet_loops; simp)+

lemma DeleteAllResources_repeats:
  "yields (DeleteAllResources (traced c)) s (\<lambda>res t. \<exists>es. log_of t = log_of s @ es \<and> (list_ex unsettled es \<longrightarrow> repeats res))"
proof -
  have "owns_up (ret None :: ('a \<times> effect list, goerror option) go)"
    by (intro owns_up_quiet does_intro)
  then show ?thesis
    unfolding DeleteAllResources_def yields_bnd
    by (intro yields_mono [OF owns_up_block [unfolded owns_up_def, rule_format]] owns_up_block quiet_deletion)
      (auto simp: yields_simps owns_up_def repeats_def)
qed

lemma reconcile_env_repeats:
  "yields (reconcile_env (traced c) r) (loaded de w req) (\<lambda>res t. log_of t \<noteq> [] \<and> (unsettled (last (log_of t)) \<longrightarrow> repeats res))"
proof (cases "markedForDeletion de")
  case True
  then show ?thesis
    unfolding reconcile_env_def yields_bnd
    apply (simp add: yields_simps)
    apply (rule yields_mono [OF DeleteAllResources_repeats], clarify)
    subgoal for res err t es by (cases es rule: rev_cases) auto
    done
next
  case False
  have "yields (ensureFinalizers (traced c)) (loaded de w req) (\<lambda>r t. log_of t \<noteq> [])"
    by (rule yieldsI) (auto simp: ensureFinalizers_def bnd_apply UpdateDE_def write_back_apply log_call_eq
        split: if_splits prod.splits option.splits)
  with False show ?thesis
    unfolding reconcile_env_def yields_bnd
    apply (simp add: yields_simps)
    apply (rule yields_mono, assumption)
    apply (rule yields_option)
     apply (rule reconcile_live_repeats)
    apply (simp add: yields_simps repeats_def)
    done
qed

lemma Reconcile_repeats:
  assumes "Reconcile (traced c) r req (w, []) = (Done res, w', log)" and "log \<noteq> []" and "unsettled (last log)"
  shows "repeats res"
proof (cases "GetDynamicEnv c req w")
  case (Pair ans w1)
  show ?thesis
  proof (cases ans)
    case (Inl err)
    with Pair assms show ?thesis by (auto simp: Reconcile_def log_call_eq repeats_def split: if_splits)
  next
    case (Inr de)
    with Pair have "GetDynamicEnv c req w = (Inr de, w1)" by simp
    from Reconcile_loaded_yields [OF this reconcile_env_repeats assms(1)] assms(3) show ?thesis by auto
  qed
qed

section \<open>Invariants of the system\<close>

lemma unsettled_waits:
  assumes "reachable c r Q s" and "queue_ok Q"
  shows "last_log req (sy_history s) \<noteq> [] \<and> unsettled (last (last_log req (sy_history s))) \<longrightarrow> req \<in> waiting Q s"
  using assms(1)
proof (induction rule: reachable.induct)
  case (next_step s t)
  from next_step.hyps(2) show ?case
  proof cases
    case (run req' res err w es)
    have "wq_pending Q (sy_queue s) \<subseteq> waiting Q t" using run(1) queue_okD(3) [OF assms(2)] by (auto simp: waiting_def)
    moreover have "req' \<in> waiting Q t" if "es \<noteq> []" "unsettled (last es)"
      using run(1) queue_okD(4) [OF assms(2)] Reconcile_repeats [OF run(3) that] by (simp add: waiting_def repeats_def)
    ultimately show ?thesis
      using run(1,2) next_step.IH by (auto simp: waiting_def [of Q s])
  next
    case (take req' q)
    with next_step.IH queue_okD(2) [OF assms(2)] show ?thesis by (auto simp: waiting_def)
  qed (use next_step.IH assms(2) in \<open>auto simp: waiting_def pending_fold queue_okD(1)\<close>)
qed simp

text \<open>
  Documented behaviour of the server: an object that is asked for by name has that name.
\<close>

definition answers_by_name :: "'w Env \<Rightarrow> bool" where
  "answers_by_name c \<longleftrightarrow> (\<forall>req w de w1. GetDynamicEnv c req w = (Inr de, w1) \<longrightarrow> de_ident de = req)"

lemma Reconcile_own_writes:
  assumes "spec_echoes c" and "answers_by_name c" and "Reconcile (traced c) r req (w, []) = (res, w', es)"
  shows "\<exists>sts. list_all (own_writes req sts) es"
proof (cases "GetDynamicEnv c req w")
  case (Pair ans w1)
  show ?thesis
  proof (cases ans)
    case (Inl err)
    with Pair assms(3) show ?thesis by (auto simp: Reconcile_def log_call_eq own_writes_def split: if_splits)
  next
    case (Inr de)
    with Pair have get: "GetDynamicEnv c req w = (Inr de, w1)" by simp
    with assms(2) have "de_ident de = req" by (auto simp: answers_by_name_def)
    with reconcile_env_writes [OF assms(1), of de r w1 req] assms(3) show ?thesis
      unfolding Reconcile_loaded [OF get] by (auto simp: logs_def own_writes_def)
  qed
qed

lemma history_own_writes:
  assumes "reachable c r Q s" and "spec_echoes c" and "answers_by_name c"
  shows "\<forall>(req, es) \<in> set (sy_history s). \<exists>sts. list_all (own_writes req sts) es"
  using assms(1)
proof (induction rule: reachable.induct)
  case (next_step s t)
  from next_step.hyps(2) show ?case
  proof cases
    case (run req res err w es)
    with next_step.IH Reconcile_own_writes [OF assms(2,3) run(3)] show ?thesis by auto
  qed (use next_step.IH in auto)
qed simp

definition plain_name :: "NamespacedName \<Rightarrow> bool" where
  "plain_name i \<longleftrightarrow> CHR ''-'' \<notin> set (nn_Namespace i) \<and> CHR ''-'' \<notin> set (nn_Name i) \<and>
     length (nn_Namespace i) \<le> 20 \<and> length (nn_Name i) \<le> 40"

lemma sep_inject_last:
  fixes a b :: string
  assumes "c \<notin> set b" and "c \<notin> set b'" and "a @ c # b = a' @ c # b'"
  shows "a = a' \<and> b = b'"
  using sep_inject [of c "rev b" "rev b'" "rev a" "rev a'"] arg_cong [OF assms(3), of rev] assms(1,2) by simp

lemma overriding_key_env:
  assumes "plain_name i" and "plain_name j" and "overriding_key i st = overriding_key j st'"
  shows "i = j"
proof -
  have "(sub_Name (sbt_Subset st) @ ''-'' @ nn_Namespace i) @ CHR ''-'' # nn_Name i =
      (sub_Name (sbt_Subset st') @ ''-'' @ nn_Namespace j) @ CHR ''-'' # nn_Name j"
    using assms by (simp add: overriding_key_def UniqueDynamicEnvName_take plain_name_def)
  from sep_inject_last [OF _ _ this] assms(1,2)
  have "nn_Name i = nn_Name j" "sub_Name (sbt_Subset st) @ CHR ''-'' # nn_Namespace i = sub_Name (sbt_Subset st') @ CHR ''-'' # nn_Namespace j"
    by (simp_all add: plain_name_def)
  with sep_inject_last [OF _ _ this(2)] assms(1,2) show "i = j" by (simp add: plain_name_def)
qed

fun written_deployment :: "effect \<Rightarrow> Deployment option" where
  "written_deployment (CreatedDeployment d _) = Some d"
| "written_deployment (UpdatedDeployment d _) = Some d"
| "written_deployment _ = None"

definition written_deployments :: "('w, 'q) system \<Rightarrow> NamespacedName \<Rightarrow> Deployment set" where
  "written_deployments s req = {d. \<exists>es e. (req, es) \<in> set (sy_history s) \<and> e \<in> set es \<and> written_deployment e = Some d}"

lemma own_writes_deployment:
  "own_writes req sts e \<Longrightarrow> written_deployment e = Some d \<Longrightarrow> meta_key (dep_Meta d) \<in> overriding_key req ` set sts"
  by (cases e) (auto simp: own_writes_def)

section \<open>A sample system\<close>

text \<open>A queue that is a list without repetitions, and a manager that serves its first request.\<close>

definition list_add :: "NamespacedName \<Rightarrow> NamespacedName list \<Rightarrow> NamespacedName list" where
  "list_add req q = (if req \<in> set q then q else q @ [req])"

definition list_queue :: "NamespacedName list work_queue" where
  "list_queue = \<lparr>wq_add = list_add, wq_get = (\<lambda>q. case q of [] \<Rightarrow> None | req # q \<Rightarrow> Some (req, q)),
     wq_handled = (\<lambda>req res err q. if repeats (res, err) then list_add req q else q), wq_pending = set\<rparr>"

lemma list_queue_ok: "queue_ok list_queue"
  by (auto simp: queue_ok_def list_queue_def list_add_def repeats_def split: list.splits)

definition started :: "'w \<Rightarrow> NamespacedName list \<Rightarrow> ('w, NamespacedName list) system" where
  "started w q = \<lparr>sy_world = w, sy_queue = q, sy_active = None, sy_history = []\<rparr>"

definition serve :: "'w Env \<Rightarrow> DynamicEnvReconciler \<Rightarrow> ('w, NamespacedName list) system \<Rightarrow> ('w, NamespacedName list) system" where
  "serve c r s = (case sy_queue s of [] \<Rightarrow> s | req # q \<Rightarrow>
     (case Reconcile (traced c) r req (sy_world s, []) of
        (Done (res, err), w, es) \<Rightarrow> s\<lparr>sy_world := w, sy_queue := wq_handled list_queue req res err q, sy_active := None,
          sy_history := sy_history s @ [(req, es)]\<rparr>
      | (Panic, _) \<Rightarrow> s))"

lemma reachable_started: "reachable c r Q (started w q)"
  unfolding started_def by (rule start)

lemma reachable_serve:
  assumes "reachable c r list_queue s" and "sy_active s = None"
  shows "reachable c r list_queue (serve c r s)"
proof -
  have "reachable c r list_queue (s\<lparr>sy_world := w, sy_queue := wq_handled list_queue req res err q, sy_active := None,
      sy_history := sy_history s @ [(req, es)]\<rparr>)"
    if "sy_queue s = req # q" "Reconcile (traced c) r req (sy_world s, []) = (Done (res, err), w, es)" for req q res err w es
  proof -
    let ?t = "s\<lparr>sy_queue := q, sy_active := Some req\<rparr>"
    have "reachable c r list_queue ?t"
      using that(1) by (intro next_step [OF assms(1)] take [OF assms(2)]) (simp add: list_queue_def)
    moreover have "system_step c r list_queue ?t (?t\<lparr>sy_world := w, sy_queue := wq_handled list_queue req res err (sy_queue ?t),
        sy_active := None, sy_history := sy_history ?t @ [(req, es)]\<rparr>)"
      using that(2) by (intro run) simp_all
    ultimately show ?thesis by (drule_tac next_step) simp_all
  qed
  then show ?thesis
    using assms(1) by (auto simp: serve_def split: list.split prod.split outcome.split)
qed

lemma serve_idle: "sy_active s = None \<Longrightarrow> sy_active (serve c r s) = None"
  by (auto simp: serve_def split: list.split prod.split outcome.split)

definition sample_stuck :: "(mem, NamespacedName list) system" where
  \<comment> \<open>one call, for an environment whose overriding deployment does not become available\<close>
  "sample_stuck = serve mem_env sample_reconciler
     (started (sample_world (progressing ''False'' ''ProgressDeadlineExceeded'')) [sample_req ''env''])"

lemma sample_stuck_reachable: "reachable mem_env sample_reconciler list_queue sample_stuck"
  unfolding sample_stuck_def by (rule reachable_serve [OF reachable_started]) (simp add: started_def)

lemma sample_stuck_log:
  "last_log (sample_req ''env'') (sy_history sample_stuck) \<noteq> []"
  "unsettled (last (last_log (sample_req ''env'') (sy_history sample_stuck)))"
  by code_simp+

definition sample_pair :: "(mem, NamespacedName list) system" where
  \<comment> \<open>one call for each of two environments that override the same deployment\<close>
  "sample_pair = serve mem_env sample_reconciler (serve mem_env sample_reconciler
     (started (empty_mem\<lparr>m_des := [sample_consumer_env, sample_consumer_env\<lparr>de_Name := ''two''\<rparr>], m_deps := [sample_base]\<rparr>)
        [sample_req ''env'', sample_req ''two'']))"

lemma sample_pair_reachable: "reachable mem_env sample_reconciler list_queue sample_pair"
  unfolding sample_pair_def
  by (intro reachable_serve reachable_started serve_idle) (simp_all add: started_def)

lemma sample_pair_history:
  "map fst (sy_history sample_pair) = [sample_req ''env'', sample_req ''two'']"
  "list_all (\<lambda>(_, es). list_ex (\<lambda>e. written_deployment e \<noteq> None) es) (sy_history sample_pair)"
  by code_simp+

lemma mem_env_answers_by_name: "answers_by_name mem_env"
proof -
  have "fetch de_key req des = Inr de \<Longrightarrow> de_ident de = req" for req des de
    by (induction des) (auto simp: de_ident_def split: if_splits)
  then show ?thesis by (auto simp: answers_by_name_def mem_env_def)
qed

section \<open>Properties\<close>

text \<open>
  C11: no unsettled environment is forgotten. In every state that the operator can reach, whatever events arrive and however
  the rest of the cluster changes: when the last call for an environment ended with a report of \<open>Processing\<close>, with an update
  of the environment or its status that failed, or with a failure to read it, then a request for it is in the queue or in work.
\<close>

theorem unsettled_never_forgotten:
  assumes "queue_ok Q" and "reachable c r Q s" and "last_log req (sy_history s) = es @ [e]" and "unsettled e"
  shows "req \<in> wq_pending Q (sy_queue s) \<or> sy_active s = Some req"
  using unsettled_waits [OF assms(2,1), of req] assms(3,4) by (auto simp: waiting_def)

theorem unsettled_never_forgotten_witness:
  "sample_req ''env'' \<in> set (sy_queue sample_stuck) \<or> sy_active sample_stuck = Some (sample_req ''env'')"
  using unsettled_never_forgotten [OF list_queue_ok sample_stuck_reachable, of "sample_req ''env''"] sample_stuck_log
  by (simp add: list_queue_def) (metis append_butlast_last_id)



text \<open>
  A degraded environment is not looked at again. In the sample cluster a subset has two services; a virtual service exists for
  one of them and a destination rule of the default version for the other. The call reports \<open>Degraded\<close>, returns no error and does
  not ask to be repeated. When the missing destination rule is created later, it does not name the environment, so that its
  event does not lead back to it either.
\<close>

definition sample_apart :: "(mem, NamespacedName list) system" where
  "sample_apart = serve mem_env sample_reconciler (started (sample_mesh_world\<lparr>m_drs := [sample_rule\<lparr>dr_Host := ''other''\<rparr>],
     m_svcs := map (\<lambda>n. (''ns'', \<lparr>svc_Name = n, svc_Selector = Some [(''app'', ''details'')]\<rparr>)) [''details'', ''other'']\<rparr>)
     [sample_req ''env''])"

theorem degraded_is_forgotten:
  "reported_state (last (last_log (sample_req ''env'') (sy_history sample_apart))) = Some Degraded \<and>
   sy_queue sample_apart = [] \<and> EnqueueRequestForAnnotation (CreateEvent (om_Annotations (dr_Meta sample_rule))) [] = Done []"
  by code_simp

end
