(* ===== verification/Spec2Isabelle.thy ===== *)
theory Spec2Isabelle
  imports Prelude API_Types Helpers Watches Webhook Cluster Memory_Env Model_Types Status_Manager Cleanup_Manager
    Handler Deployment_Handler Destination_Rule_Handler Virtual_Service_Handler Controller Reconcile_Correct
    Totality Readiness Status_Invariant Reporting Deletion Traffic Metrics Entry_Point Sha256 Go_Memory Deep_Copy System
begin

text \<open>
  Verification of the dynamic-environment operator, a Kubernetes controller in Go (\<^verbatim>\<open>src/\<close>).

  A dynamic environment (\<^verbatim>\<open>api/v1alpha1/dynamicenv_types.go\<close>) names subsets and consumers: deployments to be duplicated
  with another image, and, for subsets, Istio rules that send matching requests to the duplicate. The operator has these
  parts, and each has a theory:

  \<^item> \<open>Prelude\<close>: what the sources use of Go: calls that may panic (\<open>outcome\<close>, \<open>prog\<close>), errors with wrapping, maps that may
    be nil, strings; with three calculi for calls: \<open>returns\<close> (does not panic and \<dots>), \<open>yields\<close> (if it returns \<dots>) and \<open>keeps\<close>
    (a predicate of the state, also on a panic).
  \<^item> \<open>API_Types\<close>: the resource types, their enumerations and messages, and \<^verbatim>\<open>pkg/names/constants.go\<close>.
  \<^item> \<open>Go_Memory\<close>: memory with sharing, for the one part of the sources whose point is what is shared: arrays, slices that are
    windows of them, pointers into them, maps. A \<open>shape\<close> says what a value reaches and when two values are deeply equal; the
    locale \<open>deep_copier\<close> is the contract of a deep copy, with one lemma for each way in which copies are composed.
  \<^item> \<open>Deep_Copy\<close>: \<^verbatim>\<open>api/v1alpha1/zz_generated.deepcopy.go\<close>: the API types as they lie in memory and all their deep copies;
    and \<open>IsEmpty\<close> of container overrides, which tells a nil from an empty slice.
  \<^item> \<open>Sha256\<close>: the digest \<open>AsSha256\<close> of \<^verbatim>\<open>pkg/helpers/helpers.go\<close>, with the hash function on 32-bit words, as its standard
    defines it.
  \<^item> \<open>Helpers\<close>: \<^verbatim>\<open>pkg/helpers\<close>: names and prefixes of the managed resources, host matching, merging of environment
    variables.
  \<^item> \<open>Watches\<close>: \<^verbatim>\<open>pkg/watches/enqueue_annotations.go\<close>: the annotation that records which environments use a
    resource, and the event handler that turns it into reconcile requests. The locale \<open>owner_registry\<close> is the contract of
    the annotation.
  \<^item> \<open>Webhook\<close>: \<^verbatim>\<open>api/v1alpha1/dynamicenv_webhook.go\<close>: the admission rules. The locale \<open>admission\<close> derives from the two
    checks that every stored object is admissible.
  \<^item> \<open>Cluster\<close>: the Kubernetes and Istio objects with the fields the sources touch; \<open>Env\<close>, the client, the clock, the order
    of \<open>range\<close> over a map, and the hash and selector packages, as a record of functions over an arbitrary type of
    worlds; and \<open>loop_state\<close>, the environment object that all parts share through a pointer, next to the world.
  \<^item> \<open>Memory_Env\<close>: a concrete \<open>Env\<close> that keeps its objects in lists, on which the witnesses run.
  \<^item> \<open>Model_Types\<close>: \<^verbatim>\<open>pkg/model/types.go\<close>, and \<open>traced c\<close>, the environment \<open>c\<close> with a log of requests and answers;
    \<open>does A m\<close> says that every request of \<open>m\<close> satisfies \<open>A\<close>.
  \<^item> \<open>Status_Manager\<close>: \<^verbatim>\<open>pkg/model/status_manager.go\<close>. The locale \<open>status_section\<close> is the contract of the four parts
    of the status that hold resources.
  \<^item> \<open>Cleanup_Manager\<close>: \<^verbatim>\<open>pkg/model/cleanup_manager.go\<close>: finalizers, deletion, removed subsets and consumers. The locale
    \<open>resource_deleter\<close> is shared by deployments and destination rules.
  \<^item> \<open>Handler\<close>: the interfaces of \<^verbatim>\<open>pkg/handlers/handler.go\<close> as the locale \<open>resource_handler\<close>; \<open>Deployment_Handler\<close>,
    \<open>Destination_Rule_Handler\<close> and \<open>Virtual_Service_Handler\<close> model the three handlers and interpret it.
  \<^item> \<open>Controller\<close>: \<^verbatim>\<open>internal/controller/dynamicenv_controller.go\<close>: the reconcile loop; \<open>Reconcile_Correct\<close> proves what one
    call guarantees. \<open>SetupWithManager\<close> is in \<open>Entry_Point\<close>.
  \<^item> \<open>Metrics\<close>: \<^verbatim>\<open>pkg/metrics/collector.go\<close>: what a scrape sends, over an explicit channel; the Prometheus client is a parameter.
  \<^item> \<open>Entry_Point\<close>: \<^verbatim>\<open>cmd/main.go\<close>: the flags, and the calls to the manager in their order with the exit codes; and the
    registration of the API types, with \<^verbatim>\<open>api/v1alpha1/groupversion_info.go\<close>. The manager and the schemes are parameters.
  \<^item> \<open>System\<close>: the parts together: the queue, the events that fill it and the reconcile calls that empty it, as a step
    relation over a world that anybody may change; with the invariants of its reachable states. The queue is a parameter.

  Five theories hold no definitions of code but what whole runs guarantee, and one what the written objects mean:

  \<^item> \<open>Totality\<close>: a reconcile call returns. \<open>gives m P\<close> says that a call returns from every state with a value in \<open>P\<close>; there is
    one rule per construct and one lemma per operation.
  \<^item> \<open>Readiness\<close>: an environment whose resources are in place is reported ready. A \<open>view\<close> is what a client sees of the cluster,
    \<open>resources_ready\<close> says what has to be there for a subset or consumer; \<open>steady J m P\<close> says that a call returns from every state
    in \<open>J\<close> to a state in \<open>J\<close> with a value in \<open>P\<close>, with one lemma per operation.
  \<^item> \<open>Status_Invariant\<close>: the invariant \<open>wf_status\<close> of the status, and that every operation keeps it.
  \<^item> \<open>Reporting\<close>: what the reported state says about base deployments and destination rules, and that the watches lead from
    what a run wrote back to its environment.
  \<^item> \<open>Deletion\<close>: two deletion runs are enough. The locale \<open>deleting_loop\<close> is shared by deployments and destination rules.
  \<^item> \<open>Traffic\<close>: which route of a virtual service a request takes, with the proxy's matching as a parameter; \<open>steer\<close> is the
    abstract specification of the virtual service handler.

  A Go method with a pointer receiver is a function from the record to the new record; a function that calls the client is
  a \<open>go\<close> program over \<open>loop_state\<close> with the environment as its first argument. Errors are values, as in the sources: \<open>goerror
  option\<close>, or a sum when there is another result. A panic (assignment to a nil map, a nil pointer, an index out of range) is
  \<open>Panic\<close>. A loop over a slice is a recursive function over the list, so every call terminates and no fuel is used; a loop
  over a map visits the keys in an order that \<open>RangeOrder\<close> of the environment chooses. The hash in the status keeps its
  width: it is a 64-bit word that is stored in a signed field.

  What is shown, by component:

  \<^item> The webhook accepts exactly the stated objects, and every object that is stored through it is admissible.
  \<^item> The status manager writes exactly the entry it is asked to write, with one request or none; messages and hashes are
    not lost.
  \<^item> The cleanup manager releases a finalizer, or drops the entry of a removed subset, only when the guarded resources were
    reported missing in the same run. On a server that carries out deletes, the second deletion run has released every
    finalizer of the operator.
  \<^item> The handlers create and change what they should and nothing else, are idempotent, and report statuses that mean what
    they say.
  \<^item> A reconcile call reports \<open>Ready\<close> only after it has seen every overriding deployment available; conversely, it reports \<open>Ready\<close>
    and writes nothing but the status when all resources are in place. It reports counts that add up, writes only resources of its own environment, and only tears down an environment that is being deleted. It returns
    and does not panic when the deployments and virtual services are complete, writes only well-formed statuses, reports an
    environment without its base deployment as degraded, and what it writes wakes the environment again.
  \<^item> After an update of a virtual service, exactly the requests that a match of the environment selects, among those that went
    to the default version, go to the version of the environment; two environments in one virtual service do not disturb
    each other.
  \<^item> In every state that the operator can reach, an environment whose last call was not settled (reported \<open>Processing\<close>, or ended
    with a failed update or read) has a request in the queue or in work, and deployments that were written for different
    environments have different keys when the names of the environments are short and without dashes.
  \<^item> A deep copy equals its original, lies in new memory, and neither is affected by writes to the other.
  \<^item> A scrape counts every environment once; the manager is started only when it is completely set up.
  \<^item> Below: the clean-up of an environment undoes what the virtual service handler did.

  Hypotheses about the environment are named: \<open>range_visits_all\<close> (a loop visits every key once), \<open>update_echoes\<close>, \<open>status_echoes\<close> and
  \<open>spec_echoes\<close> (the answer to an update carries what was sent), \<open>nothing_left\<close> and \<open>updates_accepted\<close> for the completion of
  a deletion, \<open>deleting_server\<close> for two deletion runs, \<open>vs_answers_ok\<close> and \<open>deployments_complete\<close> (no nil pointers in what the server
  returns, where the sources do not check) for \<open>Totality\<close>, \<open>displays\<close> (the answers follow a
  fixed view, updates of the status succeed) for \<open>Readiness\<close>, \<open>answers_by_name\<close> (an object that is asked for by name has that name)
  for \<open>System\<close>. \<open>Memory_Env\<close>, or a variant of it, satisfies them. \<open>queue_ok\<close> is what the queue promises, with a list as its
  instance; \<open>third_party_ok\<close> says that the deep copies of types of other packages are deep copies.

  Not modelled: log output and \<open>MkLogger\<close>; the text that \<open>fmt\<close> renders of a route, which is a type of another package, is a
  parameter of the digest. Outside \<open>Deep_Copy\<close> values are not aliased except where the sources rely on it (environment
  variables with a pointer, and virtual services, have explicit addresses).
  Concurrency enters only through the world: what other clients do between two requests is part of what a request may
  return, and the manager makes one reconcile call at a time.
\<close>

section \<open>Virtual services: adding an environment and cleaning it up\<close>

lemma updateVirtualService_result:
  assumes "updateVirtualService c h heap p host s = (Done (heap', None), t)" and "p < length heap"
    and "\<forall>vs w. snd (fst (UpdateVirtualService c vs w)) = vs" and "dests_ok (vs_Http (heap ! p))"
    and "\<not> routesConfiguredWithDynamicEnvRoutes (vs_Http (heap ! p)) (vsh_RoutePrefix h)"
  shows "heap' ! p = (heap ! p)\<lparr>vs_Http := with_env_routes c h host (vs_Namespace (heap ! p)) (vs_Http (heap ! p)),
    vs_Meta := (vs_Meta (heap ! p))\<lparr>om_Annotations := AddToAnnotation (vsh_Identifier h) (om_Annotations (vs_Meta (heap ! p)))\<rparr>\<rparr>"
proof -
  let ?new = "(heap ! p)\<lparr>vs_Http := with_env_routes c h host (vs_Namespace (heap ! p)) (vs_Http (heap ! p)),
    vs_Meta := (vs_Meta (heap ! p))\<lparr>om_Annotations := AddToAnnotation (vsh_Identifier h) (om_Annotations (vs_Meta (heap ! p)))\<rparr>\<rparr>"
  from assms(1,5) new_routes_eq [OF assms(4), of c h host "vs_Namespace (heap ! p)"]
  obtain w v w' where "UpdateVirtualService c ?new w = ((None, v), w')" and heap': "heap' = heap[p := v]"
    by (auto simp: updateVirtualService_def Let_def bnd_Done_iff call_Done_iff split: option.splits prod.splits)
  with assms(3) have "v = ?new" by (metis fst_conv snd_conv)
  with heap' assms(2) show ?thesis by simp
qed



text \<open>
  The clean-up of one environment can take away the routes of another. When two environments are in one
  namespace and the name of the second starts with the name of the first and a dash, then a clean-up for the
  first removes every route that was added for the second.
\<close>

theorem cleanup_prefix_collision:
  assumes "nn_Namespace ident2 = nn_Namespace ident1" and "nn_Name ident2 = nn_Name ident1 @ ''-'' @ rest"
    and "rd_Identifier data2 = ident2"
  shows "env_route c (NewVirtualServiceHandler data2 hosts version) host ns r m \<notin> set (vs_Http (cleaned ident1 vs))"
proof -
  have "HasPrefix (vsh_RoutePrefix (NewVirtualServiceHandler data2 hosts version))
      (CalculateVirtualServicePrefix (UniqueDynamicEnvName ident1) [])"
    using assms
    by (cases "40 - length (nn_Name ident1)")
      (simp_all add: NewVirtualServiceHandler_def Let_def Prefix_append HasPrefix_prefix UniqueDynamicEnvName_take)
  then have "HasPrefix (hr_Name (env_route c (NewVirtualServiceHandler data2 hosts version) host ns r m))
      (CalculateVirtualServicePrefix (UniqueDynamicEnvName ident1) [])"
    using env_route_name HasPrefix_trans by blast
  then show ?thesis by (simp add: cleaned_def Let_def cleanup_filter)
qed

theorem cleanup_prefix_collision_witness:
  "let other = (sample_named ''details'')\<lparr>rd_Identifier := \<lparr>nn_Namespace = ''ns'', nn_Name = ''env-two''\<rparr>\<rparr>;
       route = env_route mem_env (NewVirtualServiceHandler other [''details''] ''shared'') ''details'' ''ns'' sample_route sample_match
   in route \<notin> set (vs_Http (cleaned \<lparr>nn_Namespace = ''ns'', nn_Name = ''env''\<rparr> (sample_vs\<lparr>vs_Http := [route, sample_route]\<rparr>)))"
  unfolding Let_def
  by (rule cleanup_prefix_collision [where rest = "''two''" and ?ident2.0 = "\<lparr>nn_Namespace = ''ns'', nn_Name = ''env-two''\<rparr>"]) simp_all

end
